(* ===== verification/Prelude.thy ===== *)
theory Prelude
  imports Main "HOL-Library.Sublist" "HOL-Library.Char_ord" "HOL-Library.List_Lexorder"
    "HOL-Library.Code_Target_Nat"
begin

text \<open>
  Shared vocabulary of the development. A Go \<^verbatim>\<open>string\<close> and a Go \<^verbatim>\<open>[]byte\<close> are both
  sequences of bytes and are both modelled by \<^typ>\<open>string\<close> (a list of 8-bit characters).
  A \<^verbatim>\<open>time.Time\<close> is its distance from the Unix epoch in nanoseconds and a
  \<^verbatim>\<open>time.Duration\<close> a number of nanoseconds, both as \<^typ>\<open>int\<close>. A function that returns
  \<^verbatim>\<open>(T, error)\<close> returns a sum, \<open>Inl\<close> the error. This theory holds the error values of the
  program, the collections of rewrite rules the component theories extend, and the generic
  facts on lists and sums they share.
\<close>

section \<open>Types\<close>

type_synonym bytes = string
type_synonym time = int
type_synonym duration = int

text \<open>
  The sentinel errors. Callers of the Go code test membership with \<^verbatim>\<open>errors.Is\<close>, so a
  wrapped error is identified with the sentinel it wraps. \<open>ErrStorage\<close> stands for a driver
  error that \<^verbatim>\<open>mapError\<close> passes through under a static prefix, \<open>ErrInternal\<close> for an error that wraps
  no sentinel.
\<close>

datatype err =
    ErrNotFound
  | ErrConflict
  | ErrInvalidInput
  | ErrUnauthorized
  | ErrForbidden
  | ErrQuarantined
  | ErrBlockedName
  | ErrRevoked
  | ErrExpired
  | ErrImmutable
  | ErrLimitExceeded
  | ErrDefaultKeySet
  | ErrFoldStale
  | ErrStorage
  | ErrStoreUnavailable
  | ErrAuthFailed
  | ErrPollPending
  | ErrCanceled
  | ErrInternal

type_synonym 'a result = "err + 'a"

abbreviation ok :: "'e + 'a \<Rightarrow> bool" where
  "ok r \<equiv> \<not> isl r"

section \<open>Durations\<close>

abbreviation (input) nanosecond :: duration where "nanosecond \<equiv> 1"
abbreviation second :: duration where "second \<equiv> 1000000000"
abbreviation minute :: duration where "minute \<equiv> 60000000000"
abbreviation hour :: duration where "hour \<equiv> 3600000000000"

section \<open>Collections of rewrite rules\<close>

named_theorems go_string \<open>definitions of the Go string routines\<close>
named_theorems domain_defs \<open>definitions of the domain validators\<close>
named_theorems repo_defs \<open>definitions of the repository operations\<close>

section \<open>Generic facts\<close>

lemma dropWhile_takeWhile_split:
  assumes "x \<in> set xs"
  shows "xs = takeWhile (\<lambda>y. y \<noteq> x) xs @ x # tl (dropWhile (\<lambda>y. y \<noteq> x) xs)"
proof -
  from assms have ne: "dropWhile (\<lambda>y. y \<noteq> x) xs \<noteq> []"
    by (simp add: dropWhile_eq_Nil_conv)
  then have "hd (dropWhile (\<lambda>y. y \<noteq> x) xs) = x"
    using hd_dropWhile by blast
  with ne have "dropWhile (\<lambda>y. y \<noteq> x) xs = x # tl (dropWhile (\<lambda>y. y \<noteq> x) xs)"
    by (cases "dropWhile (\<lambda>y. y \<noteq> x) xs") auto
  then show ?thesis
    by (metis takeWhile_dropWhile_id)
qed

lemma takeWhile_neq_append [simp]:
  "x \<notin> set xs \<Longrightarrow> takeWhile (\<lambda>y. y \<noteq> x) (xs @ x # ys) = xs"
  by (induction xs) auto

lemma dropWhile_neq_append [simp]:
  "x \<notin> set xs \<Longrightarrow> dropWhile (\<lambda>y. y \<noteq> x) (xs @ x # ys) = x # ys"
  by (induction xs) auto

lemma length_dropWhile_less:
  "x \<in> set xs \<Longrightarrow> length (tl (dropWhile (\<lambda>y. y \<noteq> x) xs)) < length xs"
  by (induction xs) auto

lemma isl_conv: "isl r \<longleftrightarrow> (\<exists>e. r = Inl e)"
  by (cases r) auto

end
