(* ===== verification/Counter.thy ===== *)
theory Counter
  imports Prelude "HOL-Library.AList"
begin

text \<open>
  \<^verbatim>\<open>internal/counter\<close>: the counter-store port (\<^verbatim>\<open>counter.go\<close>) and its in-process
  implementation (\<^verbatim>\<open>memory.go\<close>). The map of the Go store is an association list with distinct
  keys, so that \<^verbatim>\<open>Len\<close> is computable; the mutex makes every operation one step. The clock
  reading and the state of the context are arguments (\<open>now\<close>, \<open>cancelled\<close>). Counter values are
  64-bit and wrap. The locale \<open>counter_port\<close> states what the port promises its clients in terms
  of the count a key has at an instant; the in-process store is shown to provide it.
\<close>

section \<open>64-bit signed arithmetic\<close>

definition wrap64 :: "int \<Rightarrow> int" where
  "wrap64 x = (x + 2 ^ 63) mod 2 ^ 64 - 2 ^ 63"

lemma wrap64_id: "- (2 ^ 63) \<le> x \<Longrightarrow> x < 2 ^ 63 \<Longrightarrow> wrap64 x = x"
  by (simp add: wrap64_def)

lemma wrap64_range: "- (2 ^ 63) \<le> wrap64 x \<and> wrap64 x < 2 ^ 63"
proof -
  have "0 \<le> (x + 2 ^ 63) mod 2 ^ 64" "(x + 2 ^ 63) mod 2 ^ 64 < 2 ^ 64"
    by simp_all
  then show ?thesis by (simp add: wrap64_def)
qed

section \<open>The port\<close>

record Count =
  Value :: int
  TTL :: duration

definition zero_count :: Count where
  "zero_count = \<lparr>Value = 0, TTL = 0\<rparr>"

text \<open>The operations of a store with state \<open>'s\<close>: \<open>cancelled\<close>, \<open>now\<close>, the key and the operation's own arguments.\<close>

record 's Store =
  sIncrement :: "bool \<Rightarrow> time \<Rightarrow> string \<Rightarrow> int \<Rightarrow> duration \<Rightarrow> 's \<Rightarrow> Count result \<times> 's"
  sGet :: "bool \<Rightarrow> time \<Rightarrow> string \<Rightarrow> 's \<Rightarrow> Count result \<times> 's"
  sDelete :: "bool \<Rightarrow> time \<Rightarrow> string \<Rightarrow> 's \<Rightarrow> unit result \<times> 's"

section \<open>The in-process store\<close>

definition sweepInterval :: nat where
  "sweepInterval = 256"

record entry =
  eValue :: int
  eExpiresAt :: time

record MemoryStore =
  entries :: "(string \<times> entry) list"
  ops :: nat

definition NewMemoryStore :: MemoryStore where
  "NewMemoryStore = \<lparr>entries = [], ops = 0\<rparr>"

definition validKey :: "string \<Rightarrow> unit result" where
  "validKey key = (if key = [] then Inl ErrInvalidInput else Inr ())"

definition purgeLocked :: "time \<Rightarrow> MemoryStore \<Rightarrow> MemoryStore" where
  "purgeLocked now s = s\<lparr>entries := filter (\<lambda>(k, e). now < eExpiresAt e) (entries s)\<rparr>"

definition sweepLocked :: "time \<Rightarrow> MemoryStore \<Rightarrow> MemoryStore" where
  "sweepLocked now s =
     (let s1 = s\<lparr>ops := ops s + 1\<rparr> in
      if ops s1 < sweepInterval then s1
      else purgeLocked now (s1\<lparr>ops := 0\<rparr>))"

definition Increment ::
  "bool \<Rightarrow> time \<Rightarrow> string \<Rightarrow> int \<Rightarrow> duration \<Rightarrow> MemoryStore \<Rightarrow> Count result \<times> MemoryStore" where
  "Increment cancelled now key delta ttl s =
     (case validKey key of
        Inl e \<Rightarrow> (Inl e, s)
      | Inr _ \<Rightarrow>
          if delta \<le> 0 then (Inl ErrInvalidInput, s)
          else if ttl \<le> 0 then (Inl ErrInvalidInput, s)
          else if cancelled then (Inl ErrStoreUnavailable, s)
          else
            (let fresh = \<lparr>eValue = 0, eExpiresAt = now + ttl\<rparr>;
                 e0 = (case map_of (entries s) key of
                         None \<Rightarrow> fresh
                       | Some e \<Rightarrow> if \<not> now < eExpiresAt e then fresh else e);
                 e = e0\<lparr>eValue := wrap64 (eValue e0 + delta)\<rparr>;
                 s1 = s\<lparr>entries := AList.update key e (entries s)\<rparr>
             in (Inr \<lparr>Value = eValue e, TTL = eExpiresAt e - now\<rparr>, sweepLocked now s1)))"

definition Get :: "bool \<Rightarrow> time \<Rightarrow> string \<Rightarrow> MemoryStore \<Rightarrow> Count result \<times> MemoryStore" where
  "Get cancelled now key s =
     (case validKey key of
        Inl e \<Rightarrow> (Inl e, s)
      | Inr _ \<Rightarrow>
          if cancelled then (Inl ErrStoreUnavailable, s)
          else
            (case map_of (entries s) key of
               None \<Rightarrow> (Inr zero_count, s)
             | Some e \<Rightarrow>
                 if \<not> now < eExpiresAt e then (Inr zero_count, s)
                 else (Inr \<lparr>Value = eValue e, TTL = eExpiresAt e - now\<rparr>, s)))"

definition Delete :: "bool \<Rightarrow> time \<Rightarrow> string \<Rightarrow> MemoryStore \<Rightarrow> unit result \<times> MemoryStore" where
  "Delete cancelled now key s =
     (case validKey key of
        Inl e \<Rightarrow> (Inl e, s)
      | Inr _ \<Rightarrow>
          if cancelled then (Inl ErrStoreUnavailable, s)
          else (Inr (), sweepLocked now (s\<lparr>entries := AList.delete key (entries s)\<rparr>)))"

definition Len :: "MemoryStore \<Rightarrow> nat" where
  "Len s = length (entries s)"

definition Sweep :: "time \<Rightarrow> MemoryStore \<Rightarrow> nat \<times> MemoryStore" where
  "Sweep now s = (let s1 = purgeLocked now s in (Len s - Len s1, s1))"

definition MemoryStore_ops :: "MemoryStore Store" where
  "MemoryStore_ops = \<lparr>sIncrement = Increment, sGet = Get, sDelete = Delete\<rparr>"

section \<open>What the port promises\<close>

text \<open>
  \<open>count s t k\<close> is the count key \<open>k\<close> has at the instant \<open>t\<close> if nothing touches the store
  between. The laws speak of instants from the operation on: a store may forget what has expired.
  \<open>increment\<close> also fixes the window: the expiry is set when the key is created and is not moved by
  an increment of a live key.
\<close>

locale counter_port =
  fixes S :: "'s Store"
    and invar :: "'s \<Rightarrow> bool"
    and count :: "'s \<Rightarrow> time \<Rightarrow> string \<Rightarrow> Count"
  assumes dead_zero: "TTL (count s t k) \<le> 0 \<Longrightarrow> count s t k = zero_count"
    and ages: "t \<le> u \<Longrightarrow> count s u k =
        (if u - t < TTL (count s t k)
         then \<lparr>Value = Value (count s t k), TTL = TTL (count s t k) - (u - t)\<rparr> else zero_count)"
    and get: "invar s \<Longrightarrow> k \<noteq> [] \<Longrightarrow> sGet S False t k s = (Inr (count s t k), s)"
    and increment: "invar s \<Longrightarrow> k \<noteq> [] \<Longrightarrow> 0 < d \<Longrightarrow> 0 < ttl \<Longrightarrow>
        \<exists>c s'. sIncrement S False t k d ttl s = (Inr c, s') \<and> invar s' \<and>
          Value c = wrap64 (Value (count s t k) + d) \<and>
          TTL c = (if TTL (count s t k) \<le> 0 then ttl else TTL (count s t k)) \<and>
          count s' t k = c \<and>
          (\<forall>u k'. t \<le> u \<longrightarrow> k' \<noteq> k \<longrightarrow> count s' u k' = count s u k')"
    and delete: "invar s \<Longrightarrow> k \<noteq> [] \<Longrightarrow>
        \<exists>s'. sDelete S False t k s = (Inr (), s') \<and> invar s' \<and> count s' t k = zero_count \<and>
          (\<forall>u k'. t \<le> u \<longrightarrow> k' \<noteq> k \<longrightarrow> count s' u k' = count s u k')"
    and down: "k \<noteq> [] \<Longrightarrow> sGet S True t k s = (Inl ErrStoreUnavailable, s)"
begin

lemma count_later:
  assumes "t \<le> u" and "u - t < TTL (count s t k)"
  shows "count s u k = \<lparr>Value = Value (count s t k), TTL = TTL (count s t k) - (u - t)\<rparr>"
  using ages [OF assms(1), of s k] assms by simp

lemma count_expired:
  assumes "t \<le> u" and "TTL (count s t k) \<le> u - t"
  shows "count s u k = zero_count"
  using ages [OF assms(1), of s k] assms by simp

end

section \<open>The in-process store provides the port\<close>

definition mem_invar :: "MemoryStore \<Rightarrow> bool" where
  "mem_invar s \<longleftrightarrow> distinct (map fst (entries s)) \<and> ops s < sweepInterval"

definition mem_count :: "MemoryStore \<Rightarrow> time \<Rightarrow> string \<Rightarrow> Count" where
  "mem_count s t k =
     (case map_of (entries s) k of
        None \<Rightarrow> zero_count
      | Some e \<Rightarrow> if t < eExpiresAt e then \<lparr>Value = eValue e, TTL = eExpiresAt e - t\<rparr> else zero_count)"

lemma map_of_filter_live:
  "distinct (map fst xs) \<Longrightarrow>
     map_of (filter (\<lambda>(k, e). P e) xs) k =
       (case map_of xs k of None \<Rightarrow> None | Some e \<Rightarrow> if P e then Some e else None)"
  by (induction xs) (auto split: option.splits simp: map_of_eq_None_iff weak_map_of_SomeI
      dest: map_of_SomeD)

lemma distinct_fst_filter: "distinct (map fst xs) \<Longrightarrow> distinct (map fst (filter P xs))"
  by (induction xs) auto

lemma purgeLocked_count:
  "mem_invar s \<Longrightarrow> now \<le> u \<Longrightarrow> mem_count (purgeLocked now s) u k = mem_count s u k"
  by (auto simp: mem_count_def purgeLocked_def mem_invar_def map_of_filter_live split: option.splits)

lemma sweepLocked_invar: "mem_invar s \<Longrightarrow> mem_invar (sweepLocked now s)"
  by (auto simp: sweepLocked_def Let_def mem_invar_def purgeLocked_def sweepInterval_def
      distinct_fst_filter)

lemma sweepLocked_count:
  "mem_invar s \<Longrightarrow> now \<le> u \<Longrightarrow> mem_count (sweepLocked now s) u k = mem_count s u k"
  by (auto simp: sweepLocked_def Let_def mem_count_def purgeLocked_def mem_invar_def
      map_of_filter_live split: option.splits)

lemma mem_invar_update: "mem_invar s \<Longrightarrow> mem_invar (s\<lparr>entries := AList.update k e (entries s)\<rparr>)"
  by (simp add: mem_invar_def distinct_update)

lemma mem_invar_delete: "mem_invar s \<Longrightarrow> mem_invar (s\<lparr>entries := AList.delete k (entries s)\<rparr>)"
  by (simp add: mem_invar_def distinct_delete)

lemma mem_increment:
  assumes "mem_invar s" "k \<noteq> []" "0 < d" "0 < ttl"
  shows "\<exists>c s'. Increment False t k d ttl s = (Inr c, s') \<and> mem_invar s' \<and>
      Value c = wrap64 (Value (mem_count s t k) + d) \<and>
      TTL c = (if TTL (mem_count s t k) \<le> 0 then ttl else TTL (mem_count s t k)) \<and>
      mem_count s' t k = c \<and>
      (\<forall>u k'. t \<le> u \<longrightarrow> k' \<noteq> k \<longrightarrow> mem_count s' u k' = mem_count s u k')"
proof -
  define e0 where "e0 = (case map_of (entries s) k of
      None \<Rightarrow> \<lparr>eValue = 0, eExpiresAt = t + ttl\<rparr>
    | Some e \<Rightarrow> if \<not> t < eExpiresAt e then \<lparr>eValue = 0, eExpiresAt = t + ttl\<rparr> else e)"
  define e where "e = e0\<lparr>eValue := wrap64 (eValue e0 + d)\<rparr>"
  define s1 where "s1 = s\<lparr>entries := AList.update k e (entries s)\<rparr>"
  have inv1: "mem_invar s1" unfolding s1_def using assms(1) by (rule mem_invar_update)
  have live: "t < eExpiresAt e" unfolding e_def e0_def using assms(4) by (auto split: option.splits)
  have run: "Increment False t k d ttl s
      = (Inr \<lparr>Value = eValue e, TTL = eExpiresAt e - t\<rparr>, sweepLocked t s1)"
    using assms by (simp add: Increment_def validKey_def Let_def e_def e0_def s1_def)
  have "eValue e = wrap64 (Value (mem_count s t k) + d)"
    by (simp add: e_def e0_def mem_count_def zero_count_def split: option.splits)
  moreover have "eExpiresAt e - t = (if TTL (mem_count s t k) \<le> 0 then ttl else TTL (mem_count s t k))"
    by (simp add: e_def e0_def mem_count_def zero_count_def split: option.splits)
  moreover have "mem_count (sweepLocked t s1) t k = \<lparr>Value = eValue e, TTL = eExpiresAt e - t\<rparr>"
    using live by (subst sweepLocked_count [OF inv1]) (simp_all add: mem_count_def s1_def update_conv')
  moreover have "mem_count (sweepLocked t s1) u k' = mem_count s u k'" if "t \<le> u" "k' \<noteq> k" for u k'
    using that by (subst sweepLocked_count [OF inv1]) (simp_all add: mem_count_def s1_def update_conv')
  ultimately show ?thesis using run sweepLocked_invar [OF inv1] by auto
qed

lemma mem_delete:
  assumes "mem_invar s" "k \<noteq> []"
  shows "\<exists>s'. Delete False t k s = (Inr (), s') \<and> mem_invar s' \<and> mem_count s' t k = zero_count \<and>
      (\<forall>u k'. t \<le> u \<longrightarrow> k' \<noteq> k \<longrightarrow> mem_count s' u k' = mem_count s u k')"
proof -
  define s1 where "s1 = s\<lparr>entries := AList.delete k (entries s)\<rparr>"
  have inv1: "mem_invar s1" unfolding s1_def using assms(1) by (rule mem_invar_delete)
  have "Delete False t k s = (Inr (), sweepLocked t s1)"
    using assms(2) by (simp add: Delete_def validKey_def s1_def)
  moreover have "mem_count (sweepLocked t s1) t k = zero_count"
    by (subst sweepLocked_count [OF inv1]) (simp_all add: mem_count_def s1_def delete_conv')
  moreover have "mem_count (sweepLocked t s1) u k' = mem_count s u k'" if "t \<le> u" "k' \<noteq> k" for u k'
    using that by (subst sweepLocked_count [OF inv1]) (simp_all add: mem_count_def s1_def delete_conv')
  ultimately show ?thesis using sweepLocked_invar [OF inv1] by auto
qed

interpretation mem: counter_port MemoryStore_ops mem_invar mem_count
proof unfold_locales
  fix s t and k :: string
  assume "mem_invar s" "k \<noteq> []"
  then show "sGet MemoryStore_ops False t k s = (Inr (mem_count s t k), s)"
    by (simp add: MemoryStore_ops_def Get_def validKey_def mem_count_def split: option.splits)
next
  fix s t and d ttl :: int and k :: string
  assume "mem_invar s" "k \<noteq> []" "0 < d" "0 < ttl"
  then show "\<exists>c s'. sIncrement MemoryStore_ops False t k d ttl s = (Inr c, s') \<and> mem_invar s' \<and>
      Value c = wrap64 (Value (mem_count s t k) + d) \<and>
      TTL c = (if TTL (mem_count s t k) \<le> 0 then ttl else TTL (mem_count s t k)) \<and>
      mem_count s' t k = c \<and>
      (\<forall>u k'. t \<le> u \<longrightarrow> k' \<noteq> k \<longrightarrow> mem_count s' u k' = mem_count s u k')"
    unfolding MemoryStore_ops_def Store.select_convs by (rule mem_increment)
next
  fix s t and k :: string
  assume "mem_invar s" "k \<noteq> []"
  then show "\<exists>s'. sDelete MemoryStore_ops False t k s = (Inr (), s') \<and> mem_invar s' \<and>
      mem_count s' t k = zero_count \<and>
      (\<forall>u k'. t \<le> u \<longrightarrow> k' \<noteq> k \<longrightarrow> mem_count s' u k' = mem_count s u k')"
    unfolding MemoryStore_ops_def Store.select_convs by (rule mem_delete)
qed (auto simp: mem_count_def zero_count_def MemoryStore_ops_def Get_def validKey_def
    split: option.splits if_splits)

lemma mem_invar_new: "mem_invar NewMemoryStore"
  by (simp add: mem_invar_def NewMemoryStore_def sweepInterval_def)

end
