(* ===== verification/Go_Strings.thy ===== *)
theory Go_Strings
  imports Prelude
begin

text \<open>
  The routines of Go's \<^verbatim>\<open>strings\<close> and \<^verbatim>\<open>bytes\<close> packages that the program calls, on byte
  sequences. Where a routine takes a set of characters, every call in the program passes
  ASCII characters, so membership is a test on single bytes.
\<close>

abbreviation nl :: char where "nl \<equiv> CHR 0x0A"
abbreviation cr :: char where "cr \<equiv> CHR 0x0D"
abbreviation tab :: char where "tab \<equiv> CHR 0x09"
abbreviation spc :: char where "spc \<equiv> CHR 0x20"
abbreviation nul :: char where "nul \<equiv> CHR 0x00"

definition byte :: "char \<Rightarrow> nat" where
  "byte c = of_char c"

definition HasPrefix :: "string \<Rightarrow> string \<Rightarrow> bool" where
  "HasPrefix s p \<longleftrightarrow> take (length p) s = p"

definition HasSuffix :: "string \<Rightarrow> string \<Rightarrow> bool" where
  "HasSuffix s p \<longleftrightarrow> length p \<le> length s \<and> drop (length s - length p) s = p"

definition CutPrefix :: "string \<Rightarrow> string \<Rightarrow> string option" where
  "CutPrefix s p = (if HasPrefix s p then Some (drop (length p) s) else None)"

definition TrimSuffix :: "string \<Rightarrow> string \<Rightarrow> string" where
  "TrimSuffix s p = (if HasSuffix s p then take (length s - length p) s else s)"

text \<open>\<^verbatim>\<open>strings.Cut\<close> with a one-byte separator: what precedes the first separator and what follows it.\<close>

definition Cut :: "string \<Rightarrow> char \<Rightarrow> (string \<times> string) option" where
  "Cut s c =
     (if c \<in> set s then Some (takeWhile (\<lambda>x. x \<noteq> c) s, tl (dropWhile (\<lambda>x. x \<noteq> c) s)) else None)"

definition TrimLeft :: "string \<Rightarrow> string \<Rightarrow> string" where
  "TrimLeft s cutset = dropWhile (\<lambda>c. c \<in> set cutset) s"

definition TrimRight :: "string \<Rightarrow> string \<Rightarrow> string" where
  "TrimRight s cutset = rev (dropWhile (\<lambda>c. c \<in> set cutset) (rev s))"

definition Trim :: "string \<Rightarrow> string \<Rightarrow> string" where
  "Trim s cutset = TrimRight (TrimLeft s cutset) cutset"

definition ContainsAny :: "string \<Rightarrow> string \<Rightarrow> bool" where
  "ContainsAny s chars \<longleftrightarrow> (\<exists>c \<in> set s. c \<in> set chars)"

text \<open>
  \<^verbatim>\<open>TrimSpace\<close> removes the Unicode white space of \<^verbatim>\<open>unicode.IsSpace\<close> at both ends. The
  UTF-8 encodings of those code points are listed; none is a proper prefix or suffix of another,
  so stripping encodings byte-wise is stripping code points.
\<close>

definition space_encodings :: "string list" where
  "space_encodings =
     [[CHR 0x09], [CHR 0x0A], [CHR 0x0B], [CHR 0x0C], [CHR 0x0D], [CHR 0x20],
      [CHR 0xC2, CHR 0x85], [CHR 0xC2, CHR 0xA0], [CHR 0xE1, CHR 0x9A, CHR 0x80],
      [CHR 0xE2, CHR 0x80, CHR 0x80], [CHR 0xE2, CHR 0x80, CHR 0x81],
      [CHR 0xE2, CHR 0x80, CHR 0x82], [CHR 0xE2, CHR 0x80, CHR 0x83],
      [CHR 0xE2, CHR 0x80, CHR 0x84], [CHR 0xE2, CHR 0x80, CHR 0x85],
      [CHR 0xE2, CHR 0x80, CHR 0x86], [CHR 0xE2, CHR 0x80, CHR 0x87],
      [CHR 0xE2, CHR 0x80, CHR 0x88], [CHR 0xE2, CHR 0x80, CHR 0x89],
      [CHR 0xE2, CHR 0x80, CHR 0x8A], [CHR 0xE2, CHR 0x80, CHR 0xA8],
      [CHR 0xE2, CHR 0x80, CHR 0xA9], [CHR 0xE2, CHR 0x80, CHR 0xAF],
      [CHR 0xE2, CHR 0x81, CHR 0x9F], [CHR 0xE3, CHR 0x80, CHR 0x80]]"

definition leading_space :: "string list \<Rightarrow> string \<Rightarrow> nat" where
  "leading_space encs s = (case find (\<lambda>e. HasPrefix s e) encs of None \<Rightarrow> 0 | Some e \<Rightarrow> length e)"

function strip_leading :: "string list \<Rightarrow> string \<Rightarrow> string" where
  "strip_leading encs s =
     (if s \<noteq> [] \<and> 0 < leading_space encs s then strip_leading encs (drop (leading_space encs s) s)
      else s)"
  by pat_completeness auto
termination
  by (relation "measure (\<lambda>(encs, s). length s)") auto

declare strip_leading.simps [simp del]

lemma strip_leading_code [code]:
  "strip_leading encs [] = []"
  "strip_leading encs (c # cs) =
     (case leading_space encs (c # cs) of 0 \<Rightarrow> c # cs | Suc n \<Rightarrow> strip_leading encs (drop n cs))"
  by (simp_all add: strip_leading.simps [of encs "[]"] strip_leading.simps [of encs "c # cs"]
      split: nat.split)

definition TrimSpace :: "string \<Rightarrow> string" where
  "TrimSpace s =
     rev (strip_leading (map rev space_encodings) (rev (strip_leading space_encodings s)))"

lemmas go_string_defs [go_string] =
  HasPrefix_def HasSuffix_def CutPrefix_def TrimSuffix_def Cut_def TrimLeft_def TrimRight_def
  Trim_def ContainsAny_def

section \<open>What a trimmed string is made of\<close>

lemma set_dropWhile_subset: "set (dropWhile P xs) \<subseteq> set xs"
  by (auto dest: set_dropWhileD)

lemma set_strip_leading: "set (strip_leading encs s) \<subseteq> set s"
proof (induction encs s rule: strip_leading.induct)
  case (1 encs s)
  show ?case
  proof (cases "s \<noteq> [] \<and> 0 < leading_space encs s")
    case True
    with "1" have "set (strip_leading encs (drop (leading_space encs s) s))
        \<subseteq> set (drop (leading_space encs s) s)" by blast
    also have "\<dots> \<subseteq> set s" by (rule set_drop_subset)
    finally show ?thesis using True by (simp add: strip_leading.simps [of encs s])
  next
    case False
    then show ?thesis by (auto simp add: strip_leading.simps [of encs s])
  qed
qed

lemma set_TrimSpace: "set (TrimSpace s) \<subseteq> set s"
proof -
  have "set (TrimSpace s) \<subseteq> set (strip_leading space_encodings s)"
    unfolding TrimSpace_def using set_strip_leading [of "map rev space_encodings"] by fastforce
  then show ?thesis using set_strip_leading by blast
qed

lemma find_SomeD: "find P xs = Some x \<Longrightarrow> x \<in> set xs \<and> P x"
  by (auto simp: find_Some_iff)

lemma leading_space_0: "\<forall>e \<in> set encs. \<not> HasPrefix s e \<Longrightarrow> leading_space encs s = 0"
  by (auto simp: leading_space_def dest: find_SomeD split: option.splits)

lemma leading_space_prefix:
  "0 < leading_space encs s \<Longrightarrow> take (leading_space encs s) s \<in> set encs"
  by (cases "find (\<lambda>e. HasPrefix s e) encs") (auto simp: leading_space_def HasPrefix_def dest!: find_SomeD)

lemma strip_leading_keeps:
  "c \<in> set s \<Longrightarrow> \<forall>e \<in> set encs. c \<notin> set e \<Longrightarrow> c \<in> set (strip_leading encs s)"
proof (induction encs s rule: strip_leading.induct)
  case (1 encs s)
  show ?case
  proof (cases "s \<noteq> [] \<and> 0 < leading_space encs s")
    case True
    then have "c \<notin> set (take (leading_space encs s) s)"
      using leading_space_prefix [of encs s] "1.prems"(2) by blast
    then have "c \<in> set (drop (leading_space encs s) s)"
      using "1.prems"(1) by (metis Un_iff append_take_drop_id set_append)
    with "1.IH" True "1.prems"(2) show ?thesis by (simp add: strip_leading.simps [of encs s])
  next
    case False
    then show ?thesis using "1.prems" by (auto simp add: strip_leading.simps [of encs s])
  qed
qed

lemma strip_leading_suffix: "\<exists>p. s = p @ strip_leading encs s"
proof (induction encs s rule: strip_leading.induct)
  case (1 encs s)
  show ?case
  proof (cases "s \<noteq> [] \<and> 0 < leading_space encs s")
    case True
    with "1" obtain p where "drop (leading_space encs s) s
        = p @ strip_leading encs (drop (leading_space encs s) s)" by blast
    then have "s = (take (leading_space encs s) s @ p) @ strip_leading encs (drop (leading_space encs s) s)"
      by (metis append_assoc append_take_drop_id)
    with True show ?thesis by (metis strip_leading.simps)
  next
    case False
    then show ?thesis by (auto simp add: strip_leading.simps [of encs s])
  qed
qed

lemma strip_leading_fixed: "s = [] \<or> leading_space encs s = 0 \<Longrightarrow> strip_leading encs s = s"
  by (auto simp: strip_leading.simps [of encs s])

lemma strip_leading_done: "strip_leading encs s = [] \<or> leading_space encs (strip_leading encs s) = 0"
proof (induction encs s rule: strip_leading.induct)
  case (1 encs s)
  then show ?case by (cases "s \<noteq> [] \<and> 0 < leading_space encs s")
      (auto simp add: strip_leading.simps [of encs s])
qed

lemma leading_space_append: "leading_space encs (u @ v) = 0 \<Longrightarrow> [] \<notin> set encs \<Longrightarrow> leading_space encs u = 0"
proof -
  assume a: "leading_space encs (u @ v) = 0" "[] \<notin> set encs"
  have "\<not> HasPrefix u e" if e: "e \<in> set encs" for e
  proof
    assume "HasPrefix u e"
    then have "HasPrefix (u @ v) e"
      by (auto simp: HasPrefix_def) (metis append.right_neutral append_take_drop_id le_eq_less_or_eq length_take
          min.absorb2 nat_le_linear take_all take_append)
    then obtain e' where "find (\<lambda>e. HasPrefix (u @ v) e) encs = Some e'"
      using e by (metis (mono_tags, lifting) find_None_iff option.exhaust)
    moreover from this have "e' \<in> set encs" by (auto simp: find_Some_iff)
    ultimately show False using a by (auto simp: leading_space_def)
  qed
  then show ?thesis by (intro leading_space_0) blast
qed

lemma TrimSpace_idem [simp]: "TrimSpace (TrimSpace s) = TrimSpace s"
proof -
  let ?L = space_encodings and ?R = "map rev space_encodings"
  define t where "t = strip_leading ?L s"
  define u where "u = strip_leading ?R (rev t)"
  obtain p where "rev t = p @ u" using strip_leading_suffix [of "rev t" ?R] u_def by auto
  then have t: "t = rev u @ rev p" by (metis rev_append rev_rev_ident)
  have ne: "[] \<notin> set ?L" "[] \<notin> set ?R" by (auto simp: space_encodings_def)
  have "rev u = [] \<or> leading_space ?L (rev u) = 0"
    using strip_leading_done [of ?L s] t leading_space_append [OF _ ne(1), of "rev u" "rev p"] t_def by auto
  then have "strip_leading ?L (rev u) = rev u" by (rule strip_leading_fixed)
  moreover have "strip_leading ?R u = u"
    unfolding u_def using strip_leading_done by (rule strip_leading_fixed)
  ultimately show ?thesis by (simp add: TrimSpace_def t_def u_def)
qed

lemma TrimSpace_nonempty:
  assumes "c \<in> set s" and "\<forall>e \<in> set space_encodings. c \<notin> set e"
  shows "TrimSpace s \<noteq> []"
proof -
  have "c \<in> set (strip_leading space_encodings s)" using strip_leading_keeps [OF assms] .
  then have "c \<in> set (TrimSpace s)"
    unfolding TrimSpace_def using assms(2) by (auto intro!: strip_leading_keeps)
  then show ?thesis by auto
qed

lemma set_Trim: "set (Trim s cs) \<subseteq> set s"
  unfolding Trim_def TrimLeft_def TrimRight_def by (auto dest!: set_dropWhileD)

section \<open>Prefixes and separators\<close>

lemma CutPrefix_append [simp]: "CutPrefix (p @ s) p = Some s"
  by (simp add: CutPrefix_def HasPrefix_def)

lemma CutPrefix_Some: "CutPrefix s p = Some t \<longleftrightarrow> s = p @ t"
  by (auto simp: CutPrefix_def HasPrefix_def split: if_splits) (metis append_take_drop_id)

lemma Cut_append [simp]: "c \<notin> set a \<Longrightarrow> Cut (a @ c # b) c = Some (a, b)"
  by (simp add: Cut_def)

lemma Cut_Some: "Cut s c = Some (a, b) \<longleftrightarrow> s = a @ c # b \<and> c \<notin> set a"
proof
  assume cut: "Cut s c = Some (a, b)"
  then have "c \<in> set s" and ab: "a = takeWhile (\<lambda>x. x \<noteq> c) s" "b = tl (dropWhile (\<lambda>x. x \<noteq> c) s)"
    by (auto simp: Cut_def split: if_splits)
  then show "s = a @ c # b \<and> c \<notin> set a"
    using dropWhile_takeWhile_split [of c s] by (auto dest: set_takeWhileD)
qed auto

lemma HasSuffix_append [simp]: "HasSuffix (s @ p) p"
  by (simp add: HasSuffix_def)

lemma HasSuffix_iff: "HasSuffix s p \<longleftrightarrow> (\<exists>t. s = t @ p)"
  by (auto simp: HasSuffix_def) (metis append_take_drop_id)

lemma TrimSuffix_append [simp]: "TrimSuffix (s @ p) p = s"
  by (simp add: TrimSuffix_def)

section \<open>Searching and splitting\<close>

fun contains_run :: "'a list \<Rightarrow> 'a list \<Rightarrow> bool" where
  "contains_run [] m \<longleftrightarrow> m = []"
| "contains_run (r # rs) m \<longleftrightarrow> take (length m) (r # rs) = m \<or> contains_run rs m"

lemma contains_run_iff: "contains_run xs m \<longleftrightarrow> (\<exists>ys zs. xs = ys @ m @ zs)"
proof (induction xs)
  case Nil
  then show ?case by simp
next
  case (Cons x xs)
  have "take (length m) (x # xs) = m \<longleftrightarrow> (\<exists>zs. x # xs = m @ zs)" by (metis append_eq_conv_conj append_take_drop_id)
  moreover have "(\<exists>ys zs. x # xs = ys @ m @ zs) \<longleftrightarrow> (\<exists>zs. x # xs = m @ zs) \<or> (\<exists>ys zs. xs = ys @ m @ zs)"
    by (metis append_Cons append_Nil neq_Nil_conv list.inject)
  ultimately show ?case using Cons by simp
qed

lemma contains_run_append: "contains_run xs m \<or> contains_run ys m \<Longrightarrow> contains_run (xs @ ys) m"
  by (auto simp: contains_run_iff) (metis append_assoc)+

definition Contains :: "string \<Rightarrow> string \<Rightarrow> bool" where
  "Contains s sub \<longleftrightarrow> contains_run s sub"

text \<open>\<^verbatim>\<open>strings.Split\<close> by one character.\<close>

fun Split :: "string \<Rightarrow> char \<Rightarrow> string list" where
  "Split [] c = [[]]"
| "Split (x # xs) c =
     (if x = c then [] # Split xs c
      else (case Split xs c of [] \<Rightarrow> [[x]] | p # ps \<Rightarrow> (x # p) # ps))"

lemma Split_Cut: "Split s c = (case Cut s c of None \<Rightarrow> [s] | Some (a, b) \<Rightarrow> a # Split b c)"
proof (induction s)
  case Nil
  then show ?case by (simp add: Cut_def)
next
  case (Cons x s)
  then show ?case by (cases "x = c") (auto simp: Cut_def split: option.splits)
qed

lemma TrimRight_one: "\<exists>n. s = TrimRight s [c] @ replicate n c"
proof (induction s rule: rev_induct)
  case Nil
  then show ?case by (simp add: TrimRight_def)
next
  case (snoc x s)
  show ?case
  proof (cases "x = c")
    case True
    obtain n where "s = TrimRight s [c] @ replicate n c" using snoc by blast
    moreover have "TrimRight (s @ [x]) [c] = TrimRight s [c]" using True by (simp add: TrimRight_def)
    ultimately have "s @ [x] = TrimRight (s @ [x]) [c] @ replicate (Suc n) c"
      using True by (metis append_assoc replicate_append_same replicate_Suc)
    then show ?thesis by blast
  next
    case False
    then have "s @ [x] = TrimRight (s @ [x]) [c] @ replicate 0 c" by (simp add: TrimRight_def)
    then show ?thesis by blast
  qed
qed

section \<open>Code equations\<close>

lemma HasPrefix_code [code]:
  "HasPrefix s [] = True" "HasPrefix [] (p # ps) = False"
  "HasPrefix (c # s) (p # ps) = (c = p \<and> HasPrefix s ps)"
  by (auto simp: HasPrefix_def)

lemma HasPrefix_iff: "HasPrefix s p \<longleftrightarrow> (\<exists>t. s = p @ t)"
  by (auto simp: HasPrefix_def) (metis append_take_drop_id)

lemma HasSuffix_code [code]: "HasSuffix s p = HasPrefix (rev s) (rev p)"
proof -
  have "(\<exists>t. s = t @ p) \<longleftrightarrow> (\<exists>t. rev s = rev p @ t)" by (metis rev_append rev_rev_ident)
  then show ?thesis by (simp add: HasSuffix_iff HasPrefix_iff)
qed

lemma TrimSuffix_code [code]:
  "TrimSuffix s p = (if HasSuffix s p then rev (drop (length p) (rev s)) else s)"
  by (auto simp: TrimSuffix_def rev_drop)

end
