(* ===== verification/Rate_Limit.thy ===== *)
theory Rate_Limit
  imports Counter Go_Strings
begin

text \<open>
  \<^verbatim>\<open>internal/ratelimit\<close>: the request limiter (\<^verbatim>\<open>ratelimit.go\<close>), the failure limiter with
  exponential backoff (\<^verbatim>\<open>backoff.go\<close>) and the shipped tiers (\<^verbatim>\<open>defaults.go\<close>). Both limiters are
  clients of the counter port: the store's operations are an argument, their lemmas are proved
  from the port's laws inside \<open>counter_port\<close>. What the failure limiter promises is stated without
  a store, as the \<open>standing\<close> of a key. A decision comes with the error the Go function
  returns beside it.
\<close>

section \<open>Tiers and decisions\<close>

record Tier =
  tLimit :: int
  tWindow :: duration
  tFailOpen :: bool

definition Tier_validate :: "Tier \<Rightarrow> unit result" where
  "Tier_validate t =
     (if tLimit t \<le> 0 then Inl ErrInvalidInput
      else if tWindow t \<le> 0 then Inl ErrInvalidInput
      else Inr ())"

record Decision =
  Allowed :: bool
  RetryAfter :: duration
  dCount :: int
  dLimit :: int

text \<open>Go's integer division truncates towards zero.\<close>

definition tdiv :: "int \<Rightarrow> int \<Rightarrow> int" where
  "tdiv a b = sgn a * sgn b * (\<bar>a\<bar> div \<bar>b\<bar>)"

definition RetryAfterSeconds :: "Decision \<Rightarrow> int" where
  "RetryAfterSeconds d =
     (if RetryAfter d \<le> 0 then 1
      else tdiv (wrap64 (RetryAfter d + second - 1)) second)"

section \<open>The request limiter\<close>

record Limiter =
  lTier :: Tier
  lName :: string

definition NewLimiter :: "string \<Rightarrow> Tier \<Rightarrow> Limiter result" where
  "NewLimiter name tier =
     (if name = [] then Inl ErrInvalidInput
      else (case Tier_validate tier of
              Inl e \<Rightarrow> Inl e
            | Inr _ \<Rightarrow> Inr \<lparr>lTier = tier, lName = name\<rparr>))"

definition Limiter_key :: "Limiter \<Rightarrow> string \<Rightarrow> string" where
  "Limiter_key l k = ''rl:'' @ lName l @ '':'' @ k"

definition storeFailure :: "Limiter \<Rightarrow> Decision" where
  "storeFailure l =
     (if tFailOpen (lTier l)
      then \<lparr>Allowed = True, RetryAfter = 0, dCount = 0, dLimit = tLimit (lTier l)\<rparr>
      else \<lparr>Allowed = False, RetryAfter = tWindow (lTier l), dCount = 0, dLimit = tLimit (lTier l)\<rparr>)"

definition Allow ::
  "'s Store \<Rightarrow> Limiter \<Rightarrow> bool \<Rightarrow> time \<Rightarrow> string \<Rightarrow> 's \<Rightarrow> (Decision \<times> err option) \<times> 's" where
  "Allow S l cancelled now key s =
     (if key = [] then
        ((\<lparr>Allowed = False, RetryAfter = tWindow (lTier l), dCount = 0, dLimit = tLimit (lTier l)\<rparr>,
          Some ErrInvalidInput), s)
      else
        (case sIncrement S cancelled now (Limiter_key l key) 1 (tWindow (lTier l)) s of
           (Inl e, s') \<Rightarrow> ((storeFailure l, Some e), s')
         | (Inr c, s') \<Rightarrow>
             if tLimit (lTier l) < Value c then
               ((\<lparr>Allowed = False, RetryAfter = TTL c, dCount = Value c, dLimit = tLimit (lTier l)\<rparr>,
                 None), s')
             else
               ((\<lparr>Allowed = True, RetryAfter = 0, dCount = Value c, dLimit = tLimit (lTier l)\<rparr>,
                 None), s')))"

definition Reset :: "'s Store \<Rightarrow> Limiter \<Rightarrow> bool \<Rightarrow> time \<Rightarrow> string \<Rightarrow> 's \<Rightarrow> unit result \<times> 's" where
  "Reset S l cancelled now key s =
     (if key = [] then (Inl ErrInvalidInput, s)
      else sDelete S cancelled now (Limiter_key l key) s)"

section \<open>The failure limiter\<close>

record AuthTier =
  aLimit :: int
  aWindow :: duration
  aHorizon :: duration
  aCap :: duration

definition AuthTier_validate :: "AuthTier \<Rightarrow> unit result" where
  "AuthTier_validate t =
     (if aLimit t \<le> 0 then Inl ErrInvalidInput
      else if aWindow t \<le> 0 then Inl ErrInvalidInput
      else if aHorizon t \<le> 0 then Inl ErrInvalidInput
      else if aCap t \<le> 0 then Inl ErrInvalidInput
      else if aHorizon t \<le> aCap t then Inl ErrInvalidInput
      else Inr ())"

definition maxShift :: int where
  "maxShift = 62"

definition lockout :: "AuthTier \<Rightarrow> int \<Rightarrow> duration" where
  "lockout t n =
     (if n \<le> aLimit t then 0
      else
        (let shift = n - aLimit t - 1 in
         if maxShift < shift then aCap t
         else
           (let d = wrap64 (aWindow t * 2 ^ nat shift) in
            if d \<le> 0 \<or> aCap t < d then aCap t else d)))"

record AuthLimiter =
  alTier :: AuthTier
  alName :: string

definition NewAuthLimiter :: "string \<Rightarrow> AuthTier \<Rightarrow> AuthLimiter result" where
  "NewAuthLimiter name tier =
     (if name = [] then Inl ErrInvalidInput
      else (case AuthTier_validate tier of
              Inl e \<Rightarrow> Inl e
            | Inr _ \<Rightarrow> Inr \<lparr>alTier = tier, alName = name\<rparr>))"

text \<open>\<^verbatim>\<open>strconv.FormatInt\<close> in base ten.\<close>

fun utoa :: "nat \<Rightarrow> string" where
  "utoa n = (if n < 10 then [char_of (48 + n)] else utoa (n div 10) @ [char_of (48 + n mod 10)])"

declare utoa.simps [simp del]

definition FormatInt :: "int \<Rightarrow> string" where
  "FormatInt i = (if i < 0 then CHR ''-'' # utoa (nat (- i)) else utoa (nat i))"

definition failKey :: "AuthLimiter \<Rightarrow> string \<Rightarrow> string" where
  "failKey a k = ''rl:'' @ alName a @ '':f:'' @ k"

definition lockKey :: "AuthLimiter \<Rightarrow> string \<Rightarrow> int \<Rightarrow> string" where
  "lockKey a k level = ''rl:'' @ alName a @ '':l'' @ FormatInt level @ '':'' @ k"

text \<open>The decision of every branch that refuses without a count.\<close>

definition refuse :: "AuthLimiter \<Rightarrow> duration \<Rightarrow> Decision" where
  "refuse a d = \<lparr>Allowed = False, RetryAfter = d, dCount = 0, dLimit = aLimit (alTier a)\<rparr>"

definition Check ::
  "'s Store \<Rightarrow> AuthLimiter \<Rightarrow> bool \<Rightarrow> time \<Rightarrow> string \<Rightarrow> 's \<Rightarrow> (Decision \<times> err option) \<times> 's" where
  "Check S a cancelled now key s =
     (if key = [] then ((refuse a (aWindow (alTier a)), Some ErrInvalidInput), s)
      else
        (case sGet S cancelled now (failKey a key) s of
           (Inl e, s1) \<Rightarrow> ((refuse a (aWindow (alTier a)), Some e), s1)
         | (Inr failures, s1) \<Rightarrow>
             if Value failures \<le> aLimit (alTier a) then
               ((\<lparr>Allowed = True, RetryAfter = 0, dCount = Value failures,
                  dLimit = aLimit (alTier a)\<rparr>, None), s1)
             else
               (case sGet S cancelled now (lockKey a key (Value failures)) s1 of
                  (Inl e, s2) \<Rightarrow> ((refuse a (aWindow (alTier a)), Some e), s2)
                | (Inr lock, s2) \<Rightarrow>
                    if Value lock = 0 then
                      ((\<lparr>Allowed = True, RetryAfter = 0, dCount = Value failures,
                         dLimit = aLimit (alTier a)\<rparr>, None), s2)
                    else
                      ((\<lparr>Allowed = False, RetryAfter = TTL lock, dCount = Value failures,
                         dLimit = aLimit (alTier a)\<rparr>, None), s2))))"

definition RecordFailure ::
  "'s Store \<Rightarrow> AuthLimiter \<Rightarrow> bool \<Rightarrow> time \<Rightarrow> string \<Rightarrow> 's \<Rightarrow> (Decision \<times> err option) \<times> 's" where
  "RecordFailure S a cancelled now key s =
     (if key = [] then ((refuse a (aWindow (alTier a)), Some ErrInvalidInput), s)
      else
        (case sIncrement S cancelled now (failKey a key) 1 (aHorizon (alTier a)) s of
           (Inl e, s1) \<Rightarrow> ((refuse a (aWindow (alTier a)), Some e), s1)
         | (Inr failures, s1) \<Rightarrow>
             (let lk = lockout (alTier a) (Value failures) in
              if lk = 0 then
                ((\<lparr>Allowed = True, RetryAfter = 0, dCount = Value failures,
                   dLimit = aLimit (alTier a)\<rparr>, None), s1)
              else
                (case sIncrement S cancelled now (lockKey a key (Value failures)) 1 lk s1 of
                   (Inl e, s2) \<Rightarrow> ((refuse a lk, Some e), s2)
                 | (Inr lock, s2) \<Rightarrow>
                     ((\<lparr>Allowed = False, RetryAfter = TTL lock, dCount = Value failures,
                        dLimit = aLimit (alTier a)\<rparr>, None), s2)))))"

definition RecordSuccess ::
  "'s Store \<Rightarrow> AuthLimiter \<Rightarrow> bool \<Rightarrow> time \<Rightarrow> string \<Rightarrow> 's \<Rightarrow> unit result \<times> 's" where
  "RecordSuccess S a cancelled now key s =
     (if key = [] then (Inl ErrInvalidInput, s)
      else sDelete S cancelled now (failKey a key) s)"

section \<open>The shipped tiers\<close>

record Tiers =
  Auth :: AuthTier
  Publish :: Tier
  Management :: Tier
  Admin :: Tier

definition DefaultTiers :: Tiers where
  "DefaultTiers =
     \<lparr>Auth = \<lparr>aLimit = 5, aWindow = minute, aHorizon = 24 * hour, aCap = hour\<rparr>,
      Publish = \<lparr>tLimit = 60, tWindow = minute, tFailOpen = True\<rparr>,
      Management = \<lparr>tLimit = 120, tWindow = minute, tFailOpen = False\<rparr>,
      Admin = \<lparr>tLimit = 60, tWindow = minute, tFailOpen = False\<rparr>\<rparr>"

definition Tiers_Validate :: "Tiers \<Rightarrow> unit result" where
  "Tiers_Validate t =
     (case AuthTier_validate (Auth t) of Inl e \<Rightarrow> Inl e | Inr _ \<Rightarrow>
     (case Tier_validate (Publish t) of Inl e \<Rightarrow> Inl e | Inr _ \<Rightarrow>
     (case Tier_validate (Management t) of Inl e \<Rightarrow> Inl e | Inr _ \<Rightarrow>
      Tier_validate (Admin t))))"

section \<open>Keys\<close>

lemma Limiter_key_inject [simp]: "Limiter_key l k = Limiter_key l k' \<longleftrightarrow> k = k'"
  by (simp add: Limiter_key_def)

lemma Limiter_key_nonempty [simp]: "Limiter_key l k \<noteq> []"
  by (simp add: Limiter_key_def)

lemma failKey_nonempty [simp]: "failKey a k \<noteq> []"
  by (simp add: failKey_def)

lemma lockKey_nonempty [simp]: "lockKey a k n \<noteq> []"
  by (simp add: lockKey_def)

lemma failKey_inject [simp]: "failKey a k = failKey a k' \<longleftrightarrow> k = k'"
  by (simp add: failKey_def)

lemma failKey_lockKey [simp]: "failKey a k \<noteq> lockKey a k' n" "lockKey a k' n \<noteq> failKey a k"
  by (simp_all add: failKey_def lockKey_def)

lemma digit_not_colon: "n < 10 \<Longrightarrow> char_of (48 + n :: nat) \<noteq> CHR '':''"
proof
  assume n: "n < 10" and "char_of (48 + n :: nat) = CHR '':''"
  then have "of_char (char_of (48 + n :: nat) :: char) = (of_char CHR '':'' :: nat)" by simp
  then have "(48 + n) mod 256 = (58 :: nat)" by simp
  with n show False by simp
qed

lemma utoa_not_colon: "CHR '':'' \<notin> set (utoa n)"
proof (induction n rule: utoa.induct)
  case (1 n)
  then show ?case
    using digit_not_colon [of n] digit_not_colon [of "n mod 10"]
    by (subst utoa.simps) (auto simp del: char_of_eq_iff)
qed

lemma digit_inject: "m < 10 \<Longrightarrow> n < 10 \<Longrightarrow> char_of (48 + m :: nat) = (char_of (48 + n) :: char) \<Longrightarrow> m = n"
proof -
  assume "m < 10" "n < 10" "char_of (48 + m :: nat) = (char_of (48 + n) :: char)"
  then have "of_char (char_of (48 + m :: nat) :: char) = (of_char (char_of (48 + n :: nat) :: char) :: nat)"
    by simp
  then have "(48 + m) mod 256 = (48 + n) mod (256 :: nat)" by (simp only: of_char_of)
  with \<open>m < 10\<close> \<open>n < 10\<close> show "m = n" by simp
qed

lemma utoa_nonempty: "utoa n \<noteq> []"
  by (subst utoa.simps) simp

lemma utoa_inject: "utoa m = utoa n \<Longrightarrow> m = n"
proof (induction m arbitrary: n rule: utoa.induct)
  case (1 m)
  show ?case
  proof (cases "m < 10"; cases "n < 10")
    assume "m < 10" "n < 10"
    then show ?thesis using 1(2) digit_inject [of m n] by (simp add: utoa.simps)
  next
    assume "m < 10" "\<not> n < 10"
    then show ?thesis using 1(2) utoa_nonempty [of "n div 10"]
      by (simp add: utoa.simps [of m] utoa.simps [of n])
  next
    assume "\<not> m < 10" "n < 10"
    then show ?thesis using 1(2) utoa_nonempty [of "m div 10"]
      by (simp add: utoa.simps [of m] utoa.simps [of n])
  next
    assume m: "\<not> m < 10" and n: "\<not> n < 10"
    with 1(2) have "utoa (m div 10) = utoa (n div 10)"
      and "char_of (48 + m mod 10) = (char_of (48 + n mod 10) :: char)"
      by (simp_all add: utoa.simps [of m] utoa.simps [of n])
    then have "m div 10 = n div 10" "m mod 10 = n mod 10"
      using 1(1) [OF m] digit_inject [of "m mod 10" "n mod 10"] by simp_all
    then show ?thesis by (metis div_mult_mod_eq)
  qed
qed

lemma lockKey_inject:
  assumes "lockKey a k m = lockKey a k' n" and "0 \<le> m" and "0 \<le> n"
  shows "k = k' \<and> m = n"
proof -
  from assms have eq: "utoa (nat m) @ CHR '':'' # k = utoa (nat n) @ CHR '':'' # k'"
    by (simp add: lockKey_def FormatInt_def)
  then have "Cut (utoa (nat m) @ CHR '':'' # k) CHR '':'' = Cut (utoa (nat n) @ CHR '':'' # k') CHR '':''"
    by simp
  then have "utoa (nat m) = utoa (nat n)" "k = k'"
    by (simp_all add: utoa_not_colon)
  then show ?thesis using assms utoa_inject by fastforce
qed

section \<open>The backoff curve\<close>

lemma lockout_range:
  assumes "AuthTier_validate t = Inr ()" and "aLimit t < n"
  shows "0 < lockout t n \<and> lockout t n \<le> aCap t"
  using assms by (auto simp: lockout_def Let_def AuthTier_validate_def split: if_splits)

lemma lockout_free [simp]: "n \<le> aLimit t \<Longrightarrow> lockout t n = 0"
  by (simp add: lockout_def)

lemma lockout_zero_iff:
  assumes "AuthTier_validate t = Inr ()"
  shows "lockout t n = 0 \<longleftrightarrow> n \<le> aLimit t"
  using lockout_range [OF assms, of n] by (cases "n \<le> aLimit t") auto

lemma lockout_exact:
  assumes "AuthTier_validate t = Inr ()" and "aLimit t < n"
    and fits: "aWindow t * 2 ^ nat (n - aLimit t - 1) < 2 ^ 63"
  shows "lockout t n = min (aCap t) (aWindow t * 2 ^ nat (n - aLimit t - 1))"
proof -
  let ?shift = "n - aLimit t - 1"
  from assms(1) have w: "1 \<le> aWindow t" by (auto simp: AuthTier_validate_def split: if_splits)
  have p: "(1 :: int) \<le> 2 ^ nat ?shift" by simp
  have "2 ^ nat ?shift \<le> aWindow t * 2 ^ nat ?shift" using w p by simp
  with fits have "(2 :: int) ^ nat ?shift < 2 ^ 63" by linarith
  then have "nat ?shift < 63" by (rule power_less_imp_less_exp [rotated]) simp
  then have "?shift \<le> maxShift" using assms(2) by (simp add: maxShift_def)
  moreover have "0 < aWindow t * 2 ^ nat ?shift" using w by simp
  moreover from this have "wrap64 (aWindow t * 2 ^ nat ?shift) = aWindow t * 2 ^ nat ?shift"
    using fits by (intro wrap64_id) auto
  ultimately show ?thesis using assms(2) by (simp add: lockout_def Let_def min_def)
qed

text \<open>
  A wrapped product is a multiple of the power of two in it, so it cannot come back below a bound that
  is small against its odd part.
\<close>

lemma wrap64_dvd: "2 ^ j dvd x \<Longrightarrow> j \<le> 63 \<Longrightarrow> (2 :: int) ^ j dvd wrap64 x"
  unfolding wrap64_def
  by (intro dvd_diff dvd_mod dvd_add) (assumption | rule le_imp_power_dvd, linarith)+

lemma wrap64_above:
  assumes "2 ^ 63 \<le> q * 2 ^ j" and "q * bound < 2 ^ 63" and "0 < q" and "0 < bound"
  shows "wrap64 (q * 2 ^ j) \<le> 0 \<or> bound < wrap64 (q * 2 ^ j)"
proof (cases "j \<le> 63")
  case True
  have "bound < 2 ^ j"
  proof (rule ccontr)
    assume "\<not> bound < 2 ^ j"
    then have "q * 2 ^ j \<le> q * bound" using assms(3) by simp
    then show False using assms(1,2) by linarith
  qed
  moreover have "2 ^ j \<le> wrap64 (q * 2 ^ j)" if "0 < wrap64 (q * 2 ^ j)"
    using wrap64_dvd [of j "q * 2 ^ j"] True that by (intro zdvd_imp_le) simp_all
  ultimately show ?thesis by linarith
next
  case False
  then have "(2 :: int) ^ 64 dvd q * 2 ^ j" by (intro dvd_mult le_imp_power_dvd) simp
  then obtain m where "q * 2 ^ j = 2 ^ 64 * m" by (elim dvdE)
  then have "(q * 2 ^ j + 2 ^ 63) mod 2 ^ 64 = (2 ^ 63 :: int)" by simp
  then show ?thesis by (simp add: wrap64_def)
qed

section \<open>Runs of the limiters over a counter store\<close>

text \<open>A sequence of requests, each with its instant and its key, through one limiter.\<close>

fun run_allow ::
  "'s Store \<Rightarrow> Limiter \<Rightarrow> (time \<times> string) list \<Rightarrow> 's \<Rightarrow> (Decision \<times> err option) list" where
  "run_allow S l [] s = []"
| "run_allow S l ((t, k) # cs) s =
     (case Allow S l False t k s of (d, s') \<Rightarrow> d # run_allow S l cs s')"

text \<open>A sequence of failed authentications of one key.\<close>

fun run_failures :: "'s Store \<Rightarrow> AuthLimiter \<Rightarrow> string \<Rightarrow> time list \<Rightarrow> 's \<Rightarrow> 's" where
  "run_failures S a k [] s = s"
| "run_failures S a k (t # ts) s = run_failures S a k ts (snd (RecordFailure S a False t k s))"

text \<open>
  A history of authentications: the instant, the key and whether the credential was right. The handler
  records a failure or a success of each; the checks between them do not change the store.
\<close>

fun run_attempts :: "'s Store \<Rightarrow> AuthLimiter \<Rightarrow> (time \<times> string \<times> bool) list \<Rightarrow> 's \<Rightarrow> 's" where
  "run_attempts S a [] s = s"
| "run_attempts S a ((t, k, right) # es) s =
     run_attempts S a es
       (if right then snd (RecordSuccess S a False t k s) else snd (RecordFailure S a False t k s))"

section \<open>What the failure limiter promises\<close>

text \<open>
  The standing of one key, without a store: how many failures count against it and until when, and for
  each number of failures until when the lockout of that number lasts. A failure counts on until the
  instant fixed by the first of its run; a lockout that is being served is not extended. A success
  forgets the failures and leaves the lockouts.
\<close>

record standing =
  sdFailures :: "(int \<times> time) option"
  sdLocks :: "int \<rightharpoonup> time"

definition clean :: standing where
  "clean = \<lparr>sdFailures = None, sdLocks = Map.empty\<rparr>"

fun in_force :: "time \<Rightarrow> time option \<Rightarrow> bool" where
  "in_force t None = False"
| "in_force t (Some e) = (t < e)"

definition strike :: "AuthTier \<Rightarrow> time \<Rightarrow> standing \<Rightarrow> standing" where
  "strike tier t p =
     (let (n, e) = (case sdFailures p of
          Some (n, e) \<Rightarrow> if t < e then (n + 1, e) else (1, t + aHorizon tier)
        | None \<Rightarrow> (1, t + aHorizon tier))
      in \<lparr>sdFailures = Some (n, e),
          sdLocks = (if n \<le> aLimit tier \<or> in_force t (sdLocks p n) then sdLocks p
                     else (sdLocks p)(n \<mapsto> t + lockout tier n))\<rparr>)"

fun standing_of :: "AuthTier \<Rightarrow> string \<Rightarrow> (time \<times> string \<times> bool) list \<Rightarrow> standing \<Rightarrow> standing" where
  "standing_of tier k [] p = p"
| "standing_of tier k ((t, k', right) # es) p =
     standing_of tier k es
       (if k' \<noteq> k then p else if right then p\<lparr>sdFailures := None\<rparr> else strike tier t p)"

text \<open>The end of the lockout a key is under at \<open>u\<close>.\<close>

definition locked_until :: "AuthTier \<Rightarrow> time \<Rightarrow> standing \<Rightarrow> time option" where
  "locked_until tier u p =
     (case sdFailures p of
        Some (n, e) \<Rightarrow> if u < e \<and> aLimit tier < n \<and> in_force u (sdLocks p n) then sdLocks p n else None
      | None \<Rightarrow> None)"

context counter_port
begin

lemma allow_step:
  assumes inv: "invar s" and k: "k \<noteq> []" and valid: "Tier_validate (lTier l) = Inr ()"
    and small: "0 \<le> Value (count s t (Limiter_key l k))" "Value (count s t (Limiter_key l k)) + 1 < 2 ^ 63"
  shows "\<exists>d s'. Allow S l False t k s = ((d, None), s') \<and> invar s' \<and>
      (Allowed d \<longleftrightarrow> Value (count s t (Limiter_key l k)) < tLimit (lTier l)) \<and>
      Value (count s' t (Limiter_key l k)) = Value (count s t (Limiter_key l k)) + 1 \<and>
      TTL (count s' t (Limiter_key l k)) = (if TTL (count s t (Limiter_key l k)) \<le> 0
        then tWindow (lTier l) else TTL (count s t (Limiter_key l k))) \<and>
      (\<forall>u k'. t \<le> u \<longrightarrow> k' \<noteq> Limiter_key l k \<longrightarrow> count s' u k' = count s u k')"
proof -
  from valid have w: "0 < tWindow (lTier l)" by (auto simp: Tier_validate_def split: if_splits)
  have nowrap: "wrap64 (Value (count s t (Limiter_key l k)) + 1) = Value (count s t (Limiter_key l k)) + 1"
    using small by (intro wrap64_id) auto
  obtain c s' where "sIncrement S False t (Limiter_key l k) 1 (tWindow (lTier l)) s = (Inr c, s')"
    "invar s'" "Value c = Value (count s t (Limiter_key l k)) + 1"
    "TTL c = (if TTL (count s t (Limiter_key l k)) \<le> 0
        then tWindow (lTier l) else TTL (count s t (Limiter_key l k)))"
    "count s' t (Limiter_key l k) = c"
    "\<forall>u k'. t \<le> u \<longrightarrow> k' \<noteq> Limiter_key l k \<longrightarrow> count s' u k' = count s u k'"
    using increment [OF inv, of "Limiter_key l k" 1 "tWindow (lTier l)" t] w nowrap by auto
  then show ?thesis using k by (auto simp: Allow_def)
qed

text \<open>
  The counts at \<open>t\<close>, inside the window that opened at \<open>t0\<close>: no key's window closes before that one
  does, and \<open>n\<close> further increments stay in range.
\<close>

definition window_open :: "Limiter \<Rightarrow> time \<Rightarrow> time \<Rightarrow> nat \<Rightarrow> 's \<Rightarrow> bool" where
  "window_open l t0 t n s \<longleftrightarrow> invar s \<and> t0 \<le> t \<and>
     (\<forall>k. 0 \<le> Value (count s t (Limiter_key l k))
        \<and> Value (count s t (Limiter_key l k)) + int n < 2 ^ 63
        \<and> (count s t (Limiter_key l k) = zero_count
           \<or> t0 + tWindow (lTier l) - t \<le> TTL (count s t (Limiter_key l k))))"

lemma window_open_later:
  assumes "window_open l t0 t n s" and "t \<le> u" and "u < t0 + tWindow (lTier l)"
  shows "window_open l t0 u n s
    \<and> Value (count s u (Limiter_key l k)) = Value (count s t (Limiter_key l k))"
proof -
  have "count s u (Limiter_key l k) =
      (if count s t (Limiter_key l k) = zero_count then zero_count
       else \<lparr>Value = Value (count s t (Limiter_key l k)), TTL = TTL (count s t (Limiter_key l k)) - (u - t)\<rparr>)"
    for k
    using ages [OF assms(2), of s "Limiter_key l k"] assms
    by (auto simp: window_open_def zero_count_def dest: spec [of _ k])
  then show ?thesis using assms by (auto simp: window_open_def zero_count_def)
qed

lemma window_open_step:
  assumes wo: "window_open l t0 t (Suc n) s" and valid: "Tier_validate (lTier l) = Inr ()"
    and k: "k \<noteq> []"
  shows "\<exists>d s'. Allow S l False t k s = ((d, None), s') \<and> window_open l t0 t n s' \<and>
      (Allowed d \<longleftrightarrow> Value (count s t (Limiter_key l k)) < tLimit (lTier l)) \<and>
      (\<forall>k'. Value (count s' t (Limiter_key l k')) =
         Value (count s t (Limiter_key l k')) + (if k' = k then 1 else 0))"
proof -
  from wo have inv: "invar s" and t0: "t0 \<le> t" by (simp_all add: window_open_def)
  have at: "0 \<le> Value (count s t (Limiter_key l k'))
      \<and> Value (count s t (Limiter_key l k')) + int (Suc n) < 2 ^ 63
      \<and> (count s t (Limiter_key l k') = zero_count
         \<or> t0 + tWindow (lTier l) - t \<le> TTL (count s t (Limiter_key l k')))" for k'
    using wo by (simp add: window_open_def)
  obtain d s' where step: "Allow S l False t k s = ((d, None), s')" "invar s'"
    "Allowed d \<longleftrightarrow> Value (count s t (Limiter_key l k)) < tLimit (lTier l)"
    and val: "Value (count s' t (Limiter_key l k)) = Value (count s t (Limiter_key l k)) + 1"
    and ttl: "TTL (count s' t (Limiter_key l k)) = (if TTL (count s t (Limiter_key l k)) \<le> 0
        then tWindow (lTier l) else TTL (count s t (Limiter_key l k)))"
    and others: "\<forall>v k'. t \<le> v \<longrightarrow> k' \<noteq> Limiter_key l k \<longrightarrow> count s' v k' = count s v k'"
    using allow_step [OF inv k valid, of t] at [of k] by force
  have vals: "Value (count s' t (Limiter_key l k')) =
      Value (count s t (Limiter_key l k')) + (if k' = k then 1 else 0)" for k'
    using val others by simp
  moreover have "0 \<le> Value (count s' t (Limiter_key l k'))
      \<and> Value (count s' t (Limiter_key l k')) + int n < 2 ^ 63" for k'
    using vals [of k'] at [of k'] by auto
  moreover have "count s' t (Limiter_key l k') = zero_count
      \<or> t0 + tWindow (lTier l) - t \<le> TTL (count s' t (Limiter_key l k'))" for k'
    using ttl others at [of k'] t0
    by (cases "k' = k") (auto simp: zero_count_def split: if_splits)
  ultimately have "window_open l t0 t n s'"
    using step(2) t0 by (simp add: window_open_def)
  then show ?thesis using step vals by blast
qed

text \<open>
  Inside one window the \<open>i\<close>-th request is admitted exactly when the limit has not been used up by
  the requests of the same key before it.
\<close>

lemma run_allow_window:
  assumes "window_open l t0 t (length cs) s" and "Tier_validate (lTier l) = Inr ()"
    and "sorted (t # map fst cs)" and "\<forall>(u, k) \<in> set cs. k \<noteq> [] \<and> u < t0 + tWindow (lTier l)"
  shows "length (run_allow S l cs s) = length cs \<and>
    (\<forall>i < length cs. snd (run_allow S l cs s ! i) = None
      \<and> (Allowed (fst (run_allow S l cs s ! i)) \<longleftrightarrow>
          Value (count s t (Limiter_key l (snd (cs ! i))))
            + int (count_list (map snd (take i cs)) (snd (cs ! i))) < tLimit (lTier l)))"
  using assms
proof (induction cs arbitrary: s t)
  case Nil
  then show ?case by simp
next
  case (Cons c cs)
  obtain u k where c: "c = (u, k)" by force
  then have u: "t \<le> u" "u < t0 + tWindow (lTier l)" "k \<noteq> []" using Cons.prems by auto
  have at_u: "window_open l t0 u (Suc (length cs)) s"
    "\<And>k'. Value (count s u (Limiter_key l k')) = Value (count s t (Limiter_key l k'))"
    using window_open_later [OF Cons.prems(1) u(1,2)] by simp_all
  obtain d s' where step: "Allow S l False u k s = ((d, None), s')" "window_open l t0 u (length cs) s'"
    "Allowed d \<longleftrightarrow> Value (count s u (Limiter_key l k)) < tLimit (lTier l)"
    and vals: "\<forall>k'. Value (count s' u (Limiter_key l k')) =
         Value (count s u (Limiter_key l k')) + (if k' = k then 1 else 0)"
    using window_open_step [OF at_u(1) Cons.prems(2) u(3)] by blast
  have "length (run_allow S l cs s') = length cs \<and>
    (\<forall>i < length cs. snd (run_allow S l cs s' ! i) = None
      \<and> (Allowed (fst (run_allow S l cs s' ! i)) \<longleftrightarrow>
          Value (count s' u (Limiter_key l (snd (cs ! i))))
            + int (count_list (map snd (take i cs)) (snd (cs ! i))) < tLimit (lTier l)))"
    using Cons.prems c by (intro Cons.IH step(2)) auto
  then show ?case
    using c step vals at_u(2) by (auto simp: nth_Cons' take_Cons' split: if_splits)
qed

lemma failure_step:
  fixes t :: time
  assumes inv: "invar s" and k: "k \<noteq> []" and valid: "AuthTier_validate (alTier a) = Inr ()"
  defines "c \<equiv> count s t (failKey a k)"
  defines "n \<equiv> wrap64 (Value c + 1)"
  shows "\<exists>d s'. RecordFailure S a False t k s = ((d, None), s') \<and> invar s' \<and>
      count s' t (failKey a k) =
        \<lparr>Value = n, TTL = (if TTL c \<le> 0 then aHorizon (alTier a) else TTL c)\<rparr> \<and>
      dCount d = n \<and> (Allowed d \<longleftrightarrow> n \<le> aLimit (alTier a)) \<and>
      (\<not> Allowed d \<longrightarrow> 0 < RetryAfter d \<and> TTL (count s' t (lockKey a k n)) = RetryAfter d \<and>
         Value (count s' t (lockKey a k n)) = wrap64 (Value (count s t (lockKey a k n)) + 1) \<and>
         RetryAfter d = (if TTL (count s t (lockKey a k n)) \<le> 0 then lockout (alTier a) n
                         else TTL (count s t (lockKey a k n)))) \<and>
      (\<forall>u k'. t \<le> u \<longrightarrow> k' \<noteq> failKey a k \<longrightarrow> (aLimit (alTier a) < n \<longrightarrow> k' \<noteq> lockKey a k n) \<longrightarrow>
         count s' u k' = count s u k')"
proof -
  from valid have h: "0 < aHorizon (alTier a)" by (auto simp: AuthTier_validate_def split: if_splits)
  obtain f s1 where inc: "sIncrement S False t (failKey a k) 1 (aHorizon (alTier a)) s = (Inr f, s1)"
    and inv1: "invar s1" and f: "Value f = n"
    "TTL f = (if TTL c \<le> 0 then aHorizon (alTier a) else TTL c)"
    and cnt: "count s1 t (failKey a k) = f"
    and oth: "\<forall>u k'. t \<le> u \<longrightarrow> k' \<noteq> failKey a k \<longrightarrow> count s1 u k' = count s u k'"
    using increment [OF inv, of "failKey a k" 1 "aHorizon (alTier a)" t] h unfolding c_def n_def by auto
  have feq: "f = \<lparr>Value = n, TTL = (if TTL c \<le> 0 then aHorizon (alTier a) else TTL c)\<rparr>"
    using f by (cases f) simp
  show ?thesis
  proof (cases "n \<le> aLimit (alTier a)")
    case True
    then show ?thesis using inc inv1 f cnt feq k oth by (simp add: RecordFailure_def)
  next
    case False
    then have lk: "0 < lockout (alTier a) n" using lockout_range [OF valid, of n] by simp
    obtain g s2 where inc2: "sIncrement S False t (lockKey a k n) 1 (lockout (alTier a) n) s1 = (Inr g, s2)"
      and inv2: "invar s2" and g: "Value g = wrap64 (Value (count s1 t (lockKey a k n)) + 1)"
      "TTL g = (if TTL (count s1 t (lockKey a k n)) \<le> 0 then lockout (alTier a) n
                else TTL (count s1 t (lockKey a k n)))"
      and cnt2: "count s2 t (lockKey a k n) = g"
      and oth2: "\<forall>u k'. t \<le> u \<longrightarrow> k' \<noteq> lockKey a k n \<longrightarrow> count s2 u k' = count s1 u k'"
      using increment [OF inv1, of "lockKey a k n" 1 "lockout (alTier a) n" t] lk by auto
    have "RecordFailure S a False t k s =
        ((\<lparr>Allowed = False, RetryAfter = TTL g, dCount = n, dLimit = aLimit (alTier a)\<rparr>, None), s2)"
      using inc inc2 f lk k False by (simp add: RecordFailure_def Let_def)
    then show ?thesis using inv2 oth oth2 cnt cnt2 g feq lk False by simp
  qed
qed

text \<open>
  The store when the last of \<open>j\<close> failures of \<open>k\<close> has just been recorded, at \<open>t\<close>, and their count lives
  until \<open>E\<close>: no lock of a higher level is open, and the lock of level \<open>j\<close> has just been armed when
  \<open>j\<close> is over the limit.
\<close>

definition failed :: "AuthLimiter \<Rightarrow> string \<Rightarrow> time \<Rightarrow> int \<Rightarrow> time \<Rightarrow> 's \<Rightarrow> bool" where
  "failed a k E j t s \<longleftrightarrow> invar s \<and> 0 < j \<and> t < E \<and>
     count s t (failKey a k) = \<lparr>Value = j, TTL = E - t\<rparr> \<and>
     (\<forall>m > j. count s t (lockKey a k m) = zero_count) \<and>
     (aLimit (alTier a) < j \<longrightarrow>
        count s t (lockKey a k j) = \<lparr>Value = 1, TTL = lockout (alTier a) j\<rparr>)"

lemma failed_first:
  assumes "invar s" and "k \<noteq> []" and "AuthTier_validate (alTier a) = Inr ()"
    and zero: "\<forall>k'. count s t k' = zero_count"
  shows "\<exists>d s'. RecordFailure S a False t k s = ((d, None), s') \<and>
    failed a k (t + aHorizon (alTier a)) 1 t s'"
proof -
  from assms(3) have "1 \<le> aLimit (alTier a)" "0 < aHorizon (alTier a)"
    by (auto simp: AuthTier_validate_def split: if_splits)
  moreover have "lockKey a k m \<noteq> lockKey a k 1" if "1 < m" for m
    using lockKey_inject [of a k m k 1] that by auto
  moreover have "wrap64 1 = 1" by (rule wrap64_id) auto
  ultimately show ?thesis
    using failure_step [OF assms(1-3), of t] zero by (auto simp: failed_def zero_count_def)
qed

lemma failed_step:
  assumes f: "failed a k E j t s" and "t \<le> u" and "u < E" and "j + 1 < 2 ^ 63"
    and k: "k \<noteq> []" and valid: "AuthTier_validate (alTier a) = Inr ()"
  shows "\<exists>d s'. RecordFailure S a False u k s = ((d, None), s') \<and> failed a k E (j + 1) u s' \<and>
    dCount d = j + 1 \<and> (Allowed d \<longleftrightarrow> j + 1 \<le> aLimit (alTier a))"
proof -
  from f have inv: "invar s" and j: "0 < j" by (simp_all add: failed_def)
  have c: "count s u (failKey a k) = \<lparr>Value = j, TTL = E - u\<rparr>"
    using f assms(2,3) count_later [of t u s "failKey a k"] by (simp add: failed_def)
  have z: "count s u (lockKey a k m) = zero_count" if "j < m" for m
    using f that assms(2) by (intro count_expired [of t]) (auto simp: failed_def zero_count_def)
  have n: "wrap64 (j + 1) = j + 1" "wrap64 1 = 1" using j assms(4) by (auto intro!: wrap64_id)
  have d: "lockKey a k m \<noteq> lockKey a k (j + 1)" if "j + 1 < m" for m
    using lockKey_inject [of a k m k "j + 1"] that j by auto
  obtain d s' where step: "RecordFailure S a False u k s = ((d, None), s')" "invar s'"
    "count s' u (failKey a k) = \<lparr>Value = j + 1, TTL = E - u\<rparr>"
    "dCount d = j + 1" "Allowed d \<longleftrightarrow> j + 1 \<le> aLimit (alTier a)"
    and lock: "\<not> Allowed d \<longrightarrow> count s' u (lockKey a k (j + 1)) =
      \<lparr>Value = 1, TTL = lockout (alTier a) (j + 1)\<rparr>"
    and oth: "\<forall>v k'. u \<le> v \<longrightarrow> k' \<noteq> failKey a k \<longrightarrow> k' \<noteq> lockKey a k (j + 1) \<longrightarrow>
      count s' v k' = count s v k'"
    using failure_step [OF inv k valid, of u] c z [of "j + 1"] n assms(3)
    by (fastforce simp: zero_count_def)
  have "\<forall>m > j + 1. count s' u (lockKey a k m) = zero_count" using oth d z by simp
  then show ?thesis using step lock j assms(3) by (auto simp: failed_def)
qed

lemma failed_run:
  assumes "failed a k E j t s" and "sorted (t # ts)" and "\<forall>u \<in> set ts. u < E"
    and "j + int (length ts) < 2 ^ 63" and "k \<noteq> []" and "AuthTier_validate (alTier a) = Inr ()"
  shows "failed a k E (j + int (length ts)) (last (t # ts)) (run_failures S a k ts s)"
  using assms
proof (induction ts arbitrary: s t j)
  case Nil
  then show ?case by simp
next
  case (Cons u ts)
  obtain d s' where step: "RecordFailure S a False u k s = ((d, None), s')" "failed a k E (j + 1) u s'"
    using failed_step [of a k E j t s u] Cons.prems by auto
  have "failed a k E (j + 1 + int (length ts)) (last (u # ts)) (run_failures S a k ts s')"
    using Cons.prems by (intro Cons.IH step(2)) auto
  then show ?case using step by (simp add: ac_simps)
qed

lemma failed_check:
  assumes f: "failed a k E j t s" and "t \<le> u" and k: "k \<noteq> []"
    and valid: "AuthTier_validate (alTier a) = Inr ()"
  shows "snd (fst (Check S a False u k s)) = None \<and>
    (Allowed (fst (fst (Check S a False u k s))) \<longleftrightarrow>
       j \<le> aLimit (alTier a) \<or> t + lockout (alTier a) j \<le> u \<or> E \<le> u)"
proof -
  from valid have lim: "0 < aLimit (alTier a)" by (auto simp: AuthTier_validate_def split: if_splits)
  have inv: "invar s" using f by (simp add: failed_def)
  have c: "count s u (failKey a k) = (if u < E then \<lparr>Value = j, TTL = E - u\<rparr> else zero_count)"
    using f assms(2) ages [of t u s "failKey a k"] by (simp add: failed_def)
  have l: "count s u (lockKey a k j) = (if u < t + lockout (alTier a) j
      then \<lparr>Value = 1, TTL = t + lockout (alTier a) j - u\<rparr> else zero_count)" if "aLimit (alTier a) < j"
    using f that assms(2) ages [of t u s "lockKey a k j"] by (auto simp: failed_def)
  show ?thesis
    using get [OF inv, of "failKey a k" u] get [OF inv, of "lockKey a k j" u] c l k lim
    by (auto simp: Check_def zero_count_def)
qed

text \<open>
  The simulation: every count is far from the end of its range, the failure count of \<open>k\<close> is the one of
  its standing while that lasts, and the lock of each number of failures lasts as long as its lockout.
\<close>

definition bounded :: "nat \<Rightarrow> time \<Rightarrow> 's \<Rightarrow> bool" where
  "bounded m t s \<longleftrightarrow> invar s \<and> (\<forall>k. 0 \<le> Value (count s t k) \<and> Value (count s t k) + int m < 2 ^ 63)"

definition left :: "time \<Rightarrow> time option \<Rightarrow> duration" where
  "left t e = (case e of None \<Rightarrow> 0 | Some l \<Rightarrow> max 0 (l - t))"

definition shows_standing :: "AuthLimiter \<Rightarrow> string \<Rightarrow> time \<Rightarrow> standing \<Rightarrow> 's \<Rightarrow> bool" where
  "shows_standing a k t p s \<longleftrightarrow>
     count s t (failKey a k) = (case sdFailures p of
         Some (n, e) \<Rightarrow> if t < e then \<lparr>Value = n, TTL = e - t\<rparr> else zero_count
       | None \<Rightarrow> zero_count) \<and>
     (\<forall>n. aLimit (alTier a) < n \<longrightarrow>
        TTL (count s t (lockKey a k n)) = left t (sdLocks p n) \<and>
        (0 < left t (sdLocks p n) \<longrightarrow> 0 < Value (count s t (lockKey a k n))))"

lemma in_force_left: "in_force t e \<longleftrightarrow> 0 < left t e"
  by (cases e) (auto simp: left_def)

lemma left_later: "t \<le> u \<Longrightarrow> left u e = max 0 (left t e - (u - t))"
  by (cases e) (auto simp: left_def)

lemma bounded_later:
  assumes "bounded m t s" and "t \<le> u"
  shows "bounded m u s"
proof -
  have "Value (count s u k) = Value (count s t k) \<or> Value (count s u k) = 0" for k
    using ages [OF assms(2), of s k] by (simp add: zero_count_def)
  moreover have "0 \<le> Value (count s t k) \<and> Value (count s t k) + int m < 2 ^ 63" for k
    using assms(1) by (simp add: bounded_def)
  ultimately have "0 \<le> Value (count s u k) \<and> Value (count s u k) + int m < 2 ^ 63" for k
    by (metis add.left_neutral le_add_same_cancel2 order.refl order_le_less_trans)
  then show ?thesis using assms(1) by (simp add: bounded_def)
qed

lemma shows_standing_later:
  assumes "shows_standing a k t p s" and "t \<le> u"
  shows "shows_standing a k u p s"
proof -
  have "count s u (failKey a k) = (case sdFailures p of
         Some (n, e) \<Rightarrow> if u < e then \<lparr>Value = n, TTL = e - u\<rparr> else zero_count
       | None \<Rightarrow> zero_count)"
    using assms ages [OF assms(2), of s "failKey a k"]
    by (auto simp: shows_standing_def zero_count_def split: option.splits)
  moreover have "TTL (count s u (lockKey a k n)) = left u (sdLocks p n)"
    "0 < left u (sdLocks p n) \<longrightarrow> 0 < Value (count s u (lockKey a k n))" if "aLimit (alTier a) < n" for n
    using assms that ages [OF assms(2), of s "lockKey a k n"] left_later [OF assms(2), of "sdLocks p n"]
    by (auto simp: shows_standing_def zero_count_def)
  ultimately show ?thesis by (simp add: shows_standing_def)
qed

text \<open>What a failure leaves of every count, when none of them is at the end of its range.\<close>

lemma failure_counts:
  assumes b: "bounded (Suc m) t s" and k: "k \<noteq> []" and valid: "AuthTier_validate (alTier a) = Inr ()"
  defines "n \<equiv> Value (count s t (failKey a k)) + 1"
  obtains d s' where "RecordFailure S a False t k s = ((d, None), s')" and "bounded m t s'" and "0 < n"
    and "count s' t (failKey a k) = \<lparr>Value = n, TTL = (if TTL (count s t (failKey a k)) \<le> 0
        then aHorizon (alTier a) else TTL (count s t (failKey a k)))\<rparr>"
    and "aLimit (alTier a) < n \<Longrightarrow> count s' t (lockKey a k n) =
        \<lparr>Value = Value (count s t (lockKey a k n)) + 1, TTL = (if TTL (count s t (lockKey a k n)) \<le> 0
           then lockout (alTier a) n else TTL (count s t (lockKey a k n)))\<rparr>"
    and "\<And>k'. k' \<noteq> failKey a k \<Longrightarrow> (aLimit (alTier a) < n \<longrightarrow> k' \<noteq> lockKey a k n) \<Longrightarrow> count s' t k' = count s t k'"
proof -
  have inv: "invar s" and small: "0 \<le> Value (count s t k')" "Value (count s t k') + int (Suc m) < 2 ^ 63" for k'
    using b by (simp_all add: bounded_def)
  have w: "wrap64 (Value (count s t k') + 1) = Value (count s t k') + 1" for k'
    using small [of k'] by (intro wrap64_id) auto
  obtain d s' where step: "RecordFailure S a False t k s = ((d, None), s')" "invar s'"
    and fail: "count s' t (failKey a k) = \<lparr>Value = n, TTL = (if TTL (count s t (failKey a k)) \<le> 0
        then aHorizon (alTier a) else TTL (count s t (failKey a k)))\<rparr>"
    and allowed: "Allowed d \<longleftrightarrow> n \<le> aLimit (alTier a)"
    and lock: "\<not> Allowed d \<longrightarrow> TTL (count s' t (lockKey a k n)) = RetryAfter d \<and>
         Value (count s' t (lockKey a k n)) = Value (count s t (lockKey a k n)) + 1 \<and>
         RetryAfter d = (if TTL (count s t (lockKey a k n)) \<le> 0 then lockout (alTier a) n
                         else TTL (count s t (lockKey a k n)))"
    and frame: "\<forall>u k'. t \<le> u \<longrightarrow> k' \<noteq> failKey a k \<longrightarrow> (aLimit (alTier a) < n \<longrightarrow> k' \<noteq> lockKey a k n) \<longrightarrow>
         count s' u k' = count s u k'"
    using failure_step [OF inv k valid, of t] unfolding w n_def by auto
  have lock': "count s' t (lockKey a k n) =
        \<lparr>Value = Value (count s t (lockKey a k n)) + 1, TTL = (if TTL (count s t (lockKey a k n)) \<le> 0
           then lockout (alTier a) n else TTL (count s t (lockKey a k n)))\<rparr>" if "aLimit (alTier a) < n"
    using lock allowed that by (intro Count.equality) auto
  have "Value (count s' t k') = Value (count s t k') \<or> Value (count s' t k') = Value (count s t k') + 1" for k'
  proof -
    consider "k' = failKey a k" | "k' = lockKey a k n" "aLimit (alTier a) < n"
      | "k' \<noteq> failKey a k" "aLimit (alTier a) < n \<longrightarrow> k' \<noteq> lockKey a k n" by blast
    then show ?thesis using fail lock' frame by cases (simp_all add: n_def)
  qed
  then have "0 \<le> Value (count s' t k') \<and> Value (count s' t k') + int m < 2 ^ 63" for k'
    using small [of k'] by (smt (verit) of_nat_Suc)
  then have "bounded m t s'" using step(2) by (simp add: bounded_def)
  moreover have "0 < n" using small(1) [of "failKey a k"] by (simp add: n_def)
  ultimately show ?thesis using fail lock' frame by (intro that [OF step(1)]) auto
qed

lemma failure_shows:
  assumes b: "bounded (Suc m) t s" and k: "k \<noteq> []" and valid: "AuthTier_validate (alTier a) = Inr ()"
    and s: "shows_standing a k t p s"
  shows "shows_standing a k t (strike (alTier a) t p) (snd (RecordFailure S a False t k s))"
proof -
  let ?c = "count s t (failKey a k)"
  have hor: "0 < aHorizon (alTier a)" and lim: "0 < aLimit (alTier a)"
    using valid by (auto simp: AuthTier_validate_def split: if_splits)
  obtain d s' where step: "RecordFailure S a False t k s = ((d, None), s')" and n: "0 < Value ?c + 1"
    and fail: "count s' t (failKey a k) =
      \<lparr>Value = Value ?c + 1, TTL = (if TTL ?c \<le> 0 then aHorizon (alTier a) else TTL ?c)\<rparr>"
    and lock: "aLimit (alTier a) < Value ?c + 1 \<Longrightarrow> count s' t (lockKey a k (Value ?c + 1)) =
        \<lparr>Value = Value (count s t (lockKey a k (Value ?c + 1))) + 1,
         TTL = (if TTL (count s t (lockKey a k (Value ?c + 1))) \<le> 0
           then lockout (alTier a) (Value ?c + 1) else TTL (count s t (lockKey a k (Value ?c + 1))))\<rparr>"
    and frame: "\<And>k'. k' \<noteq> failKey a k \<Longrightarrow> (aLimit (alTier a) < Value ?c + 1 \<longrightarrow> k' \<noteq> lockKey a k (Value ?c + 1))
      \<Longrightarrow> count s' t k' = count s t k'"
    using failure_counts [OF b k valid] by metis
  have nonneg: "0 \<le> Value (count s t k')" for k' using b by (simp add: bounded_def)
  let ?e = "t + (if TTL ?c \<le> 0 then aHorizon (alTier a) else TTL ?c)"
  have st: "strike (alTier a) t p = \<lparr>sdFailures = Some (Value ?c + 1, ?e),
      sdLocks = (if Value ?c + 1 \<le> aLimit (alTier a) \<or> in_force t (sdLocks p (Value ?c + 1)) then sdLocks p
        else (sdLocks p)(Value ?c + 1 \<mapsto> t + lockout (alTier a) (Value ?c + 1)))\<rparr>"
    using s by (auto simp: strike_def shows_standing_def zero_count_def Let_def split: option.splits)
  have "TTL (count s' t (lockKey a k n)) = left t (sdLocks (strike (alTier a) t p) n) \<and>
      (0 < left t (sdLocks (strike (alTier a) t p) n) \<longrightarrow> 0 < Value (count s' t (lockKey a k n)))"
    if n': "aLimit (alTier a) < n" for n
  proof (cases "n = Value ?c + 1")
    case True
    have "TTL (count s t (lockKey a k n)) = left t (sdLocks p n)" using s n' by (simp add: shows_standing_def)
    then show ?thesis
      using lock n' True nonneg [of "lockKey a k n"] lockout_range [OF valid n']
      by (auto simp: st in_force_left) (auto simp: left_def)
  next
    case False
    then have "lockKey a k n \<noteq> lockKey a k (Value ?c + 1)"
      using lockKey_inject [of a k n k "Value ?c + 1"] n n' lim by auto
    then have "count s' t (lockKey a k n) = count s t (lockKey a k n)" by (intro frame) simp_all
    moreover have "sdLocks (strike (alTier a) t p) n = sdLocks p n" using False by (simp add: st)
    ultimately show ?thesis using s n' by (simp add: shows_standing_def)
  qed
  moreover have "count s' t (failKey a k) = \<lparr>Value = Value ?c + 1, TTL = ?e - t\<rparr>" "t < ?e" using fail hor by auto
  ultimately show ?thesis by (simp add: step shows_standing_def st)
qed

lemma failure_other:
  assumes b: "bounded (Suc m) t s" and k': "k' \<noteq> []" "k' \<noteq> k" and valid: "AuthTier_validate (alTier a) = Inr ()"
    and s: "shows_standing a k t p s"
  shows "shows_standing a k t p (snd (RecordFailure S a False t k' s))"
proof -
  have lim: "0 < aLimit (alTier a)" using valid by (auto simp: AuthTier_validate_def split: if_splits)
  let ?n = "Value (count s t (failKey a k')) + 1"
  obtain d s' where step: "RecordFailure S a False t k' s = ((d, None), s')" and n: "0 < ?n"
    and frame: "\<And>x. x \<noteq> failKey a k' \<Longrightarrow> (aLimit (alTier a) < ?n \<longrightarrow> x \<noteq> lockKey a k' ?n)
      \<Longrightarrow> count s' t x = count s t x"
    using failure_counts [OF b k'(1) valid] by metis
  have "count s' t (failKey a k) = count s t (failKey a k)" using k' by (intro frame) auto
  moreover have "count s' t (lockKey a k m) = count s t (lockKey a k m)" if "aLimit (alTier a) < m" for m
    using lockKey_inject [of a k m k' ?n] that n lim k' by (intro frame) auto
  ultimately show ?thesis using s by (simp add: step shows_standing_def)
qed

lemma failure_bounded:
  "bounded (Suc m) t s \<Longrightarrow> k \<noteq> [] \<Longrightarrow> AuthTier_validate (alTier a) = Inr () \<Longrightarrow>
     bounded m t (snd (RecordFailure S a False t k s))"
  by (rule failure_counts) auto

lemma success_step:
  assumes b: "bounded (Suc m) t s" and k': "k' \<noteq> []" and s: "shows_standing a k t p s"
  shows "bounded m t (snd (RecordSuccess S a False t k' s)) \<and>
    shows_standing a k t (if k' = k then p\<lparr>sdFailures := None\<rparr> else p) (snd (RecordSuccess S a False t k' s))"
proof -
  obtain s' where step: "sDelete S False t (failKey a k') s = (Inr (), s')" "invar s'"
    and zero: "count s' t (failKey a k') = zero_count"
    and frame: "\<And>x. x \<noteq> failKey a k' \<Longrightarrow> count s' t x = count s t x"
    using delete [of s "failKey a k'" t] b by (auto simp: bounded_def)
  have "0 \<le> Value (count s' t x) \<and> Value (count s' t x) + int m < 2 ^ 63" for x
  proof (cases "x = failKey a k'")
    case True
    have "0 \<le> Value (count s t x) \<and> Value (count s t x) + int (Suc m) < 2 ^ 63"
      using b unfolding bounded_def by blast
    then have "int m < 2 ^ 63" by linarith
    then show ?thesis using True zero by (simp add: zero_count_def)
  next
    case False
    then have "count s' t x = count s t x" by (rule frame)
    moreover have "0 \<le> Value (count s t x) \<and> Value (count s t x) + int (Suc m) < 2 ^ 63"
      using b unfolding bounded_def by blast
    ultimately show ?thesis by simp
  qed
  then have "bounded m t s'" using step(2) by (simp add: bounded_def)
  moreover have "shows_standing a k t (if k' = k then p\<lparr>sdFailures := None\<rparr> else p) s'"
    using s zero frame by (cases "k' = k") (auto simp: shows_standing_def)
  ultimately show ?thesis using step(1) k' by (simp add: RecordSuccess_def)
qed

lemma run_attempts_shows:
  assumes "bounded (length es) t s" and "shows_standing a k t p s" and "sorted (t # map fst es)"
    and "\<forall>(u, k', right) \<in> set es. k' \<noteq> []" and "AuthTier_validate (alTier a) = Inr ()"
  shows "invar (run_attempts S a es s) \<and>
    shows_standing a k (last (t # map fst es)) (standing_of (alTier a) k es p) (run_attempts S a es s)"
  using assms
proof (induction es arbitrary: t s p)
  case Nil
  then show ?case by (simp add: bounded_def)
next
  case (Cons e es)
  obtain u k' right where e: "e = (u, k', right)" by (cases e)
  have u: "t \<le> u" "k' \<noteq> []" "sorted (u # map fst es)" using Cons.prems(3,4) by (auto simp: e)
  have b: "bounded (Suc (length es)) u s" using bounded_later [OF Cons.prems(1) u(1)] by simp
  have s: "shows_standing a k u p s" using shows_standing_later [OF Cons.prems(2) u(1)] .
  let ?s = "if right then snd (RecordSuccess S a False u k' s) else snd (RecordFailure S a False u k' s)"
  let ?p = "if k' \<noteq> k then p else if right then p\<lparr>sdFailures := None\<rparr> else strike (alTier a) u p"
  have "bounded (length es) u ?s \<and> shows_standing a k u ?p ?s"
    using success_step [OF b u(2) s] failure_bounded [OF b u(2) Cons.prems(5)]
      failure_other [OF b u(2) _ Cons.prems(5) s] failure_shows [OF b _ Cons.prems(5) s] u(2)
    by auto
  then have "invar (run_attempts S a es ?s) \<and>
      shows_standing a k (last (u # map fst es)) (standing_of (alTier a) k es ?p) (run_attempts S a es ?s)"
    using u(3) Cons.prems(4,5) by (intro Cons.IH) auto
  then show ?case by (simp add: e)
qed

lemma check_shows:
  assumes inv: "invar s" and k: "k \<noteq> []" and s: "shows_standing a k u p s"
    and valid: "AuthTier_validate (alTier a) = Inr ()"
  shows "\<exists>d. Check S a False u k s = ((d, None), s) \<and>
    (case locked_until (alTier a) u p of None \<Rightarrow> Allowed d | Some e \<Rightarrow> \<not> Allowed d \<and> RetryAfter d = e - u)"
proof -
  have lim: "0 < aLimit (alTier a)" using valid by (auto simp: AuthTier_validate_def split: if_splits)
  have dead: "TTL (count s u x) \<le> 0 \<Longrightarrow> Value (count s u x) = 0" for x
    using dead_zero [of s u x] by (simp add: zero_count_def)
  let ?c = "count s u (failKey a k)"
  have g: "sGet S False u (failKey a k) s = (Inr ?c, s)" "sGet S False u (lockKey a k n) s = (Inr (count s u (lockKey a k n)), s)" for n
    using get [OF inv] by simp_all
  show ?thesis
  proof (cases "Value ?c \<le> aLimit (alTier a)")
    case True
    then have "locked_until (alTier a) u p = None"
      using s lim by (auto simp: shows_standing_def locked_until_def zero_count_def split: option.splits if_splits)
    then show ?thesis using True k g by (simp add: Check_def)
  next
    case False
    then obtain n e where p: "sdFailures p = Some (n, e)" "u < e" "?c = \<lparr>Value = n, TTL = e - u\<rparr>"
      using s lim by (auto simp: shows_standing_def zero_count_def split: option.splits if_splits)
    then have n: "aLimit (alTier a) < n" using False by simp
    then have l: "TTL (count s u (lockKey a k n)) = left u (sdLocks p n)"
      "0 < left u (sdLocks p n) \<longrightarrow> 0 < Value (count s u (lockKey a k n))"
      using s by (simp_all add: shows_standing_def)
    have "locked_until (alTier a) u p = (if in_force u (sdLocks p n) then sdLocks p n else None)"
      using p n by (simp add: locked_until_def)
    then show ?thesis
      using l dead [of "lockKey a k n"] p n k g
      by (cases "sdLocks p n") (auto simp: Check_def left_def)
  qed
qed

lemma check_down:
  "k \<noteq> [] \<Longrightarrow> Check S a True t k s = ((refuse a (aWindow (alTier a)), Some ErrStoreUnavailable), s)"
  by (simp add: Check_def down)

end

section \<open>Properties over the in-process store\<close>

lemma mem_count_new [simp]: "mem_count NewMemoryStore t k = zero_count"
  by (simp add: mem_count_def NewMemoryStore_def)

lemma NewLimiter_Inr: "NewLimiter name tier = Inr l \<Longrightarrow> Tier_validate tier = Inr () \<and> lTier l = tier"
  by (auto simp: NewLimiter_def split: if_splits sum.splits)

lemma NewAuthLimiter_Inr:
  "NewAuthLimiter name tier = Inr a \<Longrightarrow> AuthTier_validate tier = Inr () \<and> alTier a = tier"
  by (auto simp: NewAuthLimiter_def split: if_splits sum.splits)

text \<open>
  C7: the request limiter counts each key on its own and admits exactly \<open>Limit\<close> requests of a key per
  window. For any sequence of requests of any number of interleaved keys inside one window, request
  \<open>i\<close> is admitted if and only if fewer than \<open>Limit\<close> earlier requests carried the same key, and the
  store reports no error.
\<close>

theorem allow_admits_limit_per_key:
  assumes "NewLimiter name tier = Inr l"
    and "sorted (map fst cs)"
    and "\<forall>(u, k) \<in> set cs. k \<noteq> [] \<and> t0 \<le> u \<and> u < t0 + tWindow tier"
    and "int (length cs) < 2 ^ 63"
    and "i < length cs"
  shows "snd (run_allow MemoryStore_ops l cs NewMemoryStore ! i) = None
    \<and> (Allowed (fst (run_allow MemoryStore_ops l cs NewMemoryStore ! i)) \<longleftrightarrow>
        int (count_list (map snd (take i cs)) (snd (cs ! i))) < tLimit tier)"
proof -
  have "mem.window_open l t0 t0 (length cs) NewMemoryStore"
    using assms(4) by (simp add: mem.window_open_def mem_invar_new zero_count_def)
  moreover have "sorted (t0 # map fst cs)" using assms(2,3) by auto
  ultimately show ?thesis
    using mem.run_allow_window [of l t0 t0 cs NewMemoryStore] NewLimiter_Inr [OF assms(1)] assms(3,5)
    by (auto simp: zero_count_def)
qed

theorem allow_admits_limit_per_key_witness:
  "map (Allowed \<circ> fst) (run_allow MemoryStore_ops
       \<lparr>lTier = \<lparr>tLimit = 2, tWindow = minute, tFailOpen = False\<rparr>, lName = ''m''\<rparr>
       [(5, ''a''), (6, ''b''), (7, ''a''), (9, ''a''), (9, ''b'')] NewMemoryStore)
     = [True, True, True, False, True]
   \<and> \<not> Allowed (fst (run_allow MemoryStore_ops
       \<lparr>lTier = \<lparr>tLimit = 2, tWindow = minute, tFailOpen = False\<rparr>, lName = ''m''\<rparr>
       [(5, ''a''), (6, ''b''), (7, ''a''), (9, ''a''), (9, ''b'')] NewMemoryStore ! 3))"
  using allow_admits_limit_per_key
    [of "''m''" "\<lparr>tLimit = 2, tWindow = minute, tFailOpen = False\<rparr>"
        "\<lparr>lTier = \<lparr>tLimit = 2, tWindow = minute, tFailOpen = False\<rparr>, lName = ''m''\<rparr>"
        "[(5, ''a''), (6, ''b''), (7, ''a''), (9, ''a''), (9, ''b'')]" 5 3]
  by (intro conjI) (code_simp, simp add: NewLimiter_def Tier_validate_def)

text \<open>
  C8: the failure limiter keeps the standing of every key. After any history of failed and successful
  authentications of any keys, in the order of their instants and starting with an empty store, a check
  of a key at a later instant answers without an error and admits it exactly when the standing the
  history gives that key has no lockout in force; otherwise the wait it tells is what is left of the
  lockout.
\<close>

theorem check_follows_standing:
  assumes "NewAuthLimiter name tier = Inr a" and "k \<noteq> []"
    and "sorted (map fst es @ [u])" and "\<forall>(t, k', right) \<in> set es. k' \<noteq> []"
    and "int (length es) < 2 ^ 63"
  shows "\<exists>d. fst (Check MemoryStore_ops a False u k (run_attempts MemoryStore_ops a es NewMemoryStore)) = (d, None)
    \<and> (case locked_until tier u (standing_of tier k es clean) of
         None \<Rightarrow> Allowed d
       | Some e \<Rightarrow> \<not> Allowed d \<and> RetryAfter d = e - u)"
proof -
  have tier: "AuthTier_validate (alTier a) = Inr ()" "alTier a = tier"
    using NewAuthLimiter_Inr [OF assms(1)] by auto
  define t0 where "t0 = hd (map fst es @ [u])"
  let ?s = "run_attempts MemoryStore_ops a es NewMemoryStore"
  have upto: "\<forall>t \<in> set (t0 # map fst es). t \<le> u" and t0_sorted: "sorted (t0 # map fst es)"
    using assms(3) by (cases es; simp add: t0_def sorted_append)+
  have t0_last: "last (t0 # map fst es) \<le> u" using upto last_in_set [of "t0 # map fst es"] by blast
  have "mem.bounded (length es) t0 NewMemoryStore"
    using assms(5) by (simp add: mem.bounded_def mem_invar_new zero_count_def)
  moreover have "mem.shows_standing a k t0 clean NewMemoryStore"
    by (simp add: mem.shows_standing_def clean_def mem.left_def zero_count_def)
  ultimately have "mem_invar ?s \<and> mem.shows_standing a k (last (t0 # map fst es)) (standing_of (alTier a) k es clean) ?s"
    using mem.run_attempts_shows [OF _ _ t0_sorted assms(4) tier(1)] by blast
  then have "mem_invar ?s" "mem.shows_standing a k u (standing_of tier k es clean) ?s"
    using mem.shows_standing_later [OF _ t0_last] by (simp_all add: tier(2))
  from mem.check_shows [OF this(1) assms(2) this(2) tier(1)] show ?thesis unfolding tier(2) by force
qed

text \<open>A key that fails six times, succeeds and climbs again is under the lock of the first climb.\<close>

theorem check_follows_standing_witness:
  "\<exists>d. fst (Check MemoryStore_ops \<lparr>alTier = Auth DefaultTiers, alName = ''auth''\<rparr> False (20 + 30 * second) ''ip''
       (run_attempts MemoryStore_ops \<lparr>alTier = Auth DefaultTiers, alName = ''auth''\<rparr>
          (map (\<lambda>t. (t, ''ip'', False)) [0, 1, 2, 3, 4, 5] @ [(6, ''ip'', True), (7, ''jp'', False)]
           @ map (\<lambda>t. (t, ''ip'', False)) [8, 9, 10, 11, 12, 13]) NewMemoryStore)) = (d, None)
     \<and> \<not> Allowed d \<and> RetryAfter d = 5 + minute - (20 + 30 * second)"
proof -
  let ?es = "map (\<lambda>t. (t, ''ip'', False)) [0, 1, 2, 3, 4, 5] @ [(6, ''ip'', True), (7, ''jp'', False)]
    @ map (\<lambda>t. (t, ''ip'', False)) [8, 9, 10, 11, 12, 13 :: time]"
  have "NewAuthLimiter ''auth'' (Auth DefaultTiers) = Inr \<lparr>alTier = Auth DefaultTiers, alName = ''auth''\<rparr>"
    by (simp add: NewAuthLimiter_def AuthTier_validate_def DefaultTiers_def)
  moreover have "locked_until (Auth DefaultTiers) (20 + 30 * second) (standing_of (Auth DefaultTiers) ''ip'' ?es clean)
      = Some (5 + minute)" by code_simp
  ultimately show ?thesis
    using check_follows_standing [of "''auth''" "Auth DefaultTiers" _ "''ip''" ?es "20 + 30 * second"] by simp
qed

text \<open>
  C9: the closed form for one run of failures of one key. After failures of a key on an empty store at the
  instants \<open>t1 # ts\<close>, all before the count's life of \<open>Horizon\<close> from the first of them ends, a check at \<open>u\<close>
  admits the key if and only if the failures are within the free attempts, or the lockout of their number
  has been served since the last of them, or the count of the first of them has expired.
\<close>

theorem check_after_failures:
  assumes "NewAuthLimiter name tier = Inr a" and "k \<noteq> []"
    and "sorted (t1 # ts)" and "\<forall>t \<in> set ts. t < t1 + aHorizon tier"
    and "int (length (t1 # ts)) < 2 ^ 63" and "last (t1 # ts) \<le> u"
  shows "Allowed (fst (fst (Check MemoryStore_ops a False u k
           (run_failures MemoryStore_ops a k (t1 # ts) NewMemoryStore)))) \<longleftrightarrow>
         int (length (t1 # ts)) \<le> aLimit tier
       \<or> last (t1 # ts) + lockout tier (int (length (t1 # ts))) \<le> u
       \<or> t1 + aHorizon tier \<le> u"
proof -
  have tier: "AuthTier_validate (alTier a) = Inr ()" "alTier a = tier"
    using NewAuthLimiter_Inr [OF assms(1)] by auto
  obtain d s' where first: "RecordFailure MemoryStore_ops a False t1 k NewMemoryStore = ((d, None), s')"
    "mem.failed a k (t1 + aHorizon tier) 1 t1 s'"
    using mem.failed_first [OF mem_invar_new assms(2) tier(1), of t1] tier by auto
  have "mem.failed a k (t1 + aHorizon tier) (1 + int (length ts)) (last (t1 # ts))
      (run_failures MemoryStore_ops a k ts s')"
    using assms tier by (intro mem.failed_run first(2)) auto
  from mem.failed_check [OF this assms(6,2) tier(1)] show ?thesis
    using first(1) tier by (simp add: ac_simps)
qed

theorem check_after_failures_witness:
  "\<not> Allowed (fst (fst (Check MemoryStore_ops \<lparr>alTier = Auth DefaultTiers, alName = ''auth''\<rparr> False
       (5 + 30 * second) ''ip''
       (run_failures MemoryStore_ops \<lparr>alTier = Auth DefaultTiers, alName = ''auth''\<rparr> ''ip''
          [0, 1, 2, 3, 4, 5] NewMemoryStore))))"
  using check_after_failures
    [of "''auth''" "Auth DefaultTiers" "\<lparr>alTier = Auth DefaultTiers, alName = ''auth''\<rparr>" "''ip''"
        0 "[1, 2, 3, 4, 5]" "5 + 30 * second"]
  by (simp add: NewAuthLimiter_def AuthTier_validate_def DefaultTiers_def lockout_def maxShift_def
      wrap64_def)

lemma default_doubling:
  "\<forall>i \<in> set [0..<63]. (let d = wrap64 (minute * 2 ^ i) in if d \<le> 0 \<or> hour < d then hour else d)
     = (if i < 6 then minute * 2 ^ i else hour)"
  by code_simp

text \<open>
  C39: the shipped authentication tier locks for one minute after the sixth failure, doubles with
  every further one and stays at one hour, for every number of failures: the 64-bit shift that
  computes the doubling never escapes the cap.
\<close>

theorem default_lockout_curve:
  "lockout (Auth DefaultTiers) n =
     (if n \<le> 5 then 0 else if n \<le> 11 then minute * 2 ^ nat (n - 6) else hour)"
proof (cases "5 < n \<and> n - 6 \<le> 62")
  case True
  then have mem: "nat (n - 6) \<in> set [0..<63]" and "n - 5 - 1 = n - 6" and six: "nat (n - 6) < 6 \<longleftrightarrow> n \<le> 11"
    by auto
  have "lockout (Auth DefaultTiers) n =
      (let d = wrap64 (minute * 2 ^ nat (n - 6)) in if d \<le> 0 \<or> hour < d then hour else d)"
    using True by (simp add: lockout_def DefaultTiers_def maxShift_def Let_def)
  also have "\<dots> = (if n \<le> 11 then minute * 2 ^ nat (n - 6) else hour)"
    using default_doubling [rule_format, OF mem] unfolding six .
  finally show ?thesis using True by simp
next
  case False
  then show ?thesis by (auto simp: lockout_def DefaultTiers_def maxShift_def Let_def)
qed

text \<open>
  C40: the documented curve holds for every number of failures when the odd part of the window is small
  against the cap: if the window is \<open>q\<close> times a power of two and \<open>q\<close> times the cap stays below \<open>2 ^ 63\<close>, then
  beyond the free attempts the lockout is the smaller of the cap and the window doubled with every
  further failure, although the shift that computes it wraps round in 64 bits.
\<close>

theorem lockout_follows_curve:
  assumes "AuthTier_validate t = Inr ()" and "aWindow t = q * 2 ^ j" and "q * aCap t < 2 ^ 63" and "aLimit t < n"
  shows "lockout t n = min (aCap t) (aWindow t * 2 ^ nat (n - aLimit t - 1))"
proof (cases "aWindow t * 2 ^ nat (n - aLimit t - 1) < 2 ^ 63")
  case True
  then show ?thesis using lockout_exact [OF assms(1,4)] by simp
next
  case False
  let ?i = "nat (n - aLimit t - 1)"
  have pos: "0 < aWindow t" "0 < aCap t" using assms(1) by (auto simp: AuthTier_validate_def split: if_splits)
  then have q: "0 < q" using assms(2) by (simp add: zero_less_mult_iff)
  have prod: "aWindow t * 2 ^ ?i = q * 2 ^ (j + ?i)" by (simp add: assms(2) power_add)
  have "aCap t \<le> q * aCap t" using q pos by simp
  then have cap: "aCap t \<le> aWindow t * 2 ^ ?i" using False assms(3) by linarith
  have "wrap64 (aWindow t * 2 ^ ?i) \<le> 0 \<or> aCap t < wrap64 (aWindow t * 2 ^ ?i)"
    unfolding prod using False q pos assms(3) by (intro wrap64_above) (simp_all add: prod)
  then have "lockout t n = aCap t" using assms(4) by (auto simp: lockout_def Let_def)
  then show ?thesis using cap by simp
qed

theorem lockout_follows_curve_witness:
  "lockout \<lparr>aLimit = 5, aWindow = minute, aHorizon = hour, aCap = 5 * minute\<rparr> 40 = 5 * minute
   \<and> lockout \<lparr>aLimit = 5, aWindow = minute, aHorizon = hour, aCap = 5 * minute\<rparr> 8 = 4 * minute"
proof -
  let ?t = "\<lparr>aLimit = 5, aWindow = minute, aHorizon = hour, aCap = 5 * minute\<rparr>"
  have "lockout ?t n = min (5 * minute) (minute * 2 ^ nat (n - 6))" if "5 < n" for n
    using lockout_follows_curve [of ?t 29296875 11 n] that by (simp add: AuthTier_validate_def)
  from this [of 40] this [of 8] show ?thesis by simp
qed

text \<open>
  Without that bound the shift can wrap round to a small positive number. For a valid tier whose window is
  \<open>2 ^ 32 + 1\<close> nanoseconds the lockout reaches the cap of one hour and then, at the thirty-third doubling,
  falls back to \<open>2 ^ 32\<close> nanoseconds.
\<close>

lemma lockout_wraps_below_cap:
  "AuthTier_validate \<lparr>aLimit = 5, aWindow = 2 ^ 32 + 1, aHorizon = 24 * hour, aCap = hour\<rparr> = Inr ()
   \<and> lockout \<lparr>aLimit = 5, aWindow = 2 ^ 32 + 1, aHorizon = 24 * hour, aCap = hour\<rparr> 36 = hour
   \<and> lockout \<lparr>aLimit = 5, aWindow = 2 ^ 32 + 1, aHorizon = 24 * hour, aCap = hour\<rparr> 38 = 2 ^ 32
   \<and> (2 :: int) ^ 32 < hour"
  by (simp add: AuthTier_validate_def lockout_def maxShift_def wrap64_def)

end
