(* ===== verification/Failover.thy ===== *)
theory Failover
  imports Rate_Limit
begin

text \<open>
  \<^verbatim>\<open>internal/counter/failover.go\<close>: a counter store that prefers a network-backed primary and
  serves from an in-process fallback while the primary is out. The primary is a parameter. The
  operations are modelled as one request each; the race between requests and the background reprobe
  loop is modelled as a step relation whose steps are the atomic actions of the two sides.
\<close>

section \<open>The operations\<close>

definition defaultReprobeInterval :: duration where
  "defaultReprobeInterval = 5 * minute"

definition maxReprobeInterval :: duration where
  "maxReprobeInterval = hour"

record ('p, 'm) FailoverStore =
  primary :: 'p
  fallback :: 'm
  degraded :: bool
  degradedCh :: bool

definition markDegraded :: "('p, 'm) FailoverStore \<Rightarrow> ('p, 'm) FailoverStore" where
  "markDegraded f = (if degraded f then f else f\<lparr>degraded := True, degradedCh := True\<rparr>)"

text \<open>Serving one call from the fallback.\<close>

definition from_fallback ::
  "('m \<Rightarrow> 'r \<times> 'm) \<Rightarrow> ('p, 'm) FailoverStore \<Rightarrow> 'r \<times> ('p, 'm) FailoverStore" where
  "from_fallback call f = (case call (fallback f) of (r, m) \<Rightarrow> (r, f\<lparr>fallback := m\<rparr>))"

definition Failover_Increment ::
  "'p Store \<Rightarrow> 'm Store \<Rightarrow> bool \<Rightarrow> time \<Rightarrow> string \<Rightarrow> int \<Rightarrow> duration \<Rightarrow>
     ('p, 'm) FailoverStore \<Rightarrow> Count result \<times> ('p, 'm) FailoverStore" where
  "Failover_Increment P M cancelled now key delta ttl f =
     (if \<not> degraded f then
        (case sIncrement P cancelled now key delta ttl (primary f) of
           (Inr c, p) \<Rightarrow> (Inr c, f\<lparr>primary := p\<rparr>)
         | (Inl e, p) \<Rightarrow>
             if e \<noteq> ErrStoreUnavailable then (Inl e, f\<lparr>primary := p\<rparr>)
             else from_fallback (sIncrement M cancelled now key delta ttl)
                    (markDegraded (f\<lparr>primary := p\<rparr>)))
      else from_fallback (sIncrement M cancelled now key delta ttl) f)"

definition Failover_Get ::
  "'p Store \<Rightarrow> 'm Store \<Rightarrow> bool \<Rightarrow> time \<Rightarrow> string \<Rightarrow>
     ('p, 'm) FailoverStore \<Rightarrow> Count result \<times> ('p, 'm) FailoverStore" where
  "Failover_Get P M cancelled now key f =
     (if \<not> degraded f then
        (case sGet P cancelled now key (primary f) of
           (Inr c, p) \<Rightarrow> (Inr c, f\<lparr>primary := p\<rparr>)
         | (Inl e, p) \<Rightarrow>
             if e \<noteq> ErrStoreUnavailable then (Inl e, f\<lparr>primary := p\<rparr>)
             else from_fallback (sGet M cancelled now key) (markDegraded (f\<lparr>primary := p\<rparr>)))
      else from_fallback (sGet M cancelled now key) f)"

definition Failover_Delete ::
  "'p Store \<Rightarrow> 'm Store \<Rightarrow> bool \<Rightarrow> time \<Rightarrow> string \<Rightarrow>
     ('p, 'm) FailoverStore \<Rightarrow> unit result \<times> ('p, 'm) FailoverStore" where
  "Failover_Delete P M cancelled now key f =
     (if \<not> degraded f then
        (case sDelete P cancelled now key (primary f) of
           (Inr c, p) \<Rightarrow> (Inr c, f\<lparr>primary := p\<rparr>)
         | (Inl e, p) \<Rightarrow>
             if e \<noteq> ErrStoreUnavailable then (Inl e, f\<lparr>primary := p\<rparr>)
             else from_fallback (sDelete M cancelled now key) (markDegraded (f\<lparr>primary := p\<rparr>)))
      else from_fallback (sDelete M cancelled now key) f)"

definition Failover_ops :: "'p Store \<Rightarrow> 'm Store \<Rightarrow> ('p, 'm) FailoverStore Store" where
  "Failover_ops P M =
     \<lparr>sIncrement = Failover_Increment P M, sGet = Failover_Get P M, sDelete = Failover_Delete P M\<rparr>"

definition nextInterval :: "duration \<Rightarrow> duration \<Rightarrow> duration" where
  "nextInterval cur mx = (let next = wrap64 (cur * 2) in if mx < next \<or> next \<le> 0 then mx else next)"

section \<open>The reprobe loop beside the requests\<close>

text \<open>
  The loop is idle in its outer \<^verbatim>\<open>select\<close>, at the head of its inner loop, asleep on the timer, in a
  probe, or has returned. A request that has won the compare-and-swap of \<^verbatim>\<open>markDegraded\<close> and has not
  reached its channel send yet is counted in \<open>sending\<close>.
\<close>

datatype loop = Idle | Head duration | Sleep duration | Probe duration | Returned

record failover_state =
  fDegraded :: bool
  fSignal :: bool
  sending :: nat
  reprobe :: loop
  fDone :: bool

definition failover_init :: failover_state where
  "failover_init = \<lparr>fDegraded = False, fSignal = False, sending = 0, reprobe = Idle, fDone = False\<rparr>"

inductive failover_step :: "duration \<Rightarrow> duration \<Rightarrow> failover_state \<Rightarrow> failover_state \<Rightarrow> bool"
  for base mx :: duration where
  cas: "\<not> fDegraded s \<Longrightarrow>
    failover_step base mx s (s\<lparr>fDegraded := True, sending := Suc (sending s)\<rparr>)"
| send: "0 < sending s \<Longrightarrow>
    failover_step base mx s (s\<lparr>sending := sending s - 1, fSignal := True\<rparr>)"
| wake: "reprobe s = Idle \<Longrightarrow> fSignal s \<Longrightarrow>
    failover_step base mx s (s\<lparr>fSignal := False, reprobe := Head base\<rparr>)"
| head_sleep: "reprobe s = Head i \<Longrightarrow> fDegraded s \<Longrightarrow>
    failover_step base mx s (s\<lparr>reprobe := Sleep i\<rparr>)"
| head_leave: "reprobe s = Head i \<Longrightarrow> \<not> fDegraded s \<Longrightarrow>
    failover_step base mx s (s\<lparr>reprobe := Idle\<rparr>)"
| fire: "reprobe s = Sleep i \<Longrightarrow> failover_step base mx s (s\<lparr>reprobe := Probe i\<rparr>)"
| healthy: "reprobe s = Probe i \<Longrightarrow>
    failover_step base mx s (s\<lparr>fDegraded := False, reprobe := Idle\<rparr>)"
| unhealthy: "reprobe s = Probe i \<Longrightarrow>
    failover_step base mx s (s\<lparr>reprobe := Head (nextInterval i mx)\<rparr>)"
| close: "failover_step base mx s (s\<lparr>fDone := True\<rparr>)"
| exit_idle: "reprobe s = Idle \<Longrightarrow> fDone s \<Longrightarrow> failover_step base mx s (s\<lparr>reprobe := Returned\<rparr>)"
| exit_sleep: "reprobe s = Sleep i \<Longrightarrow> fDone s \<Longrightarrow>
    failover_step base mx s (s\<lparr>reprobe := Returned\<rparr>)"

section \<open>The reprobe interval\<close>

lemma nextInterval_exact:
  assumes "0 < cur" and "cur \<le> mx" and "mx < 2 ^ 62"
  shows "nextInterval cur mx = min (2 * cur) mx"
proof -
  have "wrap64 (cur * 2) = cur * 2" using assms by (intro wrap64_id) auto
  then show ?thesis using assms by (simp add: nextInterval_def Let_def min_def)
qed

lemma nextInterval_range: "0 < mx \<Longrightarrow> 0 < nextInterval cur mx \<and> nextInterval cur mx \<le> mx"
  by (auto simp: nextInterval_def Let_def)

section \<open>Invariants of the race\<close>

text \<open>The delay the loop is working with, if it is probing.\<close>

fun probing :: "loop \<Rightarrow> duration option" where
  "probing (Head i) = Some i"
| "probing (Sleep i) = Some i"
| "probing (Probe i) = Some i"
| "probing Idle = None"
| "probing Returned = None"

text \<open>
  While the loop is probing, the store is degraded and no wake-up is under way; while it is idle, one
  wake-up is under way exactly when the store is degraded.
\<close>

definition wakeup_inv :: "failover_state \<Rightarrow> bool" where
  "wakeup_inv s \<longleftrightarrow>
     (case reprobe s of
        Idle \<Rightarrow> of_bool (fDegraded s) = of_bool (fSignal s) + sending s
      | Returned \<Rightarrow> True
      | _ \<Rightarrow> fDegraded s \<and> \<not> fSignal s \<and> sending s = 0)"

lemma wakeup_inv_step:
  assumes "failover_step base mx s s'" and "wakeup_inv s"
  shows "wakeup_inv s'"
  using assms by (cases rule: failover_step.cases) (auto simp: wakeup_inv_def of_bool_def split: loop.splits if_splits)

definition interval_inv :: "duration \<Rightarrow> duration \<Rightarrow> failover_state \<Rightarrow> bool" where
  "interval_inv base mx s \<longleftrightarrow> (\<forall>i. probing (reprobe s) = Some i \<longrightarrow> 0 < i \<and> i \<le> max base mx)"

lemma interval_inv_step:
  assumes "failover_step base mx s s'" and "interval_inv base mx s" and "0 < base" and "0 < mx"
  shows "interval_inv base mx s'"
  using assms nextInterval_range [OF assms(4)]
  by (cases rule: failover_step.cases) (auto simp: interval_inv_def le_max_iff_disj)

lemma failover_reachable:
  assumes "(failover_step base mx)\<^sup>*\<^sup>* failover_init s" and "0 < base" and "0 < mx"
  shows "wakeup_inv s \<and> interval_inv base mx s"
  using assms(1)
proof induction
  case base
  then show ?case by (simp add: wakeup_inv_def interval_inv_def failover_init_def)
next
  case (step s s')
  then show ?case using wakeup_inv_step interval_inv_step assms(2,3) by blast
qed

section \<open>Properties\<close>

text \<open>
  C10: no wake-up is lost. In every reachable interleaving of requests, channel sends, timer firings
  and probes, a degraded store whose loop has not been stopped either is being probed, or has exactly
  one wake-up on its way to the idle loop: one signal in the channel or one request about to send it.
  The delay of every probe is positive and at most the larger of the first delay and the ceiling.
\<close>

theorem failover_no_lost_wakeup:
  assumes "(failover_step base mx)\<^sup>*\<^sup>* failover_init s" and "0 < base" and "0 < mx"
    and "fDegraded s" and "reprobe s \<noteq> Returned"
  shows "(\<exists>i. probing (reprobe s) = Some i \<and> 0 < i \<and> i \<le> max base mx)
    \<or> (reprobe s = Idle \<and> (fSignal s \<longleftrightarrow> sending s = 0) \<and> sending s \<le> 1)"
  using failover_reachable [OF assms(1-3)] assms(4,5)
  by (auto simp: wakeup_inv_def interval_inv_def of_bool_def split: loop.splits if_splits)

theorem failover_no_lost_wakeup_witness:
  "(failover_step minute hour)\<^sup>*\<^sup>* failover_init (failover_init\<lparr>fDegraded := True, sending := 1\<rparr>)
   \<and> \<not> fSignal (failover_init\<lparr>fDegraded := True, sending := 1\<rparr>)"
proof -
  let ?s = "failover_init\<lparr>fDegraded := True, sending := 1\<rparr>"
  have "failover_step minute hour failover_init
      (failover_init\<lparr>fDegraded := True, sending := Suc (sending failover_init)\<rparr>)"
    by (rule failover_step.cas) (simp add: failover_init_def)
  then have run: "(failover_step minute hour)\<^sup>*\<^sup>* failover_init ?s" by (simp add: failover_init_def)
  show ?thesis
    using run failover_no_lost_wakeup [OF run] by (simp add: failover_init_def)
qed

lemma increment_on_fallback:
  assumes "degraded f \<or> fst (sIncrement P c t k d w (primary f)) = Inl ErrStoreUnavailable"
  shows "\<exists>f'. Failover_Increment P M c t k d w f = (fst (sIncrement M c t k d w (fallback f)), f')
    \<and> fallback f' = snd (sIncrement M c t k d w (fallback f)) \<and> (degraded f \<longrightarrow> degraded f')"
proof (cases "degraded f")
  case True
  then show ?thesis by (simp add: Failover_Increment_def from_fallback_def split: prod.split)
next
  case False
  with assms obtain p where "sIncrement P c t k d w (primary f) = (Inl ErrStoreUnavailable, p)"
    by (metis prod.collapse)
  with False show ?thesis
    by (simp add: Failover_Increment_def from_fallback_def markDegraded_def split: prod.split)
qed

lemma allow_on_fallback:
  assumes "degraded f \<or> (\<forall>c t k d w p. fst (sIncrement P c t k d w p) = Inl ErrStoreUnavailable)"
  shows "\<exists>f'. Allow (Failover_ops P M) l c t k f = (fst (Allow M l c t k (fallback f)), f')
    \<and> fallback f' = snd (Allow M l c t k (fallback f)) \<and> (degraded f \<longrightarrow> degraded f')"
proof -
  obtain f' where f': "Failover_Increment P M c t (Limiter_key l k) 1 (tWindow (lTier l)) f
      = (fst (sIncrement M c t (Limiter_key l k) 1 (tWindow (lTier l)) (fallback f)), f')"
    "fallback f' = snd (sIncrement M c t (Limiter_key l k) 1 (tWindow (lTier l)) (fallback f))"
    "degraded f \<longrightarrow> degraded f'"
    using increment_on_fallback [of f P c t "Limiter_key l k" 1 "tWindow (lTier l)" M] assms by blast
  then show ?thesis
    by (cases "sIncrement M c t (Limiter_key l k) 1 (tWindow (lTier l)) (fallback f)")
      (auto simp: Allow_def Failover_ops_def split: sum.split)
qed

text \<open>
  C11: while the primary is out, the limiter over the failover store decides every request exactly as
  a limiter over the fallback store alone does, whatever the request sequence: limits stay enforced
  on the instance and the outage is not reported to the limiter.
\<close>

theorem failover_outage_enforced:
  assumes "degraded f \<or> (\<forall>c t k d w p. fst (sIncrement P c t k d w p) = Inl ErrStoreUnavailable)"
  shows "run_allow (Failover_ops P M) l cs f = run_allow M l cs (fallback f)"
  using assms
proof (induction cs arbitrary: f)
  case Nil
  then show ?case by simp
next
  case (Cons c cs)
  obtain t k where c: "c = (t, k)" by force
  obtain f' where "Allow (Failover_ops P M) l False t k f = (fst (Allow M l False t k (fallback f)), f')"
    "fallback f' = snd (Allow M l False t k (fallback f))" "degraded f \<longrightarrow> degraded f'"
    using allow_on_fallback [OF Cons.prems] by blast
  then show ?case using Cons.IH [of f'] Cons.prems c by (auto split: prod.splits)
qed

theorem failover_outage_enforced_witness:
  "map (Allowed \<circ> fst) (run_allow
       (Failover_ops \<lparr>sIncrement = \<lambda>_ _ _ _ _ p. (Inl ErrStoreUnavailable, p),
          sGet = \<lambda>_ _ _ p. (Inl ErrStoreUnavailable, p),
          sDelete = \<lambda>_ _ _ p. (Inl ErrStoreUnavailable, p)\<rparr> MemoryStore_ops)
       \<lparr>lTier = \<lparr>tLimit = 1, tWindow = minute, tFailOpen = True\<rparr>, lName = ''publish''\<rparr>
       [(0, ''ip''), (1, ''ip'')]
       \<lparr>primary = (), fallback = NewMemoryStore, degraded = False, degradedCh = False\<rparr>)
   = [True, False]"
  by (subst failover_outage_enforced) (simp, code_simp)

end
