(* ===== verification/Utf8.thy ===== *)
theory Utf8
  imports Go_Strings
begin

text \<open>
  Go's \<^verbatim>\<open>unicode/utf8\<close> as the program uses it: decoding of the first code point of a byte
  sequence, the code points a \<^verbatim>\<open>range\<close> loop over a string visits, and validity. An invalid byte
  decodes to U+FFFD with width one. The \<^verbatim>\<open>unicode\<close> categories the validators consult are given
  by their code point ranges (unchanged since Unicode 15).
\<close>

definition RuneError :: nat where
  "RuneError = 0xFFFD"

definition cont :: "nat \<Rightarrow> bool" where
  "cont b \<longleftrightarrow> 0x80 \<le> b \<and> b \<le> 0xBF"

text \<open>The accept range of the second byte depends on the first.\<close>

definition accept2 :: "nat \<Rightarrow> nat \<Rightarrow> bool" where
  "accept2 b0 b1 \<longleftrightarrow>
     (if b0 = 0xE0 then 0xA0 else if b0 = 0xF0 then 0x90 else 0x80) \<le> b1 \<and>
     b1 \<le> (if b0 = 0xED then 0x9F else if b0 = 0xF4 then 0x8F else 0xBF)"

text \<open>A lead byte announces the number of bytes; anything else is an error of width one.\<close>

definition decode_multi :: "nat \<Rightarrow> nat list \<Rightarrow> (nat \<times> nat) option" where
  "decode_multi b0 bs =
     (if 0xC2 \<le> b0 \<and> b0 \<le> 0xDF then
        (case bs of
           b1 # _ \<Rightarrow> if accept2 b0 b1 then Some ((b0 - 0xC0) * 64 + (b1 - 0x80), 2) else None
         | _ \<Rightarrow> None)
      else if 0xE0 \<le> b0 \<and> b0 \<le> 0xEF then
        (case bs of
           b1 # b2 # _ \<Rightarrow>
             if accept2 b0 b1 \<and> cont b2
             then Some ((b0 - 0xE0) * 4096 + (b1 - 0x80) * 64 + (b2 - 0x80), 3) else None
         | _ \<Rightarrow> None)
      else if 0xF0 \<le> b0 \<and> b0 \<le> 0xF4 then
        (case bs of
           b1 # b2 # b3 # _ \<Rightarrow>
             if accept2 b0 b1 \<and> cont b2 \<and> cont b3
             then Some ((b0 - 0xF0) * 262144 + (b1 - 0x80) * 4096 + (b2 - 0x80) * 64 + (b3 - 0x80), 4)
             else None
         | _ \<Rightarrow> None)
      else None)"

definition DecodeRune :: "string \<Rightarrow> nat \<times> nat" where
  "DecodeRune s =
     (case s of
        [] \<Rightarrow> (RuneError, 0)
      | c # cs \<Rightarrow>
          if byte c < 0x80 then (byte c, 1)
          else (case decode_multi (byte c) (map byte cs) of
                  None \<Rightarrow> (RuneError, 1)
                | Some rw \<Rightarrow> rw))"

lemma accept2_ge: "accept2 b0 b1 \<Longrightarrow> 128 \<le> b1"
  by (auto simp: accept2_def split: if_splits)

lemma decode_multi_Some:
  assumes "decode_multi b0 bs = Some (r, w)"
  shows "1 < w \<and> (\<forall>b \<in> set (take (w - 1) bs). 128 \<le> b)"
proof (cases bs)
  case Nil
  with assms show ?thesis by (simp add: decode_multi_def split: if_splits)
next
  case (Cons b1 bs1)
  note c1 = this
  show ?thesis
  proof (cases bs1)
    case Nil
    with assms c1 show ?thesis
      by (auto simp: decode_multi_def accept2_ge split: if_splits)
  next
    case (Cons b2 bs2)
    with assms c1 show ?thesis
      by (cases bs2) (auto simp: decode_multi_def cont_def accept2_ge split: if_splits)
  qed
qed

lemma DecodeRune_width: "s \<noteq> [] \<Longrightarrow> 1 \<le> snd (DecodeRune s)"
  by (auto simp: DecodeRune_def dest: decode_multi_Some split: list.splits option.splits)

function runes :: "string \<Rightarrow> nat list" where
  "runes s =
     (if s = [] then []
      else fst (DecodeRune s) # runes (drop (snd (DecodeRune s)) s))"
  by pat_completeness auto
termination
  by (relation "measure length") (use DecodeRune_width in fastforce)+

function ValidString :: "string \<Rightarrow> bool" where
  "ValidString s =
     (if s = [] then True
      else DecodeRune s \<noteq> (RuneError, 1) \<and> ValidString (drop (snd (DecodeRune s)) s))"
  by pat_completeness auto
termination
  by (relation "measure length") (use DecodeRune_width in fastforce)+

declare runes.simps [simp del] ValidString.simps [simp del]

lemma runes_Nil [simp]: "runes [] = []"
  by (simp add: runes.simps)

lemma ValidString_Nil [simp]: "ValidString []"
  by (simp add: ValidString.simps)

lemma runes_code [code]:
  "runes [] = []"
  "runes (c # cs) = (case DecodeRune (c # cs) of (r, w) \<Rightarrow> r # runes (drop w (c # cs)))"
  by (simp_all add: runes.simps [of "c # cs"] split: prod.split)

lemma ValidString_code [code]:
  "ValidString [] = True"
  "ValidString (c # cs) =
     (case DecodeRune (c # cs) of (r, w) \<Rightarrow> (r, w) \<noteq> (RuneError, 1) \<and> ValidString (drop w (c # cs)))"
  by (simp_all add: ValidString.simps [of "c # cs"] split: prod.split)

section \<open>Categories\<close>

definition IsControl :: "nat \<Rightarrow> bool" where
  "IsControl r \<longleftrightarrow> r \<le> 0x1F \<or> (0x7F \<le> r \<and> r \<le> 0x9F)"

definition Cf_ranges :: "(nat \<times> nat) list" where
  "Cf_ranges =
     [(0xAD, 0xAD), (0x600, 0x605), (0x61C, 0x61C), (0x6DD, 0x6DD), (0x70F, 0x70F),
      (0x890, 0x891), (0x8E2, 0x8E2), (0x180E, 0x180E), (0x200B, 0x200F), (0x202A, 0x202E),
      (0x2060, 0x2064), (0x2066, 0x206F), (0xFEFF, 0xFEFF), (0xFFF9, 0xFFFB),
      (0x110BD, 0x110BD), (0x110CD, 0x110CD), (0x13430, 0x1343F), (0x1BCA0, 0x1BCA3),
      (0x1D173, 0x1D17A), (0xE0001, 0xE0001), (0xE0020, 0xE007F)]"

definition is_Cf :: "nat \<Rightarrow> bool" where
  "is_Cf r \<longleftrightarrow> (\<exists>(lo, hi) \<in> set Cf_ranges. lo \<le> r \<and> r \<le> hi)"

definition is_Zl :: "nat \<Rightarrow> bool" where
  "is_Zl r \<longleftrightarrow> r = 0x2028"

definition is_Zp :: "nat \<Rightarrow> bool" where
  "is_Zp r \<longleftrightarrow> r = 0x2029"

section \<open>ASCII bytes survive decoding\<close>

lemma DecodeRune_ascii: "byte c < 128 \<Longrightarrow> DecodeRune (c # s) = (byte c, 1)"
  by (simp add: DecodeRune_def)

lemma DecodeRune_multi:
  assumes "1 < snd (DecodeRune s)" and "c \<in> set (take (snd (DecodeRune s)) s)"
  shows "128 \<le> byte c"
proof (cases s)
  case Nil
  with assms show ?thesis by simp
next
  case (Cons c0 cs)
  with assms(1) obtain r w where d: "decode_multi (byte c0) (map byte cs) = Some (r, w)"
    and w: "snd (DecodeRune s) = w" and c0: "128 \<le> byte c0"
    by (auto simp: DecodeRune_def split: if_splits option.splits)
  from decode_multi_Some [OF d] have "1 < w" and b: "\<forall>b \<in> set (take (w - 1) (map byte cs)). 128 \<le> b"
    by auto
  with assms(2) w Cons have "c = c0 \<or> c \<in> set (take (w - 1) cs)"
    by (cases w) auto
  with b c0 show ?thesis by (auto simp: take_map)
qed

lemma ascii_in_runes: "c \<in> set s \<Longrightarrow> byte c < 128 \<Longrightarrow> byte c \<in> set (runes s)"
proof (induction s rule: runes.induct)
  case (1 s)
  then have ne: "s \<noteq> []" by auto
  let ?w = "snd (DecodeRune s)"
  have run: "runes s = fst (DecodeRune s) # runes (drop ?w s)"
    using ne by (simp add: runes.simps [of s])
  consider "c \<in> set (drop ?w s)" | "c \<in> set (take ?w s)" "c \<notin> set (drop ?w s)"
    using "1.prems"(1) by (metis Un_iff append_take_drop_id set_append)
  then show ?case
  proof cases
    case 1
    then show ?thesis using "1.IH" [OF ne] "1.prems"(2) run by auto
  next
    case 2
    have "\<not> 1 < ?w" using DecodeRune_multi [of s c] 2(1) "1.prems"(2) by auto
    then have "?w = 1" using DecodeRune_width [OF ne] by simp
    with 2 ne have "s = c # tl s" by (cases s) auto
    then have "fst (DecodeRune s) = byte c" using DecodeRune_ascii "1.prems"(2) by (metis fst_conv)
    then show ?thesis using run by simp
  qed
qed

lemma runes_ascii: "\<forall>c \<in> set s. byte c < 128 \<Longrightarrow> runes s = map byte s"
proof (induction s)
  case Nil
  then show ?case by simp
next
  case (Cons c s)
  then show ?case by (simp add: runes.simps [of "c # s"] DecodeRune_ascii)
qed

lemma ValidString_ascii: "\<forall>c \<in> set s. byte c < 128 \<Longrightarrow> ValidString s"
proof (induction s)
  case Nil
  then show ?case by simp
next
  case (Cons c s)
  then show ?case
    by (simp add: ValidString.simps [of "c # s"] DecodeRune_ascii RuneError_def)
qed

text \<open>An ASCII byte ends whatever code point is being read, so decoding splits at it.\<close>

lemma decode_multi_ascii:
  assumes "x < 128"
  shows "decode_multi b0 (bs @ x # ys) = decode_multi b0 bs"
proof -
  have x: "\<not> accept2 b0 x" "\<not> cont x" using assms accept2_ge [of b0 x] by (auto simp: cont_def)
  consider "bs = []" | b1 where "bs = [b1]" | b1 b2 where "bs = [b1, b2]" | b1 b2 b3 cs where "bs = b1 # b2 # b3 # cs"
    by (metis list.exhaust)
  then show ?thesis using x by cases (auto simp: decode_multi_def split: list.splits)
qed

lemma decode_multi_width: "decode_multi b0 bs = Some (r, w) \<Longrightarrow> w \<le> Suc (length bs)"
  by (auto simp: decode_multi_def split: list.splits if_splits)

lemma runes_split:
  assumes "byte c < 128"
  shows "runes (a @ c # b) = runes a @ byte c # runes b"
proof (induction a rule: runes.induct)
  case (1 a)
  show ?case
  proof (cases a)
    case Nil
    then show ?thesis using assms by (simp add: runes.simps [of "c # b"] DecodeRune_ascii)
  next
    case (Cons x xs)
    have same: "DecodeRune (a @ c # b) = DecodeRune a"
      using decode_multi_ascii [OF assms, of "byte x" "map byte xs" "map byte b"] by (simp add: Cons DecodeRune_def)
    have "snd (DecodeRune a) \<le> length a"
      using decode_multi_width [of "byte x" "map byte xs"] by (auto simp: Cons DecodeRune_def split: option.splits)
    then have "runes (a @ c # b) = fst (DecodeRune a) # runes (drop (snd (DecodeRune a)) a @ c # b)"
      using runes.simps [of "a @ c # b"] by (simp add: same)
    also have "\<dots> = runes a @ byte c # runes b" using Cons 1 runes.simps [of a] by simp
    finally show ?thesis .
  qed
qed

section \<open>Encoding and spaces\<close>

text \<open>\<^verbatim>\<open>strings.Builder.WriteRune\<close>: a surrogate or a value past U+10FFFF is written as U+FFFD.\<close>

definition EncodeRune :: "nat \<Rightarrow> string" where
  "EncodeRune r =
     (let r = (if 0xD800 \<le> r \<and> r \<le> 0xDFFF \<or> 0x10FFFF < r then RuneError else r) in
      map char_of
        (if r < 0x80 then [r]
         else if r < 0x800 then [0xC0 + r div 64, 0x80 + r mod 64]
         else if r < 0x10000 then [0xE0 + r div 4096, 0x80 + r div 64 mod 64, 0x80 + r mod 64]
         else [0xF0 + r div 262144, 0x80 + r div 4096 mod 64, 0x80 + r div 64 mod 64, 0x80 + r mod 64]))"

lemma EncodeRune_byte: "byte c < 128 \<Longrightarrow> EncodeRune (byte c) = [c]"
  by (simp add: EncodeRune_def byte_def)

definition IsSpace :: "nat \<Rightarrow> bool" where
  "IsSpace r \<longleftrightarrow> (9 \<le> r \<and> r \<le> 13) \<or> (0x2000 \<le> r \<and> r \<le> 0x200A)
     \<or> r \<in> set [0x20, 0x85, 0xA0, 0x1680, 0x2028, 0x2029, 0x202F, 0x205F, 0x3000]"

section \<open>Lower case\<close>

text \<open>
  \<^verbatim>\<open>unicode.ToLower\<close> up to code points outside ASCII: beside the capital letters only U+0130 and
  U+212A have an ASCII lower case; every other code point outside ASCII stays outside ASCII, and
  which one it becomes cannot matter to a search for an ASCII marker.
\<close>

definition lower_rune :: "nat \<Rightarrow> nat" where
  "lower_rune r =
     (if 65 \<le> r \<and> r \<le> 90 then r + 32
      else if r = 0x130 then 0x69
      else if r = 0x212A then 0x6B
      else r)"

end
