(* ===== verification/Domain.thy ===== *)
theory Domain
  imports Utf8
begin

text \<open>
  \<^verbatim>\<open>internal/domain\<close>: the entities, the enumerations and the format validators. An enumeration
  whose values the database constrains by \<^verbatim>\<open>CHECK\<close> is a datatype; one whose values arrive as
  arbitrary text (an algorithm name, a scope kind of a presented token) stays a string with its
  named constants, and \<^verbatim>\<open>IsValid\<close> is a test on strings. A validator returns \<open>Inr ()\<close> for
  \<^verbatim>\<open>nil\<close>.
\<close>

section \<open>Identifiers\<close>

type_synonym OwnerID = string
type_synonym HandleID = string
type_synonym DeviceID = string
type_synonym PublicKeyID = string
type_synonym KeySetID = string
type_synonym AccessKeyID = string
type_synonym RefreshCredentialID = string
type_synonym LineageID = string
type_synonym LinkedIdentityID = string
type_synonym PairingID = string
type_synonym AdministratorID = string

section \<open>Status enumerations\<close>

datatype OwnerStatus = OwnerStatusActive | OwnerStatusSuspended | OwnerStatusDeleted

datatype CredentialStatus =
    CredentialStatusActive | CredentialStatusRotated | CredentialStatusRevoked
  | CredentialStatusExpired

datatype PairingStatus =
    PairingStatusPending | PairingStatusApproved | PairingStatusRedeemed | PairingStatusRevoked

datatype NameState = NameStateActive | NameStateQuarantined | NameStateRetired

datatype Visibility = VisibilityPublic | VisibilityProtected

datatype DeviceStatus = DeviceStatusActive | DeviceStatusRevoked

datatype KeyStatus = KeyStatusActive | KeyStatusRevoked

datatype AccessKeyStatus = AccessKeyStatusActive | AccessKeyStatusGrace | AccessKeyStatusRevoked

datatype AdminStatus = AdminStatusActive | AdminStatusDisabled

datatype ListKind = ListKindAllowlist | ListKindBlocklistTerm

datatype ListOverrideState = ListOverridePresent | ListOverrideRemoved

datatype ActorType = ActorTypeOwner | ActorTypeAdministrator | ActorTypeSystem

datatype TargetType =
    TargetTypeOwner | TargetTypeHandle | TargetTypeDevice | TargetTypePublicKey | TargetTypeKeySet
  | TargetTypeAccessKey | TargetTypeRefreshCredential | TargetTypeBlocklistEntry
  | TargetTypeAllowlistEntry | TargetTypeAuditLog

datatype AuditAction =
    AuditActionOwnerCreated | AuditActionOwnerDeleted
  | AuditActionHandleRegistered | AuditActionHandleRenamed | AuditActionHandleReclaimed
  | AuditActionHandleReleased | AuditActionHandleQuarantined
  | AuditActionDeviceRegistered | AuditActionDeviceRevoked
  | AuditActionKeyAdded | AuditActionKeyRevoked
  | AuditActionKeySetCreated | AuditActionKeySetRenamed | AuditActionKeySetDeleted
  | AuditActionKeySetDefaultChanged | AuditActionKeySetVisibilityChanged
  | AuditActionKeySetMemberAdded | AuditActionKeySetMemberRemoved
  | AuditActionAccessKeyCreated | AuditActionAccessKeyRotated | AuditActionAccessKeyRevoked
  | AuditActionCredentialIssued | AuditActionCredentialRotated | AuditActionCredentialRevoked
  | AuditActionCredentialReuseDetected
  | AuditActionBlocklistEntryAdded | AuditActionBlocklistEntryRemoved
  | AuditActionAllowlistEntryAdded | AuditActionAllowlistEntryRemoved
  | AuditActionAuditPseudonymized | AuditActionAuditPurged | AuditActionOwnerErased

section \<open>Algorithms\<close>

type_synonym Algorithm = string

definition AlgEd25519 :: Algorithm where "AlgEd25519 = ''ssh-ed25519''"
definition AlgECDSA256 :: Algorithm where "AlgECDSA256 = ''ecdsa-sha2-nistp256''"
definition AlgECDSA384 :: Algorithm where "AlgECDSA384 = ''ecdsa-sha2-nistp384''"
definition AlgECDSA521 :: Algorithm where "AlgECDSA521 = ''ecdsa-sha2-nistp521''"
definition AlgRSA :: Algorithm where "AlgRSA = ''ssh-rsa''"
definition AlgSKEd25519 :: Algorithm where "AlgSKEd25519 = ''sk-ssh-ed25519@openssh.com''"
definition AlgSKECDSA256 :: Algorithm where
  "AlgSKECDSA256 = ''sk-ecdsa-sha2-nistp256@openssh.com''"

lemmas algorithm_defs =
  AlgEd25519_def AlgECDSA256_def AlgECDSA384_def AlgECDSA521_def AlgRSA_def AlgSKEd25519_def
  AlgSKECDSA256_def

definition Algorithm_IsValid :: "Algorithm \<Rightarrow> bool" where
  "Algorithm_IsValid a \<longleftrightarrow>
     a \<in> {AlgEd25519, AlgECDSA256, AlgECDSA384, AlgECDSA521, AlgRSA, AlgSKEd25519, AlgSKECDSA256}"

definition MinRSABits :: int where "MinRSABits = 3072"

section \<open>Scopes\<close>

type_synonym ScopeKind = string

definition ScopeFullOwner :: ScopeKind where "ScopeFullOwner = ''full-owner''"
definition ScopeReadOnly :: ScopeKind where "ScopeReadOnly = ''read-only''"
definition ScopeSingleSet :: ScopeKind where "ScopeSingleSet = ''single-set''"
definition ScopeSingleDevice :: ScopeKind where "ScopeSingleDevice = ''single-device''"

lemmas scope_kind_defs =
  ScopeFullOwner_def ScopeReadOnly_def ScopeSingleSet_def ScopeSingleDevice_def

definition ScopeKind_IsValid :: "ScopeKind \<Rightarrow> bool" where
  "ScopeKind_IsValid k \<longleftrightarrow>
     k \<in> {ScopeFullOwner, ScopeReadOnly, ScopeSingleSet, ScopeSingleDevice}"

definition bindsResource :: "ScopeKind \<Rightarrow> bool" where
  "bindsResource k \<longleftrightarrow> k = ScopeSingleSet \<or> k = ScopeSingleDevice"

record Scope =
  Kind :: ScopeKind
  ResourceID :: string

definition Scope_Validate :: "Scope \<Rightarrow> unit result" where
  "Scope_Validate s =
     (if \<not> ScopeKind_IsValid (Kind s) then Inl ErrInvalidInput
      else if bindsResource (Kind s) \<and> ResourceID s = [] then Inl ErrInvalidInput
      else if \<not> bindsResource (Kind s) \<and> ResourceID s \<noteq> [] then Inl ErrInvalidInput
      else Inr ())"

section \<open>Entities\<close>

record Owner =
  oID :: OwnerID
  oStatus :: OwnerStatus
  oCreatedAt :: time
  oUpdatedAt :: time
  oDeletedAt :: "time option"

record RefreshCredential =
  rcID :: RefreshCredentialID
  rcOwnerID :: OwnerID
  rcLineageID :: LineageID
  rcSecretHash :: bytes
  rcScopes :: "Scope list"
  rcClientLabel :: string
  rcRotatedFromID :: "RefreshCredentialID option"
  rcIssuedAt :: time
  rcExpiresAt :: time
  rcStatus :: CredentialStatus
  rcRevokedAt :: "time option"

record AccessToken =
  atID :: string
  atOwnerID :: OwnerID
  atRefreshCredentialID :: RefreshCredentialID
  atScopes :: "Scope list"
  atIssuedAt :: time
  atExpiresAt :: time

record LinkedIdentity =
  liID :: LinkedIdentityID
  liOwnerID :: OwnerID
  liProvider :: string
  liSubject :: string
  liEmail :: "string option"
  liCreatedAt :: time
  liUpdatedAt :: time

text \<open>The database stores an absent owner and an absent digest as \<^verbatim>\<open>NULL\<close>; in the entity both are empty.\<close>

record DevicePairing =
  dpID :: PairingID
  dpOwnerID :: OwnerID
  dpDeviceCodeHash :: bytes
  dpUserCodeHash :: bytes
  dpClientLabel :: string
  dpScopes :: "Scope list"
  dpStatus :: PairingStatus
  dpLineageID :: LineageID
  dpNextPollAt :: time
  dpCreatedAt :: time
  dpExpiresAt :: time
  dpApprovedAt :: "time option"
  dpRedeemedAt :: "time option"
  dpRevokedAt :: "time option"

record Handle =
  hID :: HandleID
  hOwnerID :: OwnerID
  hName :: string
  hState :: NameState
  hQuarantineUntil :: "time option"
  hFlaggedForReview :: bool
  hQuarantineOnRelease :: bool
  hCreatedAt :: time
  hUpdatedAt :: time

record Device =
  dID :: DeviceID
  dOwnerID :: OwnerID
  dName :: string
  dStatus :: DeviceStatus
  dCreatedAt :: time
  dUpdatedAt :: time
  dRevokedAt :: "time option"

text \<open>The signature of a key is carried by the entity and stored by no adapter; it is left out.\<close>

record PublicKey =
  pkID :: PublicKeyID
  pkOwnerID :: OwnerID
  pkDeviceID :: DeviceID
  pkAlgorithm :: Algorithm
  pkBlob :: bytes
  pkComment :: string
  pkFingerprint :: string
  pkBitLen :: int
  pkStatus :: KeyStatus
  pkCreatedAt :: time
  pkUpdatedAt :: time
  pkRevokedAt :: "time option"

record KeySet =
  ksID :: KeySetID
  ksOwnerID :: OwnerID
  ksName :: string
  ksVisibility :: Visibility
  ksIsDefault :: bool
  ksState :: NameState
  ksQuarantineUntil :: "time option"
  ksFlaggedForReview :: bool
  ksQuarantineOnRelease :: bool
  ksCreatedAt :: time
  ksUpdatedAt :: time

record KeySetMembership =
  mKeySetID :: KeySetID
  mPublicKeyID :: PublicKeyID
  mAddedAt :: time

record AccessKey =
  akID :: AccessKeyID
  akOwnerID :: OwnerID
  akKeySetID :: KeySetID
  akName :: string
  akSecretHash :: bytes
  akStatus :: AccessKeyStatus
  akCreatedAt :: time
  akRevokedAt :: "time option"
  akGraceUntil :: "time option"
  akReplacedByID :: "AccessKeyID option"

record Administrator =
  admID :: AdministratorID
  admLabel :: string
  admStatus :: AdminStatus
  admCreatedAt :: time
  admUpdatedAt :: time

record ListOverride =
  loList :: ListKind
  loSkeleton :: string
  loEntry :: string
  loState :: ListOverrideState
  loActorID :: AdministratorID
  loUpdatedAt :: time

record AuditRecord =
  arID :: string
  arActorType :: ActorType
  arActorID :: string
  arAction :: AuditAction
  arTargetType :: TargetType
  arTargetID :: string
  arOccurredAt :: time
  arMetadata :: "(string \<times> string) list"
  arPseudonymized :: bool

section \<open>Format validators\<close>

definition MaxSlugLen :: nat where "MaxSlugLen = 64"
definition MaxDeviceNameLen :: nat where "MaxDeviceNameLen = 64"
definition MaxLabelLen :: nat where "MaxLabelLen = 64"
definition MaxCommentLen :: nat where "MaxCommentLen = 256"

definition is_lower :: "char \<Rightarrow> bool" where
  "is_lower c \<longleftrightarrow> byte CHR ''a'' \<le> byte c \<and> byte c \<le> byte CHR ''z''"

definition is_upper :: "char \<Rightarrow> bool" where
  "is_upper c \<longleftrightarrow> byte CHR ''A'' \<le> byte c \<and> byte c \<le> byte CHR ''Z''"

definition is_digit :: "char \<Rightarrow> bool" where
  "is_digit c \<longleftrightarrow> byte CHR ''0'' \<le> byte c \<and> byte c \<le> byte CHR ''9''"

definition slug_edge :: "char \<Rightarrow> bool" where
  "slug_edge c \<longleftrightarrow> is_lower c \<or> is_digit c"

definition slug_inner :: "char \<Rightarrow> bool" where
  "slug_inner c \<longleftrightarrow> slug_edge c \<or> c = CHR ''-''"

text \<open>The pattern \<^verbatim>\<open>^[a-z0-9]([a-z0-9-]*[a-z0-9])?$\<close>, by the shape of the pattern.\<close>

definition slugRe :: "string \<Rightarrow> bool" where
  "slugRe s \<longleftrightarrow>
     (case s of
        [] \<Rightarrow> False
      | c # rest \<Rightarrow>
          slug_edge c \<and>
          (rest = [] \<or> (list_all slug_inner (butlast rest) \<and> slug_edge (last rest))))"

definition validateSlug :: "string \<Rightarrow> unit result" where
  "validateSlug name =
     (if name = [] then Inl ErrInvalidInput
      else if MaxSlugLen < length name then Inl ErrInvalidInput
      else if \<not> slugRe name then Inl ErrInvalidInput
      else Inr ())"

definition ValidateSetName :: "string \<Rightarrow> unit result" where
  "ValidateSetName name = validateSlug name"

definition ValidateHandle :: "string \<Rightarrow> unit result" where
  "ValidateHandle name = validateSlug name"

text \<open>The pattern \<^verbatim>\<open>^SHA256:[A-Za-z0-9+/]{43}$\<close>.\<close>

definition fingerprintRe :: "string \<Rightarrow> bool" where
  "fingerprintRe s \<longleftrightarrow>
     (case CutPrefix s ''SHA256:'' of
        None \<Rightarrow> False
      | Some t \<Rightarrow>
          length t = 43 \<and>
          list_all (\<lambda>c. is_upper c \<or> is_lower c \<or> is_digit c \<or> c = CHR ''+'' \<or> c = CHR ''/'') t)"

definition ValidateFingerprint :: "string \<Rightarrow> unit result" where
  "ValidateFingerprint fp = (if \<not> fingerprintRe fp then Inl ErrInvalidInput else Inr ())"

definition isDisallowedFormatRune :: "nat \<Rightarrow> bool" where
  "isDisallowedFormatRune r =
     (if is_Cf r then r \<noteq> 0x200C \<and> r \<noteq> 0x200D else is_Zl r \<or> is_Zp r)"

text \<open>
  The rune loop shared by the printable-text validators: the first offending rune ends it with an
  error, otherwise it returns the number of runes.
\<close>

fun check_runes :: "nat list \<Rightarrow> nat \<Rightarrow> nat result" where
  "check_runes [] n = Inr n"
| "check_runes (r # rs) n =
     (if IsControl r then Inl ErrInvalidInput
      else if isDisallowedFormatRune r then Inl ErrInvalidInput
      else check_runes rs (n + 1))"

definition validatePrintable :: "string \<Rightarrow> nat \<Rightarrow> unit result" where
  "validatePrintable s maxLen =
     (if s = [] then Inl ErrInvalidInput
      else if \<not> ValidString s then Inl ErrInvalidInput
      else if hd s = spc \<or> hd s = tab \<or> last s = spc \<or> last s = tab then Inl ErrInvalidInput
      else (case check_runes (runes s) 0 of
              Inl e \<Rightarrow> Inl e
            | Inr n \<Rightarrow> if maxLen < n then Inl ErrInvalidInput else Inr ()))"

definition ValidateDeviceName :: "string \<Rightarrow> unit result" where
  "ValidateDeviceName name = validatePrintable name MaxDeviceNameLen"

definition ValidateAccessKeyName :: "string \<Rightarrow> unit result" where
  "ValidateAccessKeyName name = validatePrintable name MaxLabelLen"

definition ValidateClientLabel :: "string \<Rightarrow> unit result" where
  "ValidateClientLabel label = validatePrintable label MaxLabelLen"

definition ValidateKeyComment :: "string \<Rightarrow> unit result" where
  "ValidateKeyComment comment =
     (if comment = [] then Inr ()
      else if \<not> ValidString comment then Inl ErrInvalidInput
      else (case check_runes (runes comment) 0 of
              Inl e \<Rightarrow> Inl e
            | Inr n \<Rightarrow> if MaxCommentLen < n then Inl ErrInvalidInput else Inr ()))"

lemmas validator_defs [domain_defs] =
  validateSlug_def ValidateSetName_def ValidateHandle_def ValidateFingerprint_def
  validatePrintable_def ValidateDeviceName_def ValidateAccessKeyName_def ValidateClientLabel_def
  ValidateKeyComment_def Scope_Validate_def

section \<open>What the validators accept\<close>

lemma check_runes_Inr:
  "check_runes rs n = Inr m \<longleftrightarrow>
     m = n + length rs \<and> (\<forall>r \<in> set rs. \<not> IsControl r \<and> \<not> isDisallowedFormatRune r)"
  by (induction rs arbitrary: n) auto

lemma slug_edge_inner: "slug_edge c \<Longrightarrow> slug_inner c"
  by (simp add: slug_inner_def)

lemma slug_edge_not_hyphen: "slug_inner c \<Longrightarrow> slug_edge c \<longleftrightarrow> c \<noteq> CHR ''-''"
  by (auto simp: slug_inner_def slug_edge_def is_lower_def is_digit_def byte_def)

lemma slug_edge_hyphen [simp]: "\<not> slug_edge CHR ''-''"
  by (simp add: slug_edge_def is_lower_def is_digit_def byte_def)

lemma slugRe_iff:
  "slugRe s \<longleftrightarrow>
     s \<noteq> [] \<and> list_all slug_inner s \<and> hd s \<noteq> CHR ''-'' \<and> last s \<noteq> CHR ''-''"
proof (cases s)
  case Nil
  then show ?thesis by (simp add: slugRe_def)
next
  case (Cons c rest)
  show ?thesis
  proof (cases "rest = []")
    case True
    with Cons show ?thesis
      by (auto simp: slugRe_def slug_edge_inner slug_edge_not_hyphen)
  next
    case False
    then have "list_all slug_inner rest \<longleftrightarrow> list_all slug_inner (butlast rest) \<and> slug_inner (last rest)"
      using list_all_append [of slug_inner "butlast rest" "[last rest]"] by simp
    with Cons False show ?thesis
      by (auto simp: slugRe_def slug_edge_inner slug_edge_not_hyphen)
  qed
qed

lemma validateSlug_iff:
  "validateSlug s = Inr () \<longleftrightarrow>
     1 \<le> length s \<and> length s \<le> MaxSlugLen \<and> list_all slug_inner s \<and>
     hd s \<noteq> CHR ''-'' \<and> last s \<noteq> CHR ''-''"
  by (auto simp: validateSlug_def slugRe_iff Suc_le_eq)

lemma ValidateKeyComment_runes:
  "ValidateKeyComment s = Inr () \<Longrightarrow>
     \<forall>r \<in> set (runes s). \<not> IsControl r \<and> \<not> isDisallowedFormatRune r"
  by (auto simp: ValidateKeyComment_def check_runes_Inr split: if_splits sum.splits)

lemma control_byte_absent:
  assumes "\<forall>r \<in> set (runes s). \<not> IsControl r" and "byte c \<le> 0x1F \<or> byte c = 0x7F"
  shows "c \<notin> set s"
proof
  assume "c \<in> set s"
  moreover have "byte c < 128" using assms(2) by auto
  ultimately have "byte c \<in> set (runes s)" by (rule ascii_in_runes)
  with assms show False by (auto simp: IsControl_def)
qed

lemma ValidateKeyComment_bytes:
  "ValidateKeyComment s = Inr () \<Longrightarrow> byte c \<le> 0x1F \<Longrightarrow> c \<notin> set s"
  using ValidateKeyComment_runes control_byte_absent by blast

end
