(* ===== verification/Base64.thy ===== *)
theory Base64
  imports Go_Strings
begin

text \<open>
  Go's \<^verbatim>\<open>encoding/base64\<close>: the padded standard encoding, which renders key blobs, and the unpadded
  URL-safe encoding, which renders every token of the program. Decoding follows the Go decoder
  without \<^verbatim>\<open>Strict\<close>: line breaks in the input are skipped and the unused low bits of the last
  symbol are ignored.
\<close>

definition std_alphabet :: string where
  "std_alphabet = ''ABCDEFGHIJKLMNOPQRSTUVWXYZabcdefghijklmnopqrstuvwxyz0123456789+/''"

definition url_alphabet :: string where
  "url_alphabet = ''ABCDEFGHIJKLMNOPQRSTUVWXYZabcdefghijklmnopqrstuvwxyz0123456789-_''"

fun sextets :: "nat list \<Rightarrow> nat list" where
  "sextets [] = []"
| "sextets [a] = [a div 4, (a mod 4) * 16]"
| "sextets [a, b] = [a div 4, (a mod 4) * 16 + b div 16, (b mod 16) * 4]"
| "sextets (a # b # c # bs) =
     a div 4 # ((a mod 4) * 16 + b div 16) # ((b mod 16) * 4 + c div 64) # c mod 64 # sextets bs"

fun octets :: "nat list \<Rightarrow> nat list option" where
  "octets [] = Some []"
| "octets [p] = None"
| "octets [p, q] = Some [p * 4 + q div 16]"
| "octets [p, q, r] = Some [p * 4 + q div 16, (q mod 16) * 16 + r div 4]"
| "octets (p # q # r # t # bs) =
     map_option (\<lambda>os. (p * 4 + q div 16) # ((q mod 16) * 16 + r div 4) # ((r mod 4) * 64 + t) # os)
       (octets bs)"

fun index_in :: "string \<Rightarrow> char \<Rightarrow> nat option" where
  "index_in [] c = None"
| "index_in (x # xs) c = (if x = c then Some 0 else map_option Suc (index_in xs c))"

definition RawURL_Encode :: "bytes \<Rightarrow> string" where
  "RawURL_Encode bs = map (\<lambda>i. url_alphabet ! i) (sextets (map byte bs))"

definition RawURL_Decode :: "string \<Rightarrow> bytes option" where
  "RawURL_Decode s =
     (case those (map (index_in url_alphabet) (filter (\<lambda>c. c \<noteq> nl \<and> c \<noteq> cr) s)) of
        None \<Rightarrow> None
      | Some is \<Rightarrow> map_option (map char_of) (octets is))"

definition Std_Encode :: "bytes \<Rightarrow> string" where
  "Std_Encode bs =
     map (\<lambda>i. std_alphabet ! i) (sextets (map byte bs)) @
     replicate ((3 - length bs mod 3) mod 3) CHR ''=''"

section \<open>Round trip\<close>

lemma byte_less [simp]: "byte c < 256"
  unfolding byte_def by (metis of_char_mod_256 mod_less_divisor zero_less_numeral)

lemma char_of_byte [simp]: "char_of (byte c) = c"
  unfolding byte_def by simp

lemma sextets_bound: "\<forall>b \<in> set bs. b < 256 \<Longrightarrow> \<forall>i \<in> set (sextets bs). i < 64"
  by (induction bs rule: sextets.induct) auto

lemma recombine:
  fixes a b c :: nat
  assumes "b < 256" "c < 256"
  shows "a div 4 * 4 + (a mod 4 * 16 + b div 16) div 16 = a"
    and "(a mod 4 * 16 + b div 16) mod 16 * 16 + (b mod 16 * 4 + c div 64) div 4 = b"
    and "(b mod 16 * 4 + c div 64) mod 4 * 64 + c mod 64 = c"
    and "(a mod 4 * 16 + b div 16) mod 16 * 16 + b mod 16 = b"
proof -
  have "b div 16 < 16" "c div 64 < 4" using assms by auto
  then have "(a mod 4 * 16 + b div 16) div 16 = a mod 4"
    and m: "(a mod 4 * 16 + b div 16) mod 16 = b div 16"
    and "(b mod 16 * 4 + c div 64) div 4 = b mod 16"
    and "(b mod 16 * 4 + c div 64) mod 4 = c div 64"
    by auto
  then show "a div 4 * 4 + (a mod 4 * 16 + b div 16) div 16 = a"
    and "(a mod 4 * 16 + b div 16) mod 16 * 16 + (b mod 16 * 4 + c div 64) div 4 = b"
    and "(b mod 16 * 4 + c div 64) mod 4 * 64 + c mod 64 = c"
    and "(a mod 4 * 16 + b div 16) mod 16 * 16 + b mod 16 = b"
    by simp_all
qed

lemma octets_sextets: "\<forall>b \<in> set bs. b < 256 \<Longrightarrow> octets (sextets bs) = Some bs"
proof (induction bs rule: sextets.induct)
  case (3 a b)
  then have "b < 256" by simp
  then show ?case using recombine(1,4) [of b 0 a] by simp
next
  case (4 a b c bs)
  then have "b < 256" "c < 256" "octets (sextets bs) = Some bs" by simp_all
  then show ?case by (simp only: sextets.simps octets.simps recombine option.map)
qed simp_all

lemma length_sextets: "length (sextets bs) = (4 * length bs + 2) div 3"
  by (induction bs rule: sextets.induct) auto

lemma url_alphabet_length [simp]: "length url_alphabet = 64"
  by (simp add: url_alphabet_def)

lemma std_alphabet_length [simp]: "length std_alphabet = 64"
  by (simp add: std_alphabet_def)

lemma url_alphabet_distinct: "distinct url_alphabet"
  unfolding url_alphabet_def by code_simp

lemma index_in_nth: "distinct xs \<Longrightarrow> i < length xs \<Longrightarrow> index_in xs (xs ! i) = Some i"
proof (induction xs arbitrary: i)
  case (Cons x xs)
  then show ?case by (cases i) (auto simp: nth_mem)
qed simp

lemma those_map_Some: "(\<And>x. x \<in> set xs \<Longrightarrow> f x = Some (g x)) \<Longrightarrow> those (map f xs) = Some (map g xs)"
  by (induction xs) auto

lemma url_alphabet_safe: "c \<in> set url_alphabet \<Longrightarrow> c \<noteq> nl \<and> c \<noteq> cr \<and> c \<noteq> CHR ''.''"
  unfolding url_alphabet_def by auto

lemma set_RawURL_Encode: "set (RawURL_Encode bs) \<subseteq> set url_alphabet"
  unfolding RawURL_Encode_def using sextets_bound [of "map byte bs"]
  by (auto intro!: nth_mem)

lemma RawURL_Encode_no_dot [simp]: "CHR ''.'' \<notin> set (RawURL_Encode bs)"
  using set_RawURL_Encode url_alphabet_safe by blast

lemma length_RawURL_Encode: "length (RawURL_Encode bs) = (4 * length bs + 2) div 3"
  by (simp add: RawURL_Encode_def length_sextets)

theorem RawURL_Decode_Encode [simp]: "RawURL_Decode (RawURL_Encode bs) = Some bs"
proof -
  let ?ss = "sextets (map byte bs)"
  have b: "\<forall>i \<in> set ?ss. i < 64" by (rule sextets_bound) simp
  have "\<forall>c \<in> set (RawURL_Encode bs). c \<noteq> nl \<and> c \<noteq> cr"
    using set_RawURL_Encode url_alphabet_safe by blast
  then have "filter (\<lambda>c. c \<noteq> nl \<and> c \<noteq> cr) (RawURL_Encode bs) = RawURL_Encode bs"
    by (simp add: filter_id_conv)
  moreover have "those (map (index_in url_alphabet) (RawURL_Encode bs)) = Some (map (\<lambda>i. i) ?ss)"
    unfolding RawURL_Encode_def map_map
    by (rule those_map_Some) (use b in \<open>simp add: index_in_nth [OF url_alphabet_distinct]\<close>)
  moreover have "octets ?ss = Some (map byte bs)"
    by (rule octets_sextets) simp
  ultimately show ?thesis
    by (simp add: RawURL_Decode_def comp_def map_idI)
qed

lemma set_Std_Encode: "set (Std_Encode bs) \<subseteq> insert CHR ''='' (set std_alphabet)"
  unfolding Std_Encode_def using sextets_bound [of "map byte bs"]
  by (auto intro!: nth_mem)

end
