(* ===== verification/Keys.thy ===== *)
theory Keys
  imports Domain Base64
begin

text \<open>
  \<^verbatim>\<open>internal/keys\<close>: parsing of one public key line (\<^verbatim>\<open>keys.go\<close>), of a batch of lines
  (\<^verbatim>\<open>batch.go\<close>), and reconstruction of the canonical line (\<^verbatim>\<open>reconstruct.go\<close>). The SSH library
  \<^verbatim>\<open>golang.org/x/crypto/ssh\<close> is a parameter: a record of the six functions the package calls.
\<close>

section \<open>The SSH library\<close>

text \<open>
  A parsed authorized_keys entry is the key, its comment, its options and what follows the entry.
  \<open>rsaBits\<close> is the modulus length when the key's \<^verbatim>\<open>CryptoPublicKey\<close> is a non-nil RSA key.
\<close>

record 'p ssh_lib =
  ParseAuthorizedKey :: "bytes \<Rightarrow> ('p \<times> string \<times> string list \<times> bytes) option"
  ParsePublicKey :: "bytes \<Rightarrow> 'p option"
  pubType :: "'p \<Rightarrow> string"
  Marshal :: "'p \<Rightarrow> bytes"
  FingerprintSHA256 :: "'p \<Rightarrow> string"
  rsaBits :: "'p \<Rightarrow> int option"

section \<open>Errors and limits\<close>

datatype keys_err =
    ErrMalformed
  | ErrOptionsPresent
  | ErrUnsupportedAlgorithm
  | ErrWeakKey
  | ErrMultipleKeys
  | ErrBadComment
  | ErrTooLarge
  | ErrPrivateKey
  | errDuplicate

text \<open>The domain error each of them wraps.\<close>

fun keys_sentinel :: "keys_err \<Rightarrow> err" where
  "keys_sentinel errDuplicate = ErrConflict"
| "keys_sentinel _ = ErrInvalidInput"

definition MaxLineBytes :: nat where "MaxLineBytes = 16 * 1024"
definition MaxFileBytes :: nat where "MaxFileBytes = 1048576"

record ParsedKey =
  kAlgorithm :: Algorithm
  kBlob :: bytes
  kComment :: string
  kFingerprint :: string
  kBitLen :: int

section \<open>Private key material\<close>

definition privateKeyMarkers :: "string list" where
  "privateKeyMarkers = [''private key'', ''putty-user-key-file'']"

definition containsPrivateKeyMaterial :: "bytes \<Rightarrow> bool" where
  "containsPrivateKeyMaterial raw \<longleftrightarrow>
     (let lower = map lower_rune (runes raw) in
      list_ex (\<lambda>m. contains_run lower (map byte m)) privateKeyMarkers)"

section \<open>One line\<close>

definition strength :: "'p ssh_lib \<Rightarrow> Algorithm \<Rightarrow> 'p \<Rightarrow> keys_err + int" where
  "strength ssh alg pub =
     (if alg = AlgRSA then
        (case rsaBits ssh pub of
           None \<Rightarrow> Inl ErrMalformed
         | Some n \<Rightarrow> if n < MinRSABits then Inl ErrWeakKey else Inr n)
      else if alg = AlgECDSA384 then Inr 384
      else if alg = AlgECDSA521 then Inr 521
      else if alg = AlgEd25519 \<or> alg = AlgECDSA256 \<or> alg = AlgSKEd25519 \<or> alg = AlgSKECDSA256
        then Inr 256
      else Inl ErrUnsupportedAlgorithm)"

definition checkInvariants :: "ParsedKey \<Rightarrow> keys_err + unit" where
  "checkInvariants k =
     (if \<not> Algorithm_IsValid (kAlgorithm k) then Inl ErrUnsupportedAlgorithm
      else if ValidateFingerprint (kFingerprint k) \<noteq> Inr () then Inl ErrMalformed
      else if ValidateKeyComment (kComment k) \<noteq> Inr () then Inl ErrBadComment
      else Inr ())"

definition finalize :: "'p ssh_lib \<Rightarrow> 'p \<Rightarrow> string \<Rightarrow> keys_err + ParsedKey" where
  "finalize ssh pub comment =
     (let alg = pubType ssh pub in
      if \<not> Algorithm_IsValid alg then Inl ErrUnsupportedAlgorithm
      else
        (case strength ssh alg pub of
           Inl e \<Rightarrow> Inl e
         | Inr bitLen \<Rightarrow>
             (let k = \<lparr>kAlgorithm = alg, kBlob = Marshal ssh pub, kComment = TrimSpace comment,
                       kFingerprint = FingerprintSHA256 ssh pub, kBitLen = bitLen\<rparr> in
              case checkInvariants k of Inl e \<Rightarrow> Inl e | Inr _ \<Rightarrow> Inr k)))"

definition parseKeyLine :: "'p ssh_lib \<Rightarrow> bytes \<Rightarrow> keys_err + ParsedKey" where
  "parseKeyLine ssh line =
     (case ParseAuthorizedKey ssh line of
        None \<Rightarrow> Inl ErrMalformed
      | Some (pub, comment, options, rest) \<Rightarrow>
          if options \<noteq> [] then Inl ErrOptionsPresent
          else if TrimSpace rest \<noteq> [] then Inl ErrMultipleKeys
          else finalize ssh pub comment)"

text \<open>One line terminator is removed: a line feed, and a carriage return before it.\<close>

definition chomp :: "bytes \<Rightarrow> bytes" where
  "chomp raw = (if HasSuffix raw [nl] then TrimSuffix (TrimSuffix raw [nl]) [cr] else raw)"

definition comment_line :: "bytes \<Rightarrow> bool" where
  "comment_line line \<longleftrightarrow>
     (case TrimLeft line [spc, tab] of [] \<Rightarrow> False | c # _ \<Rightarrow> c = CHR ''#'')"

definition Parse :: "'p ssh_lib \<Rightarrow> bytes \<Rightarrow> keys_err + ParsedKey" where
  "Parse ssh raw =
     (if MaxLineBytes < length raw then Inl ErrTooLarge
      else if containsPrivateKeyMaterial raw then Inl ErrPrivateKey
      else if TrimSpace raw = [] then Inl ErrMalformed
      else
        (let line = chomp raw in
         if ContainsAny line [nl, cr] then Inl ErrMultipleKeys
         else if comment_line line then Inl ErrMalformed
         else parseKeyLine ssh line))"

section \<open>A batch of lines\<close>

record LineError =
  Line :: nat
  Err :: keys_err

record batch =
  bKeys :: "ParsedKey list"
  bErrs :: "LineError list"

text \<open>What the loop does with one line; \<open>seen\<close> is the set of fingerprints of the keys accepted so far.\<close>

definition batch_line :: "'p ssh_lib \<Rightarrow> nat \<Rightarrow> bytes \<Rightarrow> batch \<Rightarrow> batch" where
  "batch_line ssh lineNo raw_line b =
     (let line = TrimRight raw_line [cr] in
      if TrimSpace line = [] then b
      else if comment_line line then b
      else if MaxLineBytes < length line then
        b\<lparr>bErrs := bErrs b @ [\<lparr>Line = lineNo, Err = ErrTooLarge\<rparr>]\<rparr>
      else
        (case parseKeyLine ssh line of
           Inl e \<Rightarrow> b\<lparr>bErrs := bErrs b @ [\<lparr>Line = lineNo, Err = e\<rparr>]\<rparr>
         | Inr k \<Rightarrow>
             if kFingerprint k \<in> set (map kFingerprint (bKeys b)) then
               b\<lparr>bErrs := bErrs b @ [\<lparr>Line = lineNo, Err = errDuplicate\<rparr>]\<rparr>
             else b\<lparr>bKeys := bKeys b @ [k]\<rparr>))"

function batch_loop :: "'p ssh_lib \<Rightarrow> nat \<Rightarrow> bytes \<Rightarrow> batch \<Rightarrow> batch" where
  "batch_loop ssh lineNo rest b =
     (if rest = [] then b
      else
        (case Cut rest nl of
           Some (line, rest') \<Rightarrow> batch_loop ssh (lineNo + 1) rest' (batch_line ssh (lineNo + 1) line b)
         | None \<Rightarrow> batch_line ssh (lineNo + 1) rest b))"
  by pat_completeness auto
termination
  by (relation "measure (\<lambda>(_, _, rest, _). length rest)") (auto simp: Cut_Some)

declare batch_loop.simps [simp del]

lemma batch_loop_code [code]:
  "batch_loop ssh lineNo [] b = b"
  "batch_loop ssh lineNo (c # cs) b =
     (case Cut (c # cs) nl of
        Some (line, rest') \<Rightarrow> batch_loop ssh (lineNo + 1) rest' (batch_line ssh (lineNo + 1) line b)
      | None \<Rightarrow> batch_line ssh (lineNo + 1) (c # cs) b)"
  by (simp_all add: batch_loop.simps [of ssh lineNo "[]"] batch_loop.simps [of ssh lineNo "c # cs"])

definition ParseAuthorizedKeys :: "'p ssh_lib \<Rightarrow> bytes \<Rightarrow> ParsedKey list \<times> LineError list" where
  "ParseAuthorizedKeys ssh raw =
     (if MaxFileBytes < length raw then ([], [\<lparr>Line = 0, Err = ErrTooLarge\<rparr>])
      else if containsPrivateKeyMaterial raw then ([], [\<lparr>Line = 0, Err = ErrPrivateKey\<rparr>])
      else (let b = batch_loop ssh 0 raw \<lparr>bKeys = [], bErrs = []\<rparr> in (bKeys b, bErrs b)))"

section \<open>Reconstruction\<close>

definition AuthorizedKeyLineFrom ::
  "'p ssh_lib \<Rightarrow> Algorithm \<Rightarrow> bytes \<Rightarrow> string \<Rightarrow> keys_err + string" where
  "AuthorizedKeyLineFrom ssh alg blob comment =
     (if \<not> Algorithm_IsValid alg then Inl ErrUnsupportedAlgorithm
      else
        (case ParsePublicKey ssh blob of
           None \<Rightarrow> Inl ErrMalformed
         | Some pub \<Rightarrow>
             if pubType ssh pub \<noteq> alg then Inl ErrMalformed
             else
               (case strength ssh alg pub of
                  Inl e \<Rightarrow> Inl e
                | Inr _ \<Rightarrow>
                    if ContainsAny comment [nl, cr] then Inl ErrBadComment
                    else
                      (let comment' = TrimSpace comment in
                       if ValidateKeyComment comment' \<noteq> Inr () then Inl ErrBadComment
                       else Inr (alg @ [spc] @ Std_Encode (Marshal ssh pub)
                                 @ (if comment' \<noteq> [] then [spc] @ comment' else []) @ [nl])))))"

definition AuthorizedKeyLine :: "'p ssh_lib \<Rightarrow> ParsedKey \<Rightarrow> keys_err + string" where
  "AuthorizedKeyLine ssh k = AuthorizedKeyLineFrom ssh (kAlgorithm k) (kBlob k) (kComment k)"

section \<open>The shape of a reconstructed line\<close>

lemma Algorithm_bytes: "Algorithm_IsValid alg \<Longrightarrow> c \<in> set alg \<Longrightarrow> 0x20 < byte c"
  by (auto simp: Algorithm_IsValid_def algorithm_defs byte_def)

lemma Algorithm_head: "Algorithm_IsValid alg \<Longrightarrow> \<exists>c cs. alg = c # cs \<and> (c = CHR ''s'' \<or> c = CHR ''e'')"
  by (auto simp: Algorithm_IsValid_def algorithm_defs)

lemma Std_Encode_bytes: "c \<in> set (Std_Encode bs) \<Longrightarrow> 0x20 < byte c"
  using set_Std_Encode [of bs] by (auto simp: std_alphabet_def byte_def)

text \<open>The canonical line without its terminator.\<close>

definition canonical :: "Algorithm \<Rightarrow> bytes \<Rightarrow> string \<Rightarrow> string" where
  "canonical alg blob comment =
     alg @ [spc] @ Std_Encode blob @ (if comment \<noteq> [] then [spc] @ comment else [])"

lemma AuthorizedKeyLineFrom_Inr:
  "AuthorizedKeyLineFrom ssh alg blob comment = Inr line \<longleftrightarrow>
     Algorithm_IsValid alg \<and> \<not> ContainsAny comment [nl, cr] \<and>
     ValidateKeyComment (TrimSpace comment) = Inr () \<and>
     (\<exists>pub bits. ParsePublicKey ssh blob = Some pub \<and> pubType ssh pub = alg \<and>
        strength ssh alg pub = Inr bits \<and>
        line = canonical alg (Marshal ssh pub) (TrimSpace comment) @ [nl])"
  by (auto simp: AuthorizedKeyLineFrom_def canonical_def Let_def split: option.splits sum.splits if_splits)

lemma canonical_bytes:
  assumes "Algorithm_IsValid alg" and "ValidateKeyComment comment = Inr ()"
    and "c \<in> set (canonical alg blob comment)"
  shows "0x20 \<le> byte c"
proof -
  have "0x20 \<le> byte c" if "c \<in> set comment" for c
    using ValidateKeyComment_bytes [OF assms(2), of c] that by fastforce
  moreover have "byte spc = 0x20" by (simp add: byte_def)
  ultimately show ?thesis
    using assms Algorithm_bytes [OF assms(1), of c] Std_Encode_bytes [of c blob]
    by (auto simp: canonical_def split: if_splits)
qed

lemma canonical_head:
  "Algorithm_IsValid alg \<Longrightarrow>
     \<exists>c cs. canonical alg blob comment = c # cs \<and> (c = CHR ''s'' \<or> c = CHR ''e'')"
  using Algorithm_head [of alg] by (auto simp: canonical_def)

section \<open>What a parsed key is\<close>

lemma finalize_Inr:
  "finalize ssh pub comment = Inr k \<longleftrightarrow>
     Algorithm_IsValid (pubType ssh pub) \<and> strength ssh (pubType ssh pub) pub = Inr (kBitLen k) \<and>
     k = \<lparr>kAlgorithm = pubType ssh pub, kBlob = Marshal ssh pub, kComment = TrimSpace comment,
          kFingerprint = FingerprintSHA256 ssh pub, kBitLen = kBitLen k\<rparr> \<and>
     checkInvariants k = Inr ()"
  by (auto simp: finalize_def Let_def split: sum.splits if_splits)

lemma parseKeyLine_Inr:
  "parseKeyLine ssh line = Inr k \<longleftrightarrow>
     (\<exists>pub comment rest. ParseAuthorizedKey ssh line = Some (pub, comment, [], rest)
        \<and> TrimSpace rest = [] \<and> finalize ssh pub comment = Inr k)"
  by (auto simp: parseKeyLine_def split: option.splits if_splits)

lemma Parse_Inr:
  "Parse ssh raw = Inr k \<Longrightarrow> parseKeyLine ssh (chomp raw) = Inr k"
  by (auto simp: Parse_def Let_def split: if_splits)

lemma checkInvariants_Inr:
  "checkInvariants k = Inr () \<longleftrightarrow>
     Algorithm_IsValid (kAlgorithm k) \<and> ValidateFingerprint (kFingerprint k) = Inr ()
     \<and> ValidateKeyComment (kComment k) = Inr ()"
  by (simp add: checkInvariants_def)

text \<open>The guarantee every parsed key carries.\<close>

definition valid_key :: "ParsedKey \<Rightarrow> bool" where
  "valid_key k \<longleftrightarrow> checkInvariants k = Inr () \<and> TrimSpace (kComment k) = kComment k
     \<and> (kAlgorithm k = AlgRSA \<longrightarrow> MinRSABits \<le> kBitLen k)"

lemma parseKeyLine_valid: "parseKeyLine ssh line = Inr k \<Longrightarrow> valid_key k"
proof -
  assume "parseKeyLine ssh line = Inr k"
  then obtain pub comment where fin: "finalize ssh pub comment = Inr k"
    by (auto simp: parseKeyLine_Inr)
  have "kComment k = TrimSpace comment" "kAlgorithm k = pubType ssh pub"
    using fin unfolding finalize_Inr by (metis ParsedKey.select_convs)+
  with fin show ?thesis
    by (auto simp: finalize_Inr valid_key_def strength_def split: option.splits if_splits)
qed

section \<open>Documented behaviour of the library\<close>

text \<open>
  A key that came out of an authorized_keys entry survives marshalling to the wire format and
  parsing back, and an options-free entry ``type base64 comment'' on one line parses to that key
  and the comment without surrounding white space.
\<close>

definition ssh_laws :: "'p ssh_lib \<Rightarrow> bool" where
  "ssh_laws ssh \<longleftrightarrow>
     (\<forall>line p c opts rest. ParseAuthorizedKey ssh line = Some (p, c, opts, rest) \<longrightarrow>
        ParsePublicKey ssh (Marshal ssh p) = Some p) \<and>
     (\<forall>p c. ParsePublicKey ssh (Marshal ssh p) = Some p \<longrightarrow> \<not> ContainsAny c [nl, cr] \<longrightarrow>
        ParseAuthorizedKey ssh (canonical (pubType ssh p) (Marshal ssh p) c) =
          Some (p, TrimSpace c, [], []))"

text \<open>A library with one key, to instantiate the parameter.\<close>

definition one_key_ssh :: "unit ssh_lib" where
  "one_key_ssh =
     \<lparr>ParseAuthorizedKey = \<lambda>line.
        (case CutPrefix line (canonical AlgEd25519 ''K'' []) of
           None \<Rightarrow> None
         | Some [] \<Rightarrow> Some ((), [], [], [])
         | Some (c # cs) \<Rightarrow> if c = spc then Some ((), TrimSpace cs, [], []) else None),
      ParsePublicKey = \<lambda>b. if b = ''K'' then Some () else None,
      pubType = \<lambda>_. AlgEd25519,
      Marshal = \<lambda>_. ''K'',
      FingerprintSHA256 = \<lambda>_. ''SHA256:'' @ replicate 43 CHR ''A'',
      rsaBits = \<lambda>_. None\<rparr>"

lemma canonical_split: "canonical alg blob c = canonical alg blob [] @ (if c \<noteq> [] then spc # c else [])"
  by (simp add: canonical_def)

lemma one_key_laws: "ssh_laws one_key_ssh"
proof -
  have "TrimSpace [] = []" using set_TrimSpace [of "[]"] by simp
  then have "ParseAuthorizedKey one_key_ssh (canonical AlgEd25519 ''K'' c) = Some ((), TrimSpace c, [], [])"
    for c
    by (subst canonical_split) (simp add: one_key_ssh_def CutPrefix_append)
  then show ?thesis by (simp add: ssh_laws_def) (simp add: one_key_ssh_def)
qed

section \<open>Properties\<close>

text \<open>
  C32: whatever the library does and whatever blob and comment are stored, a line that reconstruction
  emits is one terminated line: an allowlisted algorithm name, a blank, base64 and at most a comment,
  with no control byte before the final line feed. No authorized_keys option and no second line can
  appear.
\<close>

theorem authorized_key_line_is_one_line:
  assumes "AuthorizedKeyLineFrom ssh alg blob comment = Inr line"
  shows "Algorithm_IsValid alg
    \<and> (\<exists>wire. line = canonical alg wire (TrimSpace comment) @ [nl])
    \<and> (\<forall>c \<in> set (butlast line). 0x20 \<le> byte c)"
  using assms by (auto simp: AuthorizedKeyLineFrom_Inr intro: canonical_bytes)

theorem authorized_key_line_is_one_line_witness:
  "AuthorizedKeyLineFrom one_key_ssh AlgEd25519 ''K'' ''  me@host''
     = Inr (''ssh-ed25519 Sw== me@host'' @ [nl])
   \<and> nl \<notin> set (butlast (''ssh-ed25519 Sw== me@host'' @ [nl]))"
proof -
  have run: "AuthorizedKeyLineFrom one_key_ssh AlgEd25519 ''K'' ''  me@host''
     = Inr (''ssh-ed25519 Sw== me@host'' @ [nl])" by code_simp
  show ?thesis
    using run authorized_key_line_is_one_line [OF run] by (auto simp: byte_def)
qed

lemma chomp_canonical:
  assumes "\<forall>c \<in> set body. 0x20 \<le> byte c"
  shows "chomp (body @ [nl]) = body"
proof -
  have "\<not> HasSuffix body [cr]" using assms by (auto simp: HasSuffix_iff byte_def)
  then show ?thesis by (simp add: chomp_def) (simp add: TrimSuffix_def)
qed

lemma Parse_canonical:
  assumes alg: "Algorithm_IsValid alg" and com: "ValidateKeyComment c = Inr ()"
    and len: "length (canonical alg blob c) < MaxLineBytes"
    and priv: "\<not> containsPrivateKeyMaterial (canonical alg blob c @ [nl])"
  shows "Parse ssh (canonical alg blob c @ [nl]) = parseKeyLine ssh (canonical alg blob c)"
proof -
  have ge: "\<forall>x \<in> set (canonical alg blob c). 0x20 \<le> byte x" using canonical_bytes [OF alg com] by blast
  then have "nl \<notin> set (canonical alg blob c)" "cr \<notin> set (canonical alg blob c)" by (auto simp: byte_def)
  then have one: "\<not> ContainsAny (canonical alg blob c) [nl, cr]" by (auto simp: ContainsAny_def)
  obtain x xs where x: "canonical alg blob c = x # xs" "x = CHR ''s'' \<or> x = CHR ''e''"
    using canonical_head [OF alg] by blast
  then have "TrimSpace (canonical alg blob c @ [nl]) \<noteq> []"
    by (intro TrimSpace_nonempty [of x]) (auto simp: space_encodings_def)
  moreover have "\<not> comment_line (canonical alg blob c)"
    using x by (auto simp: comment_line_def TrimLeft_def)
  ultimately show ?thesis
    using one len priv chomp_canonical [OF ge] by (simp add: Parse_def Let_def)
qed



section \<open>Batches\<close>

lemma batch_line_valid:
  assumes "\<forall>k \<in> set (bKeys b). valid_key k" and "distinct (map kFingerprint (bKeys b))"
  shows "(\<forall>k \<in> set (bKeys (batch_line ssh n line b)). valid_key k)
    \<and> distinct (map kFingerprint (bKeys (batch_line ssh n line b)))"
  using assms by (auto simp: batch_line_def Let_def dest: parseKeyLine_valid split: sum.splits)

lemma batch_line_errs:
  "\<exists>es. bErrs (batch_line ssh n line b) = bErrs b @ es \<and> (\<forall>e \<in> set es. Line e = n) \<and> length es \<le> 1"
  by (auto simp: batch_line_def Let_def split: sum.splits)

lemma batch_line_errs_sorted:
  assumes "sorted_wrt (<) (map Line (bErrs b))" and "\<forall>e \<in> set (bErrs b). Line e < n"
  shows "sorted_wrt (<) (map Line (bErrs (batch_line ssh n line b)))
    \<and> (\<forall>e \<in> set (bErrs (batch_line ssh n line b)). Line e < Suc n)"
proof -
  obtain es where es: "bErrs (batch_line ssh n line b) = bErrs b @ es" "\<forall>e \<in> set es. Line e = n"
    "length es \<le> 1" using batch_line_errs by blast
  then consider "es = []" | e where "es = [e]" by (cases es) auto
  then show ?thesis using es assms by cases (auto simp: sorted_wrt_append)
qed

lemma batch_loop_inv:
  assumes "\<forall>k \<in> set (bKeys b). valid_key k" and "distinct (map kFingerprint (bKeys b))"
    and "sorted_wrt (<) (map Line (bErrs b))" and "\<forall>e \<in> set (bErrs b). Line e < Suc n"
  shows "(\<forall>k \<in> set (bKeys (batch_loop ssh n rest b)). valid_key k)
    \<and> distinct (map kFingerprint (bKeys (batch_loop ssh n rest b)))
    \<and> sorted_wrt (<) (map Line (bErrs (batch_loop ssh n rest b)))"
  using assms
proof (induction ssh n rest b rule: batch_loop.induct)
  case (1 ssh n rest b)
  let ?line = "case Cut rest nl of None \<Rightarrow> rest | Some (line, _) \<Rightarrow> line"
  note step = batch_line_valid [OF "1.prems"(1,2), of ssh "n + 1" ?line]
    batch_line_errs_sorted [OF "1.prems"(3), of "n + 1" ssh ?line]
  show ?case
  proof (cases "rest = []")
    case True
    then show ?thesis using "1.prems" by (simp add: batch_loop.simps [of ssh n])
  next
    case False
    then show ?thesis
      using "1.IH" [OF False] "1.prems" step
      by (cases "Cut rest nl") (auto simp: batch_loop.simps [of ssh n rest])
  qed
qed

text \<open>
  C34: a batch never returns a key that a validator would refuse, never two keys with one
  fingerprint, and at most one error per line, in the order of the lines: every accepted key has an
  allowlisted algorithm, a well-formed fingerprint, a printable trimmed comment and, for RSA, at
  least the minimum modulus.
\<close>

theorem batch_keys_valid_distinct:
  "(\<forall>k \<in> set (fst (ParseAuthorizedKeys ssh raw)). valid_key k)
   \<and> distinct (map kFingerprint (fst (ParseAuthorizedKeys ssh raw)))
   \<and> sorted_wrt (<) (map Line (snd (ParseAuthorizedKeys ssh raw)))"
  using batch_loop_inv [of "\<lparr>bKeys = [], bErrs = []\<rparr>" 0 ssh raw]
  by (simp add: ParseAuthorizedKeys_def Let_def)

theorem batch_keys_valid_distinct_witness:
  "map kComment (fst (ParseAuthorizedKeys one_key_ssh
     (''# mine'' @ [nl] @ ''ssh-ed25519 Sw== a'' @ [nl, nl] @ ''ssh-ed25519 Sw== b'' @ [cr, nl] @ ''x'')))
     = [''a'']
   \<and> snd (ParseAuthorizedKeys one_key_ssh
     (''# mine'' @ [nl] @ ''ssh-ed25519 Sw== a'' @ [nl, nl] @ ''ssh-ed25519 Sw== b'' @ [cr, nl] @ ''x''))
     = [\<lparr>Line = 4, Err = errDuplicate\<rparr>, \<lparr>Line = 5, Err = ErrMalformed\<rparr>]
   \<and> distinct (map kFingerprint (fst (ParseAuthorizedKeys one_key_ssh ''ssh-ed25519 Sw== a'')))"
  using batch_keys_valid_distinct [of one_key_ssh "''ssh-ed25519 Sw== a''"]
  by (intro conjI) (code_simp, code_simp, blast)

text \<open>
  The lines of a submission that the batch looks at: the pieces between line feeds, numbered from 1, without
  the carriage returns at their end, that are neither blank nor a comment.
\<close>

definition key_lines :: "bytes \<Rightarrow> (nat \<times> bytes) list" where
  "key_lines raw =
     filter (\<lambda>(n, line). TrimSpace line \<noteq> [] \<and> \<not> comment_line line)
       (enumerate 1 (map (\<lambda>line. TrimRight line [cr]) (Split raw nl)))"

text \<open>
  The verdict on one of them: that of the single-key parser, except that a carriage return inside the line,
  which the single-key parser refuses, is left to the library.
\<close>

definition line_verdict :: "'p ssh_lib \<Rightarrow> bytes \<Rightarrow> keys_err + ParsedKey" where
  "line_verdict ssh line =
     (if cr \<in> set line \<and> length line \<le> MaxLineBytes then parseKeyLine ssh line else Parse ssh line)"

text \<open>Keys and errors of a list of verdicts; a fingerprint that was accepted before is a duplicate.\<close>

fun sort_out :: "string set \<Rightarrow> (nat \<times> (keys_err + ParsedKey)) list \<Rightarrow> ParsedKey list \<times> LineError list" where
  "sort_out seen [] = ([], [])"
| "sort_out seen ((n, Inl e) # vs) = apsnd (Cons \<lparr>Line = n, Err = e\<rparr>) (sort_out seen vs)"
| "sort_out seen ((n, Inr k) # vs) =
     (if kFingerprint k \<in> seen then apsnd (Cons \<lparr>Line = n, Err = errDuplicate\<rparr>) (sort_out seen vs)
      else apfst (Cons k) (sort_out (insert (kFingerprint k) seen) vs))"

lemma private_split:
  assumes "containsPrivateKeyMaterial a \<or> containsPrivateKeyMaterial b" and "byte c < 128"
  shows "containsPrivateKeyMaterial (a @ c # b)"
proof -
  have "contains_run (map lower_rune (runes (a @ c # b))) m"
    if "contains_run (map lower_rune (runes a)) m \<or> contains_run (map lower_rune (runes b)) m" for m
    using that contains_run_append [of "[lower_rune (byte c)]" m "map lower_rune (runes b)"]
      contains_run_append [of "map lower_rune (runes a)" m "lower_rune (byte c) # map lower_rune (runes b)"]
    by (auto simp: runes_split [OF assms(2)])
  then show ?thesis using assms(1) unfolding containsPrivateKeyMaterial_def Let_def list_ex_iff by blast
qed

lemma private_trimmed:
  assumes "\<not> containsPrivateKeyMaterial line"
  shows "\<not> containsPrivateKeyMaterial (TrimRight line [cr])"
proof -
  obtain n where n: "line = TrimRight line [cr] @ replicate n cr" using TrimRight_one by blast
  then show ?thesis
    using assms private_split [of "TrimRight line [cr]" "replicate (n - 1) cr" cr] by (cases n) (auto simp: byte_def)
qed

lemma Parse_one_line:
  assumes "nl \<notin> set line" and "\<not> containsPrivateKeyMaterial line" and "TrimSpace line \<noteq> []" and "\<not> comment_line line"
  shows "Parse ssh line = (if MaxLineBytes < length line then Inl ErrTooLarge
    else if cr \<in> set line then Inl ErrMultipleKeys else parseKeyLine ssh line)"
proof -
  have "\<not> HasSuffix line [nl]" using assms(1) by (auto simp: HasSuffix_iff)
  then show ?thesis using assms by (auto simp: Parse_def chomp_def ContainsAny_def Let_def)
qed

text \<open>What one line adds to the batch, in terms of its verdict.\<close>

definition add_verdict :: "nat \<Rightarrow> (keys_err + ParsedKey) \<Rightarrow> batch \<Rightarrow> batch" where
  "add_verdict n v b =
     (case v of
        Inl e \<Rightarrow> b\<lparr>bErrs := bErrs b @ [\<lparr>Line = n, Err = e\<rparr>]\<rparr>
      | Inr k \<Rightarrow> if kFingerprint k \<in> kFingerprint ` set (bKeys b)
                 then b\<lparr>bErrs := bErrs b @ [\<lparr>Line = n, Err = errDuplicate\<rparr>]\<rparr> else b\<lparr>bKeys := bKeys b @ [k]\<rparr>)"

lemma batch_line_verdict:
  assumes "nl \<notin> set line" and "\<not> containsPrivateKeyMaterial line"
  shows "batch_line ssh n line b = (let l = TrimRight line [cr] in
    if TrimSpace l \<noteq> [] \<and> \<not> comment_line l then add_verdict n (line_verdict ssh l) b else b)"
proof -
  let ?l = "TrimRight line [cr]"
  have "nl \<notin> set ?l" using assms(1) TrimRight_one [of line cr] by (metis Un_iff set_append)
  then have "TrimSpace ?l \<noteq> [] \<Longrightarrow> \<not> comment_line ?l \<Longrightarrow>
      line_verdict ssh ?l = (if MaxLineBytes < length ?l then Inl ErrTooLarge else parseKeyLine ssh ?l)"
    using Parse_one_line [of ?l ssh] private_trimmed [OF assms(2)] by (simp add: line_verdict_def)
  then show ?thesis by (auto simp: batch_line_def Let_def add_verdict_def split: sum.splits)
qed

lemma sort_out_add:
  "(bKeys b @ fst (sort_out (kFingerprint ` set (bKeys b)) ((n, v) # vs)),
    bErrs b @ snd (sort_out (kFingerprint ` set (bKeys b)) ((n, v) # vs))) =
   (bKeys (add_verdict n v b) @ fst (sort_out (kFingerprint ` set (bKeys (add_verdict n v b))) vs),
    bErrs (add_verdict n v b) @ snd (sort_out (kFingerprint ` set (bKeys (add_verdict n v b))) vs))"
  by (cases v) (auto simp: add_verdict_def)

lemma key_lines_from_Nil: "TrimSpace (TrimRight [] [cr]) = []"
  using set_TrimSpace [of "[]"] by (simp add: TrimRight_def)

lemma batch_loop_verdicts:
  assumes "\<not> containsPrivateKeyMaterial rest"
  shows "(let b' = batch_loop ssh n rest b in (bKeys b', bErrs b')) =
    (let r = sort_out (kFingerprint ` set (bKeys b)) (map (apsnd (line_verdict ssh))
         (filter (\<lambda>(n, line). TrimSpace line \<noteq> [] \<and> \<not> comment_line line)
           (enumerate (n + 1) (map (\<lambda>line. TrimRight line [cr]) (Split rest nl)))))
     in (bKeys b @ fst r, bErrs b @ snd r))"
  using assms
proof (induction ssh n rest b rule: batch_loop.induct)
  case (1 ssh n rest b)
  show ?case
  proof (cases "rest = []")
    case True
    then show ?thesis by (simp add: batch_loop.simps [of ssh n "[]"] key_lines_from_Nil)
  next
    case False
    show ?thesis
    proof (cases "Cut rest nl")
      case None
      then have "nl \<notin> set rest" by (auto simp: Cut_def split: if_splits)
      then show ?thesis
        using False None batch_line_verdict [of rest ssh "n + 1" b] "1.prems" sort_out_add [of b "n + 1" "line_verdict ssh (TrimRight rest [cr])" "[]"]
        by (simp add: batch_loop.simps [of ssh n rest] Split_Cut [of rest] Let_def)
    next
      case (Some p)
      obtain line rest' where p: "p = (line, rest')" by (cases p)
      then have cut: "rest = line @ nl # rest'" "nl \<notin> set line" using Some by (simp_all add: Cut_Some)
      then have priv: "\<not> containsPrivateKeyMaterial line" "\<not> containsPrivateKeyMaterial rest'"
        using "1.prems" private_split [of line rest' nl] by (auto simp: byte_def)
      let ?b = "batch_line ssh (n + 1) line b"
      have "(let b' = batch_loop ssh (n + 1) rest' ?b in (bKeys b', bErrs b')) =
        (let r = sort_out (kFingerprint ` set (bKeys ?b)) (map (apsnd (line_verdict ssh))
            (filter (\<lambda>(n, line). TrimSpace line \<noteq> [] \<and> \<not> comment_line line)
              (enumerate (n + 1 + 1) (map (\<lambda>line. TrimRight line [cr]) (Split rest' nl)))))
         in (bKeys ?b @ fst r, bErrs ?b @ snd r))"
        using "1.IH" [OF False Some p [symmetric] priv(2)] .
      then show ?thesis
        using False Some p batch_line_verdict [OF cut(2) priv(1), of ssh "n + 1" b]
          sort_out_add [of b "n + 1" "line_verdict ssh (TrimRight line [cr])"]
        by (simp add: batch_loop.simps [of ssh n rest] Split_Cut [of rest] Let_def)
    qed
  qed
qed

text \<open>
  C35: the batch decides a submission line by line as the single-key parser does. A submission over the size
  limit or with private key material in it is refused as a whole. Otherwise the result is that of the
  single-key parser on every piece between line feeds, in order, without the carriage returns at its end:
  blank pieces and comments are passed over, an accepted key is a key of the batch unless an earlier one
  has its fingerprint, and an error is reported under the number of the line. The one exception is a piece
  within the size limit with a carriage return inside, which is given to the library instead.
\<close>

theorem batch_agrees_with_parse:
  "ParseAuthorizedKeys ssh raw =
     (if MaxFileBytes < length raw then ([], [\<lparr>Line = 0, Err = ErrTooLarge\<rparr>])
      else if containsPrivateKeyMaterial raw then ([], [\<lparr>Line = 0, Err = ErrPrivateKey\<rparr>])
      else sort_out {} (map (apsnd (line_verdict ssh)) (key_lines raw)))"
  using batch_loop_verdicts [of raw ssh 0 "\<lparr>bKeys = [], bErrs = []\<rparr>"]
  by (simp add: ParseAuthorizedKeys_def key_lines_def Let_def)

text \<open>The single-key parser refuses the exception.\<close>

lemma Parse_refuses_inner_return:
  assumes "(n, line) \<in> set (key_lines raw)" and "\<not> containsPrivateKeyMaterial line"
    and "cr \<in> set line" and "length line \<le> MaxLineBytes"
  shows "Parse ssh line = Inl ErrMultipleKeys"
proof -
  have "nl \<notin> set p" if "p \<in> set (Split s nl)" for p s
    using that by (induction s nl arbitrary: p rule: Split.induct) (auto split: list.splits if_splits)
  moreover obtain p where p: "p \<in> set (Split raw nl)" "line = TrimRight p [cr]"
  proof -
    have "n - 1 < length (Split raw nl)" "line = TrimRight (Split raw nl ! (n - 1)) [cr]"
      using assms(1) by (auto simp: key_lines_def in_set_enumerate_eq)
    then show ?thesis by (intro that [of "Split raw nl ! (n - 1)"]) simp_all
  qed
  ultimately have "nl \<notin> set line" using TrimRight_one [of p cr] by (metis Un_iff set_append)
  then show ?thesis using Parse_one_line [of line ssh] assms by (auto simp: key_lines_def)
qed

end
