(* ===== verification/Managed_Block.thy ===== *)
theory Managed_Block
  imports Keys
begin

text \<open>
  \<^verbatim>\<open>internal/managedblock/block.go\<close>: the delimited region of an authorized_keys file that the
  service owns. The Go code works on byte offsets; the theory relates them to the list of physical
  lines, on which the marker rules are stated.
\<close>

section \<open>Markers and rendering\<close>

definition BeginMarker :: string where
  "BeginMarker = ''# >>> sshpilot-vallet managed keys BEGIN >>>''"

definition EndMarker :: string where
  "EndMarker = ''# <<< sshpilot-vallet managed keys END <<<''"

text \<open>
  The errors of the package. \<open>ErrKey i e\<close> is the refusal of the \<open>i\<close>-th published key (from 1) and
  \<open>ErrIO\<close> a failed file system call under the static prefix of its message.
\<close>

datatype block_err =
    ErrMalformedBlock
  | ErrKey nat keys_err
  | ErrNotRegularFile
  | ErrFileTooLarge
  | ErrBadPath
  | ErrWouldEmpty nat
  | ErrIO string

definition isMarker :: "string \<Rightarrow> string \<Rightarrow> bool" where
  "isMarker line marker \<longleftrightarrow> Trim (TrimSuffix (TrimSuffix line [nl]) [cr]) [spc, tab] = marker"

definition checkEmitted :: "string \<Rightarrow> block_err + unit" where
  "checkEmitted line =
     (if \<not> HasSuffix line [nl] \<or> ContainsAny (butlast line) [nl, cr, nul] then Inl ErrMalformedBlock
      else if isMarker line BeginMarker \<or> isMarker line EndMarker then Inl ErrMalformedBlock
      else Inr ())"

fun render_keys :: "'p ssh_lib \<Rightarrow> nat \<Rightarrow> string list \<Rightarrow> block_err + bytes" where
  "render_keys ssh i [] = Inr []"
| "render_keys ssh i (raw # raws) =
     (case Parse ssh raw of
        Inl e \<Rightarrow> Inl (ErrKey (i + 1) e)
      | Inr k \<Rightarrow>
          (case AuthorizedKeyLine ssh k of
             Inl e \<Rightarrow> Inl (ErrKey (i + 1) e)
           | Inr line \<Rightarrow>
               (case checkEmitted line of
                  Inl e \<Rightarrow> Inl e
                | Inr _ \<Rightarrow>
                    (case render_keys ssh (i + 1) raws of
                       Inl e \<Rightarrow> Inl e
                     | Inr rest \<Rightarrow> Inr (line @ rest)))))"

definition Render :: "'p ssh_lib \<Rightarrow> string list \<Rightarrow> block_err + bytes" where
  "Render ssh pubkeys =
     (case render_keys ssh 0 pubkeys of
        Inl e \<Rightarrow> Inl e
      | Inr body \<Rightarrow> Inr (BeginMarker @ [nl] @ body @ EndMarker @ [nl]))"

section \<open>Spans and splicing\<close>

record span =
  sStart :: nat
  sEnd :: nat

definition IndexByte :: "bytes \<Rightarrow> char \<Rightarrow> nat option" where
  "IndexByte s c = (if c \<in> set s then Some (length (takeWhile (\<lambda>x. x \<noteq> c) s)) else None)"

function line_spans_from :: "bytes \<Rightarrow> nat \<Rightarrow> span list" where
  "line_spans_from b off =
     (if off < length b then
        (case IndexByte (drop off b) nl of
           None \<Rightarrow> [\<lparr>sStart = off, sEnd = length b\<rparr>]
         | Some i \<Rightarrow> \<lparr>sStart = off, sEnd = off + i + 1\<rparr> # line_spans_from b (off + i + 1))
      else [])"
  by pat_completeness auto
termination
  by (relation "measure (\<lambda>(b, off). length b - off)") auto

declare line_spans_from.simps [simp del]

definition lineSpans :: "bytes \<Rightarrow> span list" where
  "lineSpans b = line_spans_from b 0"

definition slice :: "bytes \<Rightarrow> nat \<Rightarrow> nat \<Rightarrow> bytes" where
  "slice b i j = take (j - i) (drop i b)"

definition locate :: "bytes \<Rightarrow> block_err + (nat \<times> nat) option" where
  "locate existing =
     (let line = (\<lambda>s. slice existing (sStart s) (sEnd s));
          begins = filter (\<lambda>s. isMarker (line s) BeginMarker) (lineSpans existing);
          ends = filter (\<lambda>s. \<not> isMarker (line s) BeginMarker \<and> isMarker (line s) EndMarker)
                   (lineSpans existing)
      in case (begins, ends) of
           ([], []) \<Rightarrow> Inr None
         | ([b], [e]) \<Rightarrow>
             if sStart b < sStart e then Inr (Some (sStart b, sEnd e)) else Inl ErrMalformedBlock
         | _ \<Rightarrow> Inl ErrMalformedBlock)"

definition key_line :: "string \<Rightarrow> bool" where
  "key_line line \<longleftrightarrow> \<not> isMarker line BeginMarker \<and> \<not> isMarker line EndMarker
     \<and> Trim (TrimSuffix (TrimSuffix line [nl]) [cr]) [spc, tab] \<noteq> []"

definition blockKeyCount :: "bytes \<Rightarrow> nat" where
  "blockKeyCount b =
     (case locate b of
        Inr (Some (start, stop)) \<Rightarrow>
          (let inner = slice b start stop in
           length (filter (\<lambda>s. key_line (slice inner (sStart s) (sEnd s))) (lineSpans inner)))
      | _ \<Rightarrow> 0)"

definition Merge :: "bytes \<Rightarrow> bytes \<Rightarrow> block_err + bytes" where
  "Merge existing block =
     (case locate existing of
        Inl e \<Rightarrow> Inl e
      | Inr (Some (start, stop)) \<Rightarrow> Inr (take start existing @ block @ drop stop existing)
      | Inr None \<Rightarrow>
          Inr (existing @ (if existing \<noteq> [] \<and> last existing \<noteq> nl then [nl] else []) @ block))"

section \<open>Physical lines\<close>

text \<open>The lines of a file, each with its terminator; only the last may lack one.\<close>

function split_lines :: "bytes \<Rightarrow> bytes list" where
  "split_lines b =
     (if b = [] then []
      else case Cut b nl of
             None \<Rightarrow> [b]
           | Some (l, rest) \<Rightarrow> (l @ [nl]) # split_lines rest)"
  by pat_completeness auto
termination
  by (relation "measure length") (auto simp: Cut_Some)

declare split_lines.simps [simp del]

text \<open>A line with its terminator at its end and nowhere else.\<close>

definition terminated :: "bytes \<Rightarrow> bool" where
  "terminated l \<longleftrightarrow> l \<noteq> [] \<and> last l = nl \<and> nl \<notin> set (butlast l)"

lemma terminated_iff: "terminated l \<longleftrightarrow> (\<exists>x. l = x @ [nl] \<and> nl \<notin> set x)"
  by (auto simp: terminated_def) (metis append_butlast_last_id)

lemma split_lines_Nil [simp]: "split_lines [] = []"
  by (simp add: split_lines.simps)

lemma split_lines_terminated: "terminated l \<Longrightarrow> split_lines (l @ b) = l # split_lines b"
  by (auto simp: terminated_iff split_lines.simps [of "_ @ nl # b"])

lemma split_lines_open: "b \<noteq> [] \<Longrightarrow> nl \<notin> set b \<Longrightarrow> split_lines b = [b]"
  by (simp add: split_lines.simps [of b] Cut_def)

lemma split_lines_concat:
  "\<forall>l \<in> set ls. terminated l \<Longrightarrow> split_lines (concat ls @ b) = ls @ split_lines b"
  by (induction ls) (auto simp: split_lines_terminated)

lemma concat_split_lines [simp]: "concat (split_lines b) = b"
proof (induction b rule: split_lines.induct)
  case (1 b)
  then show ?case by (cases "Cut b nl") (auto simp: split_lines.simps [of b] Cut_Some)
qed

text \<open>Case distinction on a file: empty, one unterminated line, or a terminated line and the rest.\<close>

lemma file_cases:
  obtains (empty) "b = []"
  | (open_line) "b \<noteq> []" "nl \<notin> set b"
  | (line) l rest where "b = l @ rest" "terminated l" "length rest < length b"
proof (cases "nl \<in> set b")
  case True
  then obtain l rest where "Cut b nl = Some (l, rest)" by (auto simp: Cut_def)
  then have "b = (l @ [nl]) @ rest" "terminated (l @ [nl])" by (auto simp: Cut_Some terminated_iff)
  then show ?thesis using line [of "l @ [nl]" rest] by simp
next
  case False
  then show ?thesis using empty open_line by blast
qed

lemma split_lines_shape:
  "split_lines b = pre @ l # post \<Longrightarrow> (\<forall>x \<in> set pre. terminated x) \<and> (post \<noteq> [] \<longrightarrow> terminated l)"
proof (induction b arbitrary: pre rule: measure_induct_rule [where f = length])
  case (less b)
  show ?case
  proof (cases b rule: file_cases)
    case (line l' rest)
    then have "l' # split_lines rest = pre @ l # post" using less.prems by (simp add: split_lines_terminated)
    then show ?thesis using less.IH [OF line(3)] line(2) by (cases pre) auto
  qed (use less.prems in \<open>auto simp: split_lines_open Cons_eq_append_conv append_eq_Cons_conv\<close>)
qed

section \<open>Spans are lines\<close>

fun spans_at :: "nat \<Rightarrow> bytes list \<Rightarrow> span list" where
  "spans_at off [] = []"
| "spans_at off (l # ls) = \<lparr>sStart = off, sEnd = off + length l\<rparr> # spans_at (off + length l) ls"

lemma line_spans_from_eq:
  "b = pre @ suf \<Longrightarrow> line_spans_from b (length pre) = spans_at (length pre) (split_lines suf)"
proof (induction suf arbitrary: pre rule: measure_induct_rule [where f = length])
  case (less suf)
  show ?case
  proof (cases suf rule: file_cases)
    case empty
    then show ?thesis using less.prems by (simp add: line_spans_from.simps)
  next
    case open_line
    then show ?thesis using less.prems
      by (subst line_spans_from.simps) (simp add: IndexByte_def split_lines_open)
  next
    case (line l rest)
    then obtain x where x: "l = x @ [nl]" "nl \<notin> set x" by (auto simp: terminated_iff)
    have "IndexByte (drop (length pre) b) nl = Some (length x)"
      using less.prems line x by (simp add: IndexByte_def)
    moreover have "line_spans_from b (length pre + length x + 1) =
        spans_at (length pre + length x + 1) (split_lines rest)"
      using less.IH [OF line(3), of "pre @ l"] less.prems line x by simp
    moreover have "length pre < length b" using less.prems line x by simp
    ultimately show ?thesis
      using line x split_lines_terminated [OF line(2), of rest] by (subst line_spans_from.simps) simp
  qed
qed

lemma split_lines_code [code]:
  "split_lines [] = []"
  "split_lines (c # cs) =
     (case Cut (c # cs) nl of None \<Rightarrow> [c # cs] | Some (l, rest) \<Rightarrow> (l @ [nl]) # split_lines rest)"
  by (simp_all add: split_lines.simps [of "c # cs"])

lemma lineSpans_eq [code]: "lineSpans b = spans_at 0 (split_lines b)"
  using line_spans_from_eq [of b "[]" b] by (simp add: lineSpans_def)


lemma slice_append: "length pre = i \<Longrightarrow> i + length l = j \<Longrightarrow> slice (pre @ l @ post) i j = l"
  by (auto simp: slice_def)

lemma filter_spans_at:
  "filter (\<lambda>s. P (slice (pre @ concat ls) (sStart s) (sEnd s))) (spans_at (length pre) ls) =
     map snd (filter (\<lambda>(l, s). P l) (zip ls (spans_at (length pre) ls)))"
proof (induction ls arbitrary: pre)
  case Nil
  then show ?case by simp
next
  case (Cons l ls)
  have "slice (pre @ l @ concat ls) (length pre) (length pre + length l) = l"
    by (rule slice_append) simp_all
  then show ?case using Cons [of "pre @ l"] by simp
qed

lemma filter_lineSpans:
  "filter (\<lambda>s. P (slice b (sStart s) (sEnd s))) (lineSpans b) =
     map snd (filter (\<lambda>(l, s). P l) (zip (split_lines b) (spans_at 0 (split_lines b))))"
  using filter_spans_at [of P "[]" "split_lines b"] by (simp add: lineSpans_eq)

lemma spans_at_append:
  "spans_at off (xs @ ys) = spans_at off xs @ spans_at (off + length (concat xs)) ys"
  by (induction xs arbitrary: off) (auto simp: ac_simps)

lemma length_spans_at [simp]: "length (spans_at off ls) = length ls"
  by (induction ls arbitrary: off) auto

lemma length_filter_zip:
  "length ls = length ss \<Longrightarrow> length (filter (\<lambda>(l, s). P l) (zip ls ss)) = length (filter P ls)"
  by (induction ls ss rule: list_induct2) auto

lemma length_filter_lineSpans:
  "length (filter (\<lambda>s. P (slice b (sStart s) (sEnd s))) (lineSpans b)) = length (filter P (split_lines b))"
  unfolding filter_lineSpans [of P] length_map by (rule length_filter_zip) simp

lemma blockKeyCount_code [code]:
  "blockKeyCount b =
     (case locate b of
        Inl e \<Rightarrow> 0
      | Inr None \<Rightarrow> 0
      | Inr (Some (start, stop)) \<Rightarrow> length (filter key_line (split_lines (slice b start stop))))"
  by (auto simp: blockKeyCount_def length_filter_lineSpans Let_def split: sum.split option.split)

section \<open>Where the block is\<close>

abbreviation begin_line :: "bytes \<Rightarrow> bool" where
  "begin_line l \<equiv> isMarker l BeginMarker"

abbreviation end_line :: "bytes \<Rightarrow> bool" where
  "end_line l \<equiv> isMarker l EndMarker"

text \<open>Lines that are no marker.\<close>

definition plain :: "bytes list \<Rightarrow> bool" where
  "plain ls \<longleftrightarrow> (\<forall>l \<in> set ls. \<not> begin_line l \<and> \<not> end_line l)"

lemma plain_simps [simp]:
  "plain []" "plain (l # ls) \<longleftrightarrow> \<not> begin_line l \<and> \<not> end_line l \<and> plain ls"
  "plain (ls @ ls') \<longleftrightarrow> plain ls \<and> plain ls'"
  by (auto simp: plain_def)

lemma begin_not_end: "begin_line l \<Longrightarrow> \<not> end_line l"
  by (auto simp: isMarker_def BeginMarker_def EndMarker_def)

text \<open>
  The spans of marked lines: with no marked line there is none, with one it is the span of that line.
\<close>

lemma filter_plain:
  assumes "\<forall>l \<in> set ls. \<not> P l"
  shows "filter (\<lambda>(l, s). P l) (zip ls (ss :: span list)) = []"
  using assms by (auto simp: filter_empty_conv dest: set_zip_leftD)

text \<open>The spans of the marked lines, by kind.\<close>

definition begins :: "bytes list \<Rightarrow> (bytes \<times> span) list" where
  "begins ls = filter (\<lambda>(l, s). begin_line l) (zip ls (spans_at 0 ls))"

definition ends :: "bytes list \<Rightarrow> (bytes \<times> span) list" where
  "ends ls = filter (\<lambda>(l, s). \<not> begin_line l \<and> end_line l) (zip ls (spans_at 0 ls))"

lemma locate_marked [code]:
  "locate b =
     (case (map snd (begins (split_lines b)), map snd (ends (split_lines b))) of
        ([], []) \<Rightarrow> Inr None
      | ([x], [y]) \<Rightarrow> if sStart x < sStart y then Inr (Some (sStart x, sEnd y)) else Inl ErrMalformedBlock
      | _ \<Rightarrow> Inl ErrMalformedBlock)"
  unfolding locate_def Let_def begins_def ends_def filter_lineSpans [of begin_line b]
    filter_lineSpans [of "\<lambda>l. \<not> begin_line l \<and> end_line l" b] ..

lemma zip_spans_at:
  "zip (xs @ l # ys) (spans_at off (xs @ l # ys)) =
     zip xs (spans_at off xs) @
     (l, \<lparr>sStart = off + length (concat xs), sEnd = off + length (concat xs) + length l\<rparr>) #
     zip ys (spans_at (off + length (concat xs) + length l) ys)"
  by (simp add: spans_at_append)

lemma plain_unmarked:
  fixes ss :: "span list"
  assumes "plain ls"
  shows "filter (\<lambda>(l, s). begin_line l) (zip ls ss) = []"
    "filter (\<lambda>(l, s). \<not> begin_line l \<and> end_line l) (zip ls ss) = []"
  using assms filter_plain [of ls begin_line ss] filter_plain [of ls "\<lambda>l. \<not> begin_line l \<and> end_line l" ss]
  by (auto simp: plain_def)

lemma locate_none: "plain (split_lines b) \<Longrightarrow> locate b = Inr None"
  by (simp add: locate_marked begins_def ends_def plain_unmarked)

lemma marker_length: "begin_line l \<or> end_line l \<Longrightarrow> 0 < length l"
  by (auto simp: isMarker_def BeginMarker_def EndMarker_def go_string)

lemma locate_found:
  assumes lines: "split_lines b = pre @ bl # mid @ el # post"
    and m: "begin_line bl" "end_line el" "plain pre" "plain mid" "plain post"
  shows "locate b = Inr (Some (length (concat pre), length (concat (pre @ bl # mid @ [el]))))"
  using m begin_not_end marker_length [of bl] unfolding locate_marked lines begins_def ends_def
  by (auto simp: zip_spans_at spans_at_append plain_unmarked)

lemma locate_reversed:
  assumes lines: "split_lines b = pre @ el # mid @ bl # post"
    and m: "begin_line bl" "end_line el" "plain pre" "plain mid" "plain post"
  shows "locate b = Inl ErrMalformedBlock"
  using m begin_not_end unfolding locate_marked lines begins_def ends_def
  by (auto simp: zip_spans_at spans_at_append plain_unmarked)

lemma length_begins: "length (begins ls) = length (filter begin_line ls)"
  unfolding begins_def by (rule length_filter_zip) simp

lemma length_ends: "length (ends ls) = length (filter (\<lambda>l. \<not> begin_line l \<and> end_line l) ls)"
  unfolding ends_def by (rule length_filter_zip) simp

lemma filter_single:
  assumes "filter P ls = [x]"
  obtains us vs where "ls = us @ x # vs" "P x" "\<forall>u \<in> set us \<union> set vs. \<not> P u"
proof -
  from assms obtain us vs where "ls = us @ x # vs" "\<forall>u \<in> set us. \<not> P u" "P x" "[] = filter P vs"
    unfolding filter_eq_Cons_iff by auto
  moreover from this(4) have "\<forall>u \<in> set vs. \<not> P u" by (metis filter_empty_conv)
  ultimately show thesis using that by blast
qed

text \<open>The three marker states of a file, as a case distinction on its lines.\<close>

lemma locate_cases:
  obtains (none) "plain (split_lines b)" "locate b = Inr None"
  | (found) pre bl mid el post where "split_lines b = pre @ bl # mid @ el # post"
      "begin_line bl" "end_line el" "plain pre" "plain mid" "plain post"
      "locate b = Inr (Some (length (concat pre), length (concat (pre @ bl # mid @ [el]))))"
  | (malformed) "locate b = Inl ErrMalformedBlock"
proof -
  let ?ls = "split_lines b"
  let ?B = "filter begin_line ?ls" and ?E = "filter (\<lambda>l. \<not> begin_line l \<and> end_line l) ?ls"
  consider "?B = []" "?E = []" | bl el where "?B = [bl]" "?E = [el]"
    | "\<not> (length ?B = 0 \<and> length ?E = 0)" "\<not> (length ?B = 1 \<and> length ?E = 1)"
    by (cases ?B; cases ?E; cases "tl ?B"; cases "tl ?E") auto
  then show thesis
  proof cases
    case 1
    then have "plain ?ls" by (auto simp: plain_def filter_empty_conv)
    then show thesis using none locate_none by blast
  next
    case (2 bl el)
    obtain xs ys where b: "?ls = xs @ bl # ys" "begin_line bl"
      and noB: "\<forall>l \<in> set xs \<union> set ys. \<not> begin_line l"
      using filter_single [OF 2(1)] by metis
    have E: "filter end_line xs @ filter end_line ys = [el]"
      using 2(2) b noB by (auto simp: filter_empty_conv cong: filter_cong)
    then consider "filter end_line xs = []" "filter end_line ys = [el]"
      | "filter end_line xs = [el]" "filter end_line ys = []"
      by (auto simp: append_eq_Cons_conv)
    then show thesis
    proof cases
      case 1
      obtain mid post where "ys = mid @ el # post" "end_line el" "\<forall>l \<in> set mid \<union> set post. \<not> end_line l"
        using filter_single [OF 1(2)] by metis
      then show thesis
        using b noB 1 found locate_found [of b xs bl mid el post]
        by (auto simp: plain_def filter_empty_conv)
    next
      case 2
      obtain pre mid where "xs = pre @ el # mid" "end_line el" "\<forall>l \<in> set pre \<union> set mid. \<not> end_line l"
        using filter_single [OF 2(1)] by metis
      then show thesis
        using b noB 2 malformed locate_reversed [of b pre el mid bl ys]
        by (auto simp: plain_def filter_empty_conv)
    qed
  next
    case 3
    then have "\<not> (length (begins ?ls) = 0 \<and> length (ends ?ls) = 0)"
      "\<not> (length (begins ?ls) = 1 \<and> length (ends ?ls) = 1)"
      by (simp_all only: length_begins length_ends not_False_eq_True)
    then have "locate b = Inl ErrMalformedBlock"
      by (auto simp: locate_marked split: list.splits)
    then show thesis by (rule malformed)
  qed
qed

section \<open>Rendered blocks\<close>

abbreviation begin_text :: bytes where "begin_text \<equiv> BeginMarker @ [nl]"
abbreviation end_text :: bytes where "end_text \<equiv> EndMarker @ [nl]"

definition block_of :: "bytes list \<Rightarrow> bytes" where
  "block_of body = begin_text @ concat body @ end_text"

lemma marker_lines [simp]:
  "begin_line begin_text" "end_line end_text" "\<not> begin_line end_text" "\<not> end_line begin_text"
  "terminated begin_text" "terminated end_text"
  by code_simp+

lemma block_lines:
  "\<forall>l \<in> set body. terminated l \<Longrightarrow> split_lines (block_of body @ b) = begin_text # body @ end_text # split_lines b"
  using split_lines_concat [of "begin_text # body @ [end_text]" b] by (simp add: block_of_def)

text \<open>What a rendered body line is: one terminated line that is neither a marker nor blank.\<close>

definition body_line :: "bytes \<Rightarrow> bool" where
  "body_line l \<longleftrightarrow> terminated l \<and> key_line l"

lemma Trim_head: "c \<notin> set cutset \<Longrightarrow> Trim (c # cs) cutset \<noteq> []"
  by (auto simp: Trim_def TrimLeft_def TrimRight_def dropWhile_eq_Nil_conv)

lemma TrimSuffix_char_Cons: "c \<noteq> d \<Longrightarrow> \<exists>t. TrimSuffix (c # cs) [d] = c # t"
  by (cases "cs" rule: rev_cases) (auto simp: TrimSuffix_def HasSuffix_def)

lemma emitted_body_line:
  assumes line: "AuthorizedKeyLine ssh k = Inr line" and chk: "checkEmitted line = Inr ()"
  shows "body_line line"
proof -
  from chk have suf: "HasSuffix line [nl]" and one: "nl \<notin> set (butlast line)"
    and nm: "\<not> begin_line line" "\<not> end_line line"
    by (auto simp: checkEmitted_def ContainsAny_def split: if_splits)
  obtain wire where alg: "Algorithm_IsValid (kAlgorithm k)"
    and wire: "line = canonical (kAlgorithm k) wire (TrimSpace (kComment k)) @ [nl]"
    using line unfolding AuthorizedKeyLine_def AuthorizedKeyLineFrom_Inr by blast
  obtain c cs where c: "line = c # cs" "c = CHR ''s'' \<or> c = CHR ''e''"
    using canonical_head [OF alg, of wire "TrimSpace (kComment k)"] unfolding wire by auto
  then have "c \<noteq> nl" "c \<noteq> cr" by auto
  then obtain t t' where "TrimSuffix line [nl] = c # t" "TrimSuffix (c # t) [cr] = c # t'"
    unfolding c(1) using TrimSuffix_char_Cons by blast
  then have "Trim (TrimSuffix (TrimSuffix line [nl]) [cr]) [spc, tab] \<noteq> []"
    using c by (auto intro!: Trim_head)
  moreover have "terminated line" using suf one by (auto simp: terminated_def HasSuffix_iff)
  ultimately show ?thesis using nm by (simp add: body_line_def key_line_def)
qed

lemma render_keys_Inr:
  "render_keys ssh i raws = Inr out \<Longrightarrow>
     \<exists>body. out = concat body \<and> length body = length raws \<and> (\<forall>l \<in> set body. body_line l)"
proof (induction raws arbitrary: i out)
  case Nil
  then show ?case by (auto intro: exI [of _ "[]"])
next
  case (Cons raw raws)
  then obtain k line rest where "AuthorizedKeyLine ssh k = Inr line" "checkEmitted line = Inr ()"
    and rest: "render_keys ssh (i + 1) raws = Inr rest" "out = line @ rest"
    by (auto split: sum.splits)
  then have l: "body_line line" by (auto intro: emitted_body_line)
  from Cons.IH [OF rest(1)] obtain body where
    "rest = concat body" "length body = length raws" "\<forall>l \<in> set body. body_line l" by blast
  then show ?case using l rest(2) by (intro exI [of _ "line # body"]) simp
qed

lemma Render_Inr:
  assumes "Render ssh pubkeys = Inr block"
  obtains body where "block = block_of body" "length body = length pubkeys" "\<forall>l \<in> set body. body_line l"
  using assms render_keys_Inr [of ssh 0 pubkeys] that
  by (auto simp: Render_def block_of_def split: sum.splits)

section \<open>Splicing\<close>

text \<open>Terminating the last line of a file does not make it a marker.\<close>

lemma isMarker_terminate: "nl \<notin> set l \<Longrightarrow> isMarker (l @ [nl]) m \<longleftrightarrow> isMarker l m"
proof -
  assume "nl \<notin> set l"
  then have "\<not> HasSuffix l [nl]" by (auto simp: HasSuffix_iff)
  then show ?thesis by (simp add: isMarker_def) (simp add: TrimSuffix_def)
qed

definition separator :: "bytes \<Rightarrow> bytes" where
  "separator b = (if b \<noteq> [] \<and> last b \<noteq> nl then [nl] else [])"

lemma separated_lines:
  assumes "plain (split_lines b)"
  obtains ls where "b @ separator b = concat ls" "\<forall>l \<in> set ls. terminated l" "plain ls"
  using assms
proof (induction b arbitrary: thesis rule: measure_induct_rule [where f = length])
  case (less b)
  show ?case
  proof (cases b rule: file_cases)
    case empty
    then show ?thesis using less.prems(1) [of "[]"] by (simp add: separator_def)
  next
    case open_line
    then have "last b \<noteq> nl" using last_in_set by fastforce
    moreover have "terminated (b @ [nl])" using open_line by (auto simp: terminated_iff)
    ultimately show ?thesis
      using less.prems(1) [of "[b @ [nl]]"] less.prems(2) open_line
      by (simp add: separator_def split_lines_open isMarker_terminate)
  next
    case (line l rest)
    then have p: "\<not> begin_line l" "\<not> end_line l" "plain (split_lines rest)"
      using less.prems(2) by (simp_all add: split_lines_terminated)
    obtain ls where ls: "rest @ separator rest = concat ls" "\<forall>l \<in> set ls. terminated l" "plain ls"
      using less.IH [OF line(3)] p(3) by metis
    have "separator b = separator rest" using line by (cases "rest = []") (auto simp: separator_def terminated_def)
    then show ?thesis using less.prems(1) [of "l # ls"] ls line p by simp
  qed
qed

text \<open>
  A file that merging accepts splits into lines before and lines after, none of them a marker,
  around the place of the block; every block goes to that place.
\<close>

lemma merge_place:
  assumes "Merge existing block = Inr out"
  obtains pre post where "\<forall>l \<in> set pre. terminated l" "plain pre" "plain (split_lines post)"
    "\<And>block'. Merge existing block' = Inr (concat pre @ block' @ post)"
    "out = concat pre @ block @ post"
    "(plain (split_lines existing) \<and> concat pre = existing @ separator existing \<and> post = [])
     \<or> (\<exists>bl mid el. existing = concat pre @ bl @ concat mid @ el @ post
          \<and> begin_line bl \<and> end_line el \<and> plain mid)"
proof (cases existing rule: locate_cases)
  case none
  obtain ls where ls: "existing @ separator existing = concat ls" "\<forall>l \<in> set ls. terminated l" "plain ls"
    using separated_lines [OF none(1)] by metis
  have m: "Merge existing block' = Inr (concat ls @ block' @ [])" for block'
    using none(2) ls(1) [symmetric] by (simp add: Merge_def separator_def)
  then show thesis using that [of ls "[]"] ls none(1) assms by simp
next
  case (found pre bl mid el post)
  have whole: "existing = concat (pre @ bl # mid @ [el]) @ concat post"
    using concat_split_lines [of existing] found(1) by simp
  have m: "Merge existing block' = Inr (concat pre @ block' @ concat post)" for block'
    using found(7) by (simp add: Merge_def) (simp add: whole)
  have pre: "\<forall>l \<in> set pre. terminated l" using split_lines_shape [of existing pre bl] found(1) by simp
  have "\<forall>l \<in> set (pre @ bl # mid). terminated l" "post \<noteq> [] \<longrightarrow> terminated el"
    using split_lines_shape [of existing "pre @ bl # mid" el post] found(1) by auto
  then have "split_lines existing = (pre @ bl # mid @ [el]) @ split_lines (concat post)" if "post \<noteq> []"
    using that whole split_lines_concat [of "pre @ bl # mid @ [el]" "concat post"] by auto
  then have "split_lines (concat post) = post" using found(1) by (cases "post = []") auto
  moreover have "existing = concat pre @ bl @ concat mid @ el @ concat post" using whole by simp
  ultimately show thesis using that [of pre "concat post"] pre found(2-6) m assms by auto
next
  case malformed
  then show thesis using assms by (simp add: Merge_def)
qed

lemma merge_rendered:
  assumes "Render ssh pubkeys = Inr block" and "Merge existing block = Inr out"
  shows "Merge out block' = Merge existing block' \<and> blockKeyCount out = length pubkeys"
proof -
  obtain body where body: "block = block_of body" "length body = length pubkeys" "\<forall>l \<in> set body. body_line l"
    using Render_Inr [OF assms(1)] by metis
  obtain pre post where place: "\<forall>l \<in> set pre. terminated l" "plain pre" "plain (split_lines post)"
    "\<And>b. Merge existing b = Inr (concat pre @ b @ post)" "out = concat pre @ block @ post"
    using merge_place [OF assms(2)] by metis
  have ls: "split_lines out = pre @ begin_text # body @ end_text # split_lines post"
    using place body by (simp add: split_lines_concat block_lines body_line_def)
  have plain: "plain body" using body(3) by (auto simp: plain_def body_line_def key_line_def)
  have loc: "locate out = Inr (Some (length (concat pre), length (concat (pre @ begin_text # body @ [end_text]))))"
    by (rule locate_found [OF ls]) (use place plain in simp_all)
  have "Merge out block' = Inr (concat pre @ block' @ post)"
    unfolding Merge_def loc by (simp add: place(5) body(1) block_of_def)
  moreover have inner: "slice out (length (concat pre)) (length (concat (pre @ begin_text # body @ [end_text])))
      = block"
    by (simp add: place(5) body(1) block_of_def slice_def)
  have "length (filter key_line (split_lines block)) = length pubkeys"
    using block_lines [of body "[]"] body
    by (simp add: body_line_def key_line_def cong: filter_cong)
  then have "blockKeyCount out = length pubkeys"
    unfolding blockKeyCount_def loc
    by (simp add: inner [simplified] length_filter_lineSpans Let_def)
  ultimately show ?thesis using place(4) by simp
qed

section \<open>Properties\<close>

text \<open>
  C3: merging a rendered block keeps every line the service does not own. The lines of the result
  are the user's lines before, the rendered block, and the user's lines after; the file held either
  no marker, and the block follows its whole content and at most one line feed, or one block at that
  very place.
\<close>

theorem merge_keeps_user_lines:
  assumes "Render ssh pubkeys = Inr block" and "Merge existing block = Inr out"
  shows "\<exists>pre body post. split_lines out = pre @ begin_text # body @ end_text # split_lines post
    \<and> plain pre \<and> length body = length pubkeys \<and> plain body \<and> plain (split_lines post)
    \<and> ((plain (split_lines existing) \<and> concat pre = existing @ separator existing \<and> post = [])
       \<or> (\<exists>bl mid el. existing = concat pre @ bl @ concat mid @ el @ post
            \<and> begin_line bl \<and> end_line el \<and> plain mid))"
proof -
  obtain body where body: "block = block_of body" "length body = length pubkeys" "\<forall>l \<in> set body. body_line l"
    using Render_Inr [OF assms(1)] by metis
  obtain pre post where place: "\<forall>l \<in> set pre. terminated l" "plain pre" "plain (split_lines post)"
    "out = concat pre @ block @ post"
    "(plain (split_lines existing) \<and> concat pre = existing @ separator existing \<and> post = [])
     \<or> (\<exists>bl mid el. existing = concat pre @ bl @ concat mid @ el @ post
          \<and> begin_line bl \<and> end_line el \<and> plain mid)"
    using merge_place [OF assms(2)] by metis
  have "split_lines out = pre @ begin_text # body @ end_text # split_lines post"
    using place body by (simp add: split_lines_concat block_lines body_line_def)
  moreover have "plain body" using body(3) by (auto simp: plain_def body_line_def key_line_def)
  ultimately show ?thesis using place body by blast
qed

text \<open>A file with a key of the user's own on an unterminated line.\<close>

theorem merge_keeps_user_lines_witness:
  "\<exists>block out. Render one_key_ssh [''ssh-ed25519 Sw== a''] = Inr block
     \<and> Merge ''ssh-rsa AAAA mine'' block = Inr out
     \<and> (\<exists>pre body post. split_lines out = pre @ begin_text # body @ end_text # split_lines post
        \<and> plain pre \<and> length body = length [''ssh-ed25519 Sw== a''] \<and> plain body \<and> plain (split_lines post)
        \<and> ((plain (split_lines ''ssh-rsa AAAA mine'')
             \<and> concat pre = ''ssh-rsa AAAA mine'' @ separator ''ssh-rsa AAAA mine'' \<and> post = [])
           \<or> (\<exists>bl mid el. ''ssh-rsa AAAA mine'' = concat pre @ bl @ concat mid @ el @ post
                \<and> begin_line bl \<and> end_line el \<and> plain mid)))"
proof -
  have r: "Render one_key_ssh [''ssh-ed25519 Sw== a''] =
      Inr (begin_text @ ''ssh-ed25519 Sw== a'' @ [nl] @ end_text)" by code_simp
  have "locate ''ssh-rsa AAAA mine'' = Inr None"
    by (rule locate_none) (simp add: split_lines_open plain_def isMarker_def, code_simp)
  then have m: "Merge ''ssh-rsa AAAA mine'' (begin_text @ ''ssh-ed25519 Sw== a'' @ [nl] @ end_text) =
      Inr (''ssh-rsa AAAA mine'' @ [nl] @ begin_text @ ''ssh-ed25519 Sw== a'' @ [nl] @ end_text)"
    by (simp add: Merge_def)
  show ?thesis using r m merge_keeps_user_lines [OF r m] by blast
qed

text \<open>
  C4: the managed region belongs to the last writer. Merging one rendered block and then another
  gives what merging the second alone gives, so re-applying the same key set changes nothing; and
  the block counts exactly the published keys.
\<close>

theorem merge_last_writer_wins:
  assumes "Render ssh pubkeys = Inr block" and "Render ssh' pubkeys' = Inr block'"
    and "Merge existing block = Inr out"
  shows "Merge out block' = Merge existing block' \<and> blockKeyCount out = length pubkeys"
  by (rule merge_rendered [OF assms(1,3)])

text \<open>Publishing a key and then nothing leaves the user's file with an empty block.\<close>

theorem merge_last_writer_wins_witness:
  "\<exists>block out. Render one_key_ssh [''ssh-ed25519 Sw== a''] = Inr block
     \<and> Merge ''ssh-rsa AAAA mine'' block = Inr out
     \<and> Merge out (begin_text @ end_text) = Merge ''ssh-rsa AAAA mine'' (begin_text @ end_text)
     \<and> blockKeyCount out = 1"
proof -
  have r: "Render one_key_ssh [''ssh-ed25519 Sw== a''] =
      Inr (begin_text @ ''ssh-ed25519 Sw== a'' @ [nl] @ end_text)" by code_simp
  have r': "Render one_key_ssh [] = Inr (begin_text @ end_text)" by code_simp
  have "locate ''ssh-rsa AAAA mine'' = Inr None"
    by (rule locate_none) (simp add: split_lines_open plain_def isMarker_def, code_simp)
  then have m: "Merge ''ssh-rsa AAAA mine'' (begin_text @ ''ssh-ed25519 Sw== a'' @ [nl] @ end_text) =
      Inr (''ssh-rsa AAAA mine'' @ [nl] @ begin_text @ ''ssh-ed25519 Sw== a'' @ [nl] @ end_text)"
    by (simp add: Merge_def)
  show ?thesis using r m merge_last_writer_wins [OF r r' m] by auto
qed

text \<open>
  C5: merging fails closed. A file is accepted if and only if it has no marker line at all, or
  exactly one begin line and one end line in that order; every other marker state is refused.
\<close>

theorem merge_accepts_iff:
  "(\<exists>out. Merge existing block = Inr out) \<longleftrightarrow>
     plain (split_lines existing)
     \<or> (\<exists>pre bl mid el post. split_lines existing = pre @ bl # mid @ el # post
          \<and> begin_line bl \<and> end_line el \<and> plain pre \<and> plain mid \<and> plain post)"
proof (cases existing rule: locate_cases)
  case none
  then show ?thesis by (simp add: Merge_def)
next
  case (found pre bl mid el post)
  then have "\<exists>out. Merge existing block = Inr out" by (simp add: Merge_def)
  then show ?thesis using found(1-6) by blast
next
  case malformed
  then have "\<not> plain (split_lines existing)" using locate_none by auto
  moreover have False if "split_lines existing = pre @ bl # mid @ el # post" "begin_line bl" "end_line el"
    "plain pre" "plain mid" "plain post" for pre bl mid el post
    using locate_found [OF that] malformed by simp
  moreover have "\<not> (\<exists>out. Merge existing block = Inr out)" using malformed by (simp add: Merge_def)
  ultimately show ?thesis by blast
qed

end
