(* ===== verification/Block_Apply.thy ===== *)
theory Block_Apply
  imports Managed_Block "HOL-Library.Word"
begin

unbundle bit_operations_syntax

text \<open>
  \<^verbatim>\<open>internal/managedblock/apply.go\<close>: installing the managed block in a file. The state is the
  target's directory: whether it exists, and its entries by name. Every file system call of the Go
  code, the indirect ones of its \<^verbatim>\<open>hooks\<close> and the direct ones, has an outcome in a record; a write
  can fail after any number of bytes. The operations return the sequence of states they pass through,
  so that a statement about every state of the sequence is a statement about a crash at any point.
\<close>

section \<open>Paths\<close>

text \<open>\<^verbatim>\<open>filepath.Clean\<close> on a Unix path, by its components, and \<^verbatim>\<open>filepath.Split\<close>.\<close>

fun split_on :: "char \<Rightarrow> string \<Rightarrow> string list" where
  "split_on c [] = [[]]"
| "split_on c (x # xs) =
     (if x = c then [] # split_on c xs
      else (case split_on c xs of [] \<Rightarrow> [[x]] | p # ps \<Rightarrow> (x # p) # ps))"

definition clean_step :: "bool \<Rightarrow> string list \<Rightarrow> string \<Rightarrow> string list" where
  "clean_step rooted stack part =
     (if part = [] \<or> part = ''.'' then stack
      else if part = ''..'' then
        (case stack of
           [] \<Rightarrow> if rooted then [] else [''..'']
         | prev # rest \<Rightarrow> if prev = ''..'' then ''..'' # stack else rest)
      else part # stack)"

fun join_with :: "string \<Rightarrow> string list \<Rightarrow> string" where
  "join_with sep [] = []"
| "join_with sep [x] = x"
| "join_with sep (x # xs) = x @ sep @ join_with sep xs"

definition Clean :: "string \<Rightarrow> string" where
  "Clean path =
     (let rooted = HasPrefix path ''/'';
          comps = rev (foldl (clean_step rooted) [] (split_on CHR ''/'' path));
          body = join_with ''/'' comps
      in if rooted then ''/'' @ body else if body = [] then ''.'' else body)"

definition Split :: "string \<Rightarrow> string \<times> string" where
  "Split path =
     (let base = rev (takeWhile (\<lambda>c. c \<noteq> CHR ''/'') (rev path))
      in (take (length path - length base) path, base))"

section \<open>The directory\<close>

type_synonym mode = "32 word"

text \<open>Permission bits in hexadecimal: \<^verbatim>\<open>0o600\<close>, \<^verbatim>\<open>0o700\<close>, and the mask \<^verbatim>\<open>0o777\<close> of \<^verbatim>\<open>Perm\<close>.\<close>

definition fileMode :: mode where "fileMode = 0x180"
definition dirMode :: mode where "dirMode = 0x1C0"

datatype node = Regular bytes mode | NotRegular

record dir =
  dExists :: bool
  dMode :: mode
  nodes :: "string \<Rightarrow> node option"

definition put :: "string \<Rightarrow> node \<Rightarrow> dir \<Rightarrow> dir" where
  "put name n d = d\<lparr>nodes := (nodes d)(name := Some n)\<rparr>"

definition unlink :: "string \<Rightarrow> dir \<Rightarrow> dir" where
  "unlink name d = d\<lparr>nodes := (nodes d)(name := None)\<rparr>"

lemma put_unlink_simps [simp]:
  "nodes (put name n d) name' = (if name' = name then Some n else nodes d name')"
  "nodes (unlink name d) name' = (if name' = name then None else nodes d name')"
  "dExists (put name n d) = dExists d" "dExists (unlink name d) = dExists d"
  by (simp_all add: put_def unlink_def)

text \<open>
  The outcomes of the calls: \<open>True\<close> is failure. \<open>writeFails\<close> is the number of bytes that reached the
  file before the error, \<open>randBytes\<close> the random bytes of the temporary name.
\<close>

record hooks =
  statFails :: bool
  mkdirFails :: bool
  chmodPathFails :: bool
  openRootFails :: bool
  lstatFails :: bool
  openFails :: bool
  readAllFails :: bool
  randReadFails :: bool
  randBytes :: bytes
  createFails :: bool
  chmodFileFails :: bool
  writeFails :: "nat option"
  syncFails :: bool
  closeFails :: bool
  renameFails :: bool
  removeFails :: bool
  syncDirFails :: bool
  umask :: mode

definition all_succeed :: "bytes \<Rightarrow> mode \<Rightarrow> hooks" where
  "all_succeed rnd um =
     \<lparr>statFails = False, mkdirFails = False, chmodPathFails = False, openRootFails = False,
      lstatFails = False, openFails = False, readAllFails = False, randReadFails = False,
      randBytes = rnd, createFails = False, chmodFileFails = False, writeFails = None,
      syncFails = False, closeFails = False, renameFails = False, removeFails = False,
      syncDirFails = False, umask = um\<rparr>"

section \<open>The steps\<close>

definition ensureDir :: "hooks \<Rightarrow> dir \<Rightarrow> (block_err + unit) \<times> dir list" where
  "ensureDir h d =
     (if statFails h then (Inl (ErrIO ''stat directory''), [d])
      else if dExists d then (Inr (), [d])
      else if mkdirFails h then (Inl (ErrIO ''create directory''), [d])
      else
        (let d1 = d\<lparr>dExists := True, dMode := dirMode AND NOT (umask h), nodes := (\<lambda>_. None)\<rparr> in
         if chmodPathFails h then (Inl (ErrIO ''set directory mode''), [d, d1])
         else (Inr (), [d, d1, d1\<lparr>dMode := dirMode\<rparr>])))"

definition readExisting :: "hooks \<Rightarrow> string \<Rightarrow> dir \<Rightarrow> block_err + (bytes \<times> mode \<times> bool)" where
  "readExisting h base d =
     (if lstatFails h then Inl (ErrIO ''stat target'')
      else
        (case nodes d base of
           None \<Rightarrow> Inr ([], 0, False)
         | Some NotRegular \<Rightarrow> Inl ErrNotRegularFile
         | Some (Regular bytes m) \<Rightarrow>
             if openFails h then Inl (ErrIO ''open target'')
             else if readAllFails h then Inl (ErrIO ''read target'')
             else
               (let content = take (MaxFileBytes + 1) bytes in
                if MaxFileBytes < length content then Inl ErrFileTooLarge
                else Inr (content, m AND 0x1FF, True))))"

definition finalMode :: "mode \<Rightarrow> bool \<Rightarrow> mode" where
  "finalMode m existed = (if \<not> existed then fileMode else m AND fileMode)"

definition hex_digit :: "nat \<Rightarrow> char" where
  "hex_digit n = (''0123456789abcdef'') ! n"

definition hex_EncodeToString :: "bytes \<Rightarrow> string" where
  "hex_EncodeToString bs = concat (map (\<lambda>c. [hex_digit (byte c div 16), hex_digit (byte c mod 16)]) bs)"

definition tempName :: "hooks \<Rightarrow> string \<Rightarrow> block_err + string" where
  "tempName h base =
     (if randReadFails h then Inl (ErrIO ''generate temp name'')
      else Inr (''.'' @ base @ ''.'' @ hex_EncodeToString (randBytes h) @ ''.tmp''))"

definition writeAtomic :: "hooks \<Rightarrow> string \<Rightarrow> bytes \<Rightarrow> mode \<Rightarrow> dir \<Rightarrow> (block_err + unit) \<times> dir list" where
  "writeAtomic h base content m d =
     (case tempName h base of
        Inl e \<Rightarrow> (Inl e, [d])
      | Inr tmp \<Rightarrow>
          if createFails h \<or> nodes d tmp \<noteq> None then (Inl (ErrIO ''create temp file''), [d])
          else
            (let remove = (\<lambda>d. if removeFails h then d else unlink tmp d);
                 d1 = put tmp (Regular [] (m AND NOT (umask h))) d;
                 d2 = put tmp (Regular [] m) d;
                 d3 = put tmp (Regular content m) d;
                 d4 = unlink tmp (put base (Regular content m) d)
             in
             if chmodFileFails h then (Inl (ErrIO ''set temp file mode''), [d, d1, remove d1])
             else
               (case writeFails h of
                  Some n \<Rightarrow>
                    (let p = put tmp (Regular (take n content) m) d in
                     (Inl (ErrIO ''write temp file''), [d, d1, d2, p, remove p]))
                | None \<Rightarrow>
                    if syncFails h then (Inl (ErrIO ''sync temp file''), [d, d1, d2, d3, remove d3])
                    else if closeFails h then (Inl (ErrIO ''close temp file''), [d, d1, d2, d3, remove d3])
                    else if renameFails h then (Inl (ErrIO ''rename temp file''), [d, d1, d2, d3, remove d3])
                    else if syncDirFails h then (Inl (ErrIO ''sync directory''), [d, d1, d2, d3, d4])
                    else (Inr (), [d, d1, d2, d3, d4]))))"

section \<open>Apply\<close>

record Options =
  oPath :: string
  DryRun :: bool
  AllowEmpty :: bool

record Report =
  rPath :: string
  rExisted :: bool
  rChanged :: bool
  rMode :: mode
  rSize :: nat

definition zero_report :: Report where
  "zero_report = \<lparr>rPath = [], rExisted = False, rChanged = False, rMode = 0, rSize = 0\<rparr>"

text \<open>What \<^verbatim>\<open>Apply\<close> does once the directory is there: open, read, merge, decide, write.\<close>

definition apply_in_dir ::
  "hooks \<Rightarrow> Options \<Rightarrow> string \<Rightarrow> bytes \<Rightarrow> Report \<Rightarrow> dir \<Rightarrow> (Report \<times> block_err option) \<times> dir list" where
  "apply_in_dir h opts base block rep d =
     (if openRootFails h \<or> \<not> dExists d then ((rep, Some (ErrIO ''open directory'')), [d])
      else
        (case readExisting h base d of
           Inl e \<Rightarrow> ((rep, Some e), [d])
         | Inr (existing, m, existed) \<Rightarrow>
             (let rep1 = rep\<lparr>rExisted := existed, rMode := finalMode m existed\<rparr> in
              case Merge existing block of
                Inl e \<Rightarrow> ((rep1, Some e), [d])
              | Inr merged \<Rightarrow>
                  (let rep2 = rep1\<lparr>rSize := length merged, rChanged := \<not> existed \<or> existing \<noteq> merged\<rparr>;
                       wasKeys = blockKeyCount existing;
                       nowKeys = blockKeyCount block
                   in
                   if \<not> AllowEmpty opts \<and> 0 < wasKeys \<and> nowKeys = 0 then
                     ((rep2, Some (ErrWouldEmpty wasKeys)), [d])
                   else if DryRun opts \<or> \<not> rChanged rep2 then ((rep2, None), [d])
                   else
                     (case writeAtomic h base merged (rMode rep2) d of
                        (Inl e, ds) \<Rightarrow> ((rep2, Some e), ds)
                      | (Inr _, ds) \<Rightarrow> ((rep2, None), ds))))))"

definition Apply ::
  "'p ssh_lib \<Rightarrow> hooks \<Rightarrow> string list \<Rightarrow> Options \<Rightarrow> dir \<Rightarrow> (Report \<times> block_err option) \<times> dir list" where
  "Apply ssh h pubkeys opts d =
     (case Render ssh pubkeys of
        Inl e \<Rightarrow> ((zero_report, Some e), [d])
      | Inr block \<Rightarrow>
          (let path = Clean (oPath opts); base = snd (Split path) in
           if base = [] \<or> base = ''.'' \<or> base = ''..'' then ((zero_report, Some ErrBadPath), [d])
           else
             (let rep = zero_report\<lparr>rPath := path\<rparr> in
              if DryRun opts then
                (if \<not> statFails h \<and> \<not> dExists d then
                   ((rep\<lparr>rMode := fileMode, rSize := length block, rChanged := True\<rparr>, None), [d])
                 else apply_in_dir h opts base block rep d)
              else
                (case ensureDir h d of
                   (Inl e, ds) \<Rightarrow> ((rep, Some e), ds)
                 | (Inr _, ds) \<Rightarrow>
                     (case apply_in_dir h opts base block rep (last ds) of
                        (r, ds') \<Rightarrow> (r, ds @ ds'))))))"

section \<open>What the steps do to the directory\<close>

lemma tempName_neq: "tempName h base = Inr tmp \<Longrightarrow> tmp \<noteq> base"
  by (auto simp: tempName_def split: if_splits dest: arg_cong [of _ _ length])

text \<open>Entries other than the target and its temporary file.\<close>

definition bystander :: "hooks \<Rightarrow> string \<Rightarrow> string \<Rightarrow> bool" where
  "bystander h base name \<longleftrightarrow> name \<noteq> base \<and> tempName h base \<noteq> Inr name"

text \<open>A run of \<open>writeAtomic\<close> touches the temporary file only, but for the rename at its end.\<close>

definition touches_only :: "string \<Rightarrow> dir \<Rightarrow> dir \<Rightarrow> bool" where
  "touches_only tmp d st \<longleftrightarrow> dExists st = dExists d \<and> (\<forall>name. name \<noteq> tmp \<longrightarrow> nodes st name = nodes d name)"

lemma touches_only_simps [simp]:
  "touches_only tmp d d" "touches_only tmp d (put tmp n d)" "touches_only tmp d (unlink tmp (put tmp n d))"
  by (simp_all add: touches_only_def)

lemma writeAtomic_cases:
  assumes "writeAtomic h base content m d = (r, ds)"
  obtains (early) e where "r = Inl e" "e \<noteq> ErrIO ''sync directory''" "ds = [d]"
  | (abandoned) tmp e where "tempName h base = Inr tmp" "r = Inl e" "e \<noteq> ErrIO ''sync directory''"
      "\<forall>st \<in> set ds. touches_only tmp d st" "ds \<noteq> []"
  | (renamed) tmp ds' where "tempName h base = Inr tmp" "r = Inr () \<or> r = Inl (ErrIO ''sync directory'')"
      "ds = ds' @ [unlink tmp (put base (Regular content m) d)]"
      "\<forall>st \<in> set ds'. touches_only tmp d st"
proof (cases "tempName h base")
  case (Inl e)
  then show thesis using assms early [of e]
    by (auto simp: writeAtomic_def tempName_def split: if_splits)
next
  case (Inr tmp)
  show thesis
  proof (cases "createFails h \<or> nodes d tmp \<noteq> None")
    case True
    then show thesis using assms Inr early [of "ErrIO ''create temp file''"] by (auto simp: writeAtomic_def)
  next
    case False
    note run = assms [unfolded writeAtomic_def Inr sum.case if_not_P [OF False] Let_def]
    consider (fails) "chmodFileFails h \<or> writeFails h \<noteq> None \<or> syncFails h \<or> closeFails h \<or> renameFails h"
      | (passes) "\<not> chmodFileFails h" "writeFails h = None" "\<not> syncFails h" "\<not> closeFails h" "\<not> renameFails h"
      by blast
    then show thesis
    proof cases
      case fails
      with run have "(\<exists>e. r = Inl e \<and> e \<noteq> ErrIO ''sync directory'')
          \<and> (\<forall>st \<in> set ds. touches_only tmp d st) \<and> ds \<noteq> []"
        by (auto split: if_splits option.splits)
      then show thesis using abandoned [OF Inr] by blast
    next
      case passes
      with run have "r = Inr () \<or> r = Inl (ErrIO ''sync directory'')"
        and "ds = [d, put tmp (Regular [] (m AND NOT (umask h))) d, put tmp (Regular [] m) d,
               put tmp (Regular content m) d] @ [unlink tmp (put base (Regular content m) d)]"
        by (auto split: if_splits)
      then show thesis by (rule renamed [OF Inr]) simp
    qed
  qed
qed

lemma writeAtomic_states:
  assumes "writeAtomic h base content m d = (r, ds)" and "st \<in> set ds"
  shows "(nodes st base = nodes d base \<or> nodes st base = Some (Regular content m))
    \<and> (bystander h base name \<longrightarrow> nodes st name = nodes d name)"
  using assms(1)
proof (cases rule: writeAtomic_cases)
  case (abandoned tmp e)
  then show ?thesis using assms(2) tempName_neq [of h base tmp]
    by (auto simp: touches_only_def bystander_def)
next
  case (renamed tmp ds')
  then show ?thesis using assms(2) tempName_neq [of h base tmp]
    by (auto simp: touches_only_def bystander_def)
qed (use assms(2) in auto)

lemma writeAtomic_result:
  assumes "writeAtomic h base content m d = (r, ds)"
  shows "ds \<noteq> [] \<and> dExists (last ds) = dExists d \<and>
    nodes (last ds) base = (if r = Inr () \<or> r = Inl (ErrIO ''sync directory'')
      then Some (Regular content m) else nodes d base)"
  using assms
proof (cases rule: writeAtomic_cases)
  case (abandoned tmp e)
  then have "touches_only tmp d (last ds)" by simp
  then show ?thesis using abandoned tempName_neq [of h base tmp] by (auto simp: touches_only_def)
next
  case (renamed tmp ds')
  then show ?thesis using tempName_neq [of h base tmp] by auto
qed auto

text \<open>The target's content and permission bits; an absent file is empty.\<close>

definition content_of :: "dir \<Rightarrow> string \<Rightarrow> bytes" where
  "content_of d base = (case nodes d base of Some (Regular c m) \<Rightarrow> c | _ \<Rightarrow> [])"

definition mode_of :: "dir \<Rightarrow> string \<Rightarrow> mode" where
  "mode_of d base = (case nodes d base of Some (Regular c m) \<Rightarrow> m AND fileMode | _ \<Rightarrow> fileMode)"

lemma readExisting_Inr:
  assumes "readExisting h base d = Inr (c, m, existed)"
  shows "c = content_of d base" "finalMode m existed = mode_of d base" "existed \<longleftrightarrow> nodes d base \<noteq> None"
    "length c \<le> MaxFileBytes"
proof -
  have "(x AND 0x1FF) AND fileMode = x AND fileMode" for x :: mode
  proof -
    have "(x AND 0x1FF) AND fileMode = x AND (0x1FF AND fileMode)" by (simp only: and.assoc)
    also have "0x1FF AND fileMode = fileMode" by (simp add: fileMode_def)
    finally show ?thesis .
  qed
  then show "c = content_of d base" "finalMode m existed = mode_of d base" "existed \<longleftrightarrow> nodes d base \<noteq> None"
    "length c \<le> MaxFileBytes"
    using assms by (auto simp: readExisting_def content_of_def mode_of_def finalMode_def Let_def min_def
        split: if_splits option.splits node.splits)
qed

text \<open>The outcomes of \<open>apply_in_dir\<close>: nothing is written, or the merged content is.\<close>

lemma apply_in_dir_cases:
  assumes "apply_in_dir h opts base block rep d = ((rep', e), ds)"
  obtains (quiet) "ds = [d]" "e = None \<longrightarrow> (DryRun opts \<or> \<not> rChanged rep')"
      "e = None \<longrightarrow> (\<exists>new. Merge (content_of d base) block = Inr new
          \<and> rChanged rep' = (nodes d base = None \<or> content_of d base \<noteq> new))"
      "\<not> AllowEmpty opts \<and> 0 < blockKeyCount (content_of d base) \<and> blockKeyCount block = 0 \<longrightarrow> e \<noteq> None"
  | (install) new r where "Merge (content_of d base) block = Inr new" "rMode rep' = mode_of d base"
      "rChanged rep'" "\<not> DryRun opts"
      "writeAtomic h base new (mode_of d base) d = (r, ds)" "e = (case r of Inl x \<Rightarrow> Some x | Inr _ \<Rightarrow> None)"
      "AllowEmpty opts \<or> blockKeyCount (content_of d base) = 0 \<or> blockKeyCount block \<noteq> 0"
proof (cases "openRootFails h \<or> \<not> dExists d")
  case True
  then show thesis using assms quiet by (auto simp: apply_in_dir_def)
next
  case False
  show thesis
  proof (cases "readExisting h base d")
    case (Inl x)
    then show thesis using assms False quiet by (auto simp: apply_in_dir_def)
  next
    case (Inr y)
    then obtain c m existed where y: "readExisting h base d = Inr (c, m, existed)" by (cases y) auto
    note read = readExisting_Inr [OF y]
    show thesis
    proof (cases "Merge c block")
      case (Inl x)
      then show thesis using assms False y quiet by (auto simp: apply_in_dir_def)
    next
      case (Inr new)
      show thesis
      proof (cases "(\<not> AllowEmpty opts \<and> 0 < blockKeyCount c \<and> blockKeyCount block = 0)
          \<or> DryRun opts \<or> \<not> (\<not> existed \<or> c \<noteq> new)")
        case True
        with assms False y Inr read show thesis
          by (intro quiet) (auto simp: apply_in_dir_def Let_def split: if_splits)
      next
        case no: False
        obtain r ds' where w: "writeAtomic h base new (mode_of d base) d = (r, ds')" by force
        with assms False y Inr no read show thesis
          by (intro install [of new r]) (auto simp: apply_in_dir_def Let_def split: if_splits sum.splits)
      qed
    qed
  qed
qed

text \<open>A directory that does not exist has no entries.\<close>

definition wf_dir :: "dir \<Rightarrow> bool" where
  "wf_dir d \<longleftrightarrow> (\<not> dExists d \<longrightarrow> nodes d = (\<lambda>_. None))"

lemma ensureDir_states:
  assumes "ensureDir h d = (r, ds)" and "wf_dir d"
  shows "ds \<noteq> [] \<and> (\<forall>st \<in> set ds. nodes st = nodes d) \<and> (dExists d \<longrightarrow> ds = [d]) \<and> (r = Inr () \<longrightarrow> dExists (last ds))"
  using assms by (auto simp: ensureDir_def wf_dir_def Let_def split: if_splits)

abbreviation target :: "Options \<Rightarrow> string" where
  "target opts \<equiv> snd (Split (Clean (oPath opts)))"

lemma of_nodes:
  "nodes d' = nodes d \<Longrightarrow> content_of d' base = content_of d base"
  "nodes d' = nodes d \<Longrightarrow> mode_of d' base = mode_of d base"
  by (simp_all add: content_of_def mode_of_def)

text \<open>The outcomes of \<open>Apply\<close>, with the directory's entries as they were or the merged content installed.\<close>

lemma Apply_cases:
  assumes run: "Apply ssh h pubkeys opts d = ((rep, e), ds)" and wf: "wf_dir d"
  obtains (quiet) "\<forall>st \<in> set ds. nodes st = nodes d" "ds \<noteq> []" "DryRun opts \<or> dExists d \<longrightarrow> set ds = {d}"
      "e = None \<and> \<not> DryRun opts \<longrightarrow> (\<exists>block. Render ssh pubkeys = Inr block
         \<and> Merge (content_of d (target opts)) block = Inr (content_of d (target opts))) \<and> \<not> rChanged rep"
      "\<not> AllowEmpty opts \<and> dExists d \<and> 0 < blockKeyCount (content_of d (target opts))
         \<and> (\<exists>block. Render ssh pubkeys = Inr block \<and> blockKeyCount block = 0) \<longrightarrow> e \<noteq> None"
  | (install) block new r d0 ds0 ds1 where "Render ssh pubkeys = Inr block" "ds = ds0 @ ds1" "\<not> DryRun opts"
      "\<forall>st \<in> set ds0. nodes st = nodes d" "nodes d0 = nodes d" "ds1 \<noteq> []" "dExists d0"
      "Merge (content_of d (target opts)) block = Inr new"
      "writeAtomic h (target opts) new (mode_of d (target opts)) d0 = (r, ds1)"
      "e = (case r of Inl x \<Rightarrow> Some x | Inr _ \<Rightarrow> None)" "rMode rep = mode_of d (target opts)" "rChanged rep"
      "AllowEmpty opts \<or> blockKeyCount (content_of d (target opts)) = 0 \<or> blockKeyCount block \<noteq> 0"
proof (cases "Render ssh pubkeys")
  case (Inl x)
  then show thesis using run quiet by (auto simp: Apply_def)
next
  case (Inr block)
  let ?base = "target opts" and ?rep = "zero_report\<lparr>rPath := Clean (oPath opts)\<rparr>"
  show thesis
  proof (cases "?base = [] \<or> ?base = ''.'' \<or> ?base = ''..''")
    case True
    then show thesis using run Inr quiet by (auto simp: Apply_def Let_def)
  next
    case base: False
    show thesis
    proof (cases "DryRun opts")
      case dry: True
      show thesis
      proof (cases "\<not> statFails h \<and> \<not> dExists d")
        case True
        then show thesis using run Inr base dry quiet by (auto simp: Apply_def Let_def)
      next
        case False
        then have "apply_in_dir h opts ?base block ?rep d = ((rep, e), ds)"
          using run Inr base dry by (auto simp: Apply_def Let_def split: if_splits)
        then show thesis
        proof (cases rule: apply_in_dir_cases)
          case q: quiet
          then show thesis using dry Inr by (intro quiet) auto
        qed (use dry in simp)
      qed
    next
      case wet: False
      obtain r0 ds0 where ed: "ensureDir h d = (r0, ds0)" by force
      note ens = ensureDir_states [OF ed wf]
      show thesis
      proof (cases r0)
        case (Inl x)
        then have "e = Some x" "ds = ds0" using run Inr base wet ed by (auto simp: Apply_def Let_def)
        then show thesis using ens wet by (intro quiet) auto
      next
        case r0: (Inr u)
        define d0 where "d0 = last ds0"
        obtain ds1 where ds: "ds = ds0 @ ds1" and aid: "apply_in_dir h opts ?base block ?rep d0 = ((rep, e), ds1)"
          using run Inr base wet ed r0 by (auto simp: Apply_def Let_def d0_def split: prod.splits)
        have d0: "nodes d0 = nodes d" "dExists d0" "dExists d \<longrightarrow> d0 = d" using ens r0 by (auto simp: d0_def)
        note same = of_nodes [OF d0(1), of ?base]
        from aid show thesis
        proof (cases rule: apply_in_dir_cases)
          case q: quiet
          then show thesis using ens ds d0 Inr same wet by (intro quiet) auto
        next
          case (install new r)
          then show thesis
            using ens ds d0 Inr same wet writeAtomic_result [OF install(5)]
            by (intro that(2) [of block ds0 ds1 d0 new r]) auto
        qed
      qed
    qed
  qed
qed

section \<open>Properties\<close>

lemma mode_of_narrow: "mode_of d base AND NOT fileMode = 0"
  by (simp add: mode_of_def and.assoc split: option.split node.split)

text \<open>
  C1: a crash leaves the old file or the new one. In every state an apply passes through, whatever
  calls fail, the target is as it was, or holds exactly the merge of its old content with the rendered
  block under permission bits within 0600; no other entry of the directory but the temporary file
  changes; and a dry run changes nothing.
\<close>

theorem apply_crash_safe:
  assumes "Apply ssh h pubkeys opts d = ((rep, e), ds)" and "wf_dir d" and "st \<in> set ds"
  shows "(nodes st (target opts) = nodes d (target opts)
      \<or> (\<exists>block new m. Render ssh pubkeys = Inr block \<and> Merge (content_of d (target opts)) block = Inr new
           \<and> nodes st (target opts) = Some (Regular new m) \<and> m AND NOT fileMode = 0))
    \<and> (\<forall>name. bystander h (target opts) name \<longrightarrow> nodes st name = nodes d name)
    \<and> (DryRun opts \<longrightarrow> st = d)"
  using assms(1,2)
proof (cases rule: Apply_cases)
  case quiet
  then show ?thesis using assms(3) by auto
next
  case (install block new r d0 ds0 ds1)
  show ?thesis
  proof (cases "st \<in> set ds0")
    case True
    then show ?thesis using install by auto
  next
    case False
    then have "st \<in> set ds1" using install assms(3) by auto
    from writeAtomic_states [OF install(9) this] show ?thesis
      using install(1,3,5,8) mode_of_narrow by auto
  qed
qed

definition sample_dir :: dir where
  "sample_dir = \<lparr>dExists = True, dMode = dirMode,
     nodes = (\<lambda>_. None)(''authorized_keys'' := Some (Regular ''ssh-rsa AAAA mine'' 0x1A4))\<rparr>"

definition sample_opts :: Options where
  "sample_opts = \<lparr>oPath = ''/home/u/.ssh//authorized_keys'', DryRun = False, AllowEmpty = False\<rparr>"

lemma sample_target: "target sample_opts = ''authorized_keys''"
  by code_simp

lemma sample_wf: "wf_dir sample_dir"
  by (simp add: wf_dir_def sample_dir_def)

theorem apply_crash_safe_witness:
  "list_all (\<lambda>st. nodes st ''other'' = nodes sample_dir ''other'')
     (snd (Apply one_key_ssh ((all_succeed ''12345678'' 0x12)\<lparr>writeFails := Some 7\<rparr>)
        [''ssh-ed25519 Sw== a''] sample_opts sample_dir))"
  unfolding list_all_iff
proof
  fix st
  assume "st \<in> set (snd (Apply one_key_ssh ((all_succeed ''12345678'' 0x12)\<lparr>writeFails := Some 7\<rparr>)
        [''ssh-ed25519 Sw== a''] sample_opts sample_dir))"
  moreover have "bystander ((all_succeed ''12345678'' 0x12)\<lparr>writeFails := Some 7\<rparr>) ''authorized_keys'' ''other''"
    by (simp add: bystander_def tempName_def all_succeed_def)
  ultimately show "nodes st ''other'' = nodes sample_dir ''other''"
    using apply_crash_safe [of one_key_ssh "(all_succeed ''12345678'' 0x12)\<lparr>writeFails := Some 7\<rparr>"
        "[''ssh-ed25519 Sw== a'']" sample_opts sample_dir _ _ _ st] sample_target sample_wf
    by (metis prod.collapse)
qed

text \<open>
  C2: a successful apply installs the published keys. Its last state holds the merge of the old
  content with the block rendered from the keys, the block in it counts exactly those keys, and
  applying the same block again would leave the content as it is. An apply that fails before the
  directory sync leaves the target untouched.
\<close>

theorem apply_installs:
  assumes "Apply ssh h pubkeys opts d = ((rep, e), ds)" and "wf_dir d" and "\<not> DryRun opts"
  shows "(e = None \<longrightarrow> (\<exists>block new. Render ssh pubkeys = Inr block
        \<and> Merge (content_of d (target opts)) block = Inr new
        \<and> content_of (last ds) (target opts) = new
        \<and> Merge new block = Inr new \<and> blockKeyCount new = length pubkeys
        \<and> (rChanged rep \<longrightarrow> nodes (last ds) (target opts) = Some (Regular new (mode_of d (target opts))))))
    \<and> (e \<noteq> None \<and> e \<noteq> Some (ErrIO ''sync directory'') \<longrightarrow>
        nodes (last ds) (target opts) = nodes d (target opts))"
  using assms(1,2)
proof (cases rule: Apply_cases)
  case quiet
  then have last: "nodes (last ds) = nodes d" by simp
  then show ?thesis
    using quiet assms(3) of_nodes [OF last] merge_rendered by metis
next
  case (install block new r d0 ds0 ds1)
  note res = writeAtomic_result [OF install(9)]
  have last: "last ds = last ds1" using install by simp
  have new: "Merge new block = Inr new" "blockKeyCount new = length pubkeys"
    using merge_rendered [OF install(1,8)] install(8) by simp_all
  show ?thesis
  proof (cases r)
    case (Inl x)
    then show ?thesis using res install last by auto
  next
    case (Inr u)
    then have "nodes (last ds) (target opts) = Some (Regular new (mode_of d (target opts)))"
      using res last by simp
    moreover from this have "content_of (last ds) (target opts) = new" by (simp add: content_of_def)
    ultimately show ?thesis using Inr install(1,8,10) new by auto
  qed
qed

theorem apply_installs_witness:
  "snd (fst (Apply one_key_ssh (all_succeed ''12345678'' 0x12) [''ssh-ed25519 Sw== a''] sample_opts sample_dir)) = None
   \<and> blockKeyCount (content_of (last (snd (Apply one_key_ssh (all_succeed ''12345678'' 0x12)
        [''ssh-ed25519 Sw== a''] sample_opts sample_dir))) ''authorized_keys'') = 1"
proof -
  let ?run = "Apply one_key_ssh (all_succeed ''12345678'' 0x12) [''ssh-ed25519 Sw== a''] sample_opts sample_dir"
  obtain rep e ds where run: "?run = ((rep, e), ds)" by (metis prod.collapse)
  have ok: "snd (fst ?run) = None" by code_simp
  have wet: "\<not> DryRun sample_opts" by (simp add: sample_opts_def)
  from apply_installs [OF run sample_wf wet] ok run
  have "blockKeyCount (content_of (last (snd ?run)) (target sample_opts)) = length [''ssh-ed25519 Sw== a'']"
    by auto
  then show ?thesis using ok unfolding sample_target by simp
qed

text \<open>
  C6: without explicit permission an apply never empties a block that holds keys: publishing no key
  fails and every state it passes through is the one it started from.
\<close>

theorem apply_refuses_emptying:
  assumes "Apply ssh h [] opts d = ((rep, e), ds)" and "\<not> AllowEmpty opts" and "dExists d"
    and "0 < blockKeyCount (content_of d (target opts))"
  shows "e \<noteq> None \<and> (\<forall>st \<in> set ds. st = d)"
proof -
  have wf: "wf_dir d" using assms(3) by (simp add: wf_dir_def)
  have block: "Render ssh [] = Inr (begin_text @ end_text)" by (simp add: Render_def)
  have zero: "blockKeyCount (begin_text @ end_text) = 0" by code_simp
  from assms(1) wf show ?thesis
  proof (cases rule: Apply_cases)
    case quiet
    then show ?thesis using assms block zero by auto
  next
    case (install block' new r d0 ds0 ds1)
    then show ?thesis using assms block zero by auto
  qed
qed

definition sample_managed :: dir where
  "sample_managed = put ''authorized_keys''
     (Regular (begin_text @ ''ssh-ed25519 Sw== a'' @ [nl] @ end_text) 0x1A4) sample_dir"

theorem apply_refuses_emptying_witness:
  "snd (fst (Apply one_key_ssh (all_succeed ''12345678'' 0x12) [] sample_opts sample_managed)) \<noteq> None"
proof -
  have "0 < blockKeyCount (content_of sample_managed (target sample_opts))" by code_simp
  moreover have "\<not> AllowEmpty sample_opts" "dExists sample_managed"
    by (simp_all add: sample_opts_def sample_managed_def sample_dir_def)
  ultimately show ?thesis
    using apply_refuses_emptying [of one_key_ssh "all_succeed ''12345678'' 0x12" sample_opts sample_managed]
    by (metis prod.collapse)
qed

text \<open>
  Permission bits are narrowed only by a write. On a file that already holds the published keys
  under mode 0644 an apply succeeds, reports mode 0600 and no change, and leaves the mode at 0644.
\<close>

lemma apply_unchanged_keeps_wide_mode:
  "fst (Apply one_key_ssh (all_succeed ''12345678'' 0x12) [''ssh-ed25519 Sw== a''] sample_opts sample_managed)
     = (\<lparr>rPath = ''/home/u/.ssh/authorized_keys'', rExisted = True, rChanged = False, rMode = 0x180,
         rSize = 107\<rparr>, None)
   \<and> nodes (last (snd (Apply one_key_ssh (all_succeed ''12345678'' 0x12) [''ssh-ed25519 Sw== a'']
        sample_opts sample_managed))) ''authorized_keys''
     = Some (Regular (begin_text @ ''ssh-ed25519 Sw== a'' @ [nl] @ end_text) 0x1A4)"
  by code_simp

end
