(* ===== verification/Crypto.thy ===== *)
theory Crypto
  imports Go_Strings "HOL-Library.Word"
begin

text \<open>
  The digests of the Go standard library the program uses, \<^verbatim>\<open>crypto/sha256\<close> (FIPS 180-4) and
  \<^verbatim>\<open>crypto/hmac\<close> over it (FIPS 198-1), on byte sequences. \<^verbatim>\<open>subtle.ConstantTimeCompare\<close> and
  \<^verbatim>\<open>hmac.Equal\<close> are equality of byte sequences; their timing is not modelled.
\<close>

unbundle bit_operations_syntax

section \<open>SHA-256\<close>

definition sha_K :: "32 word list" where
  "sha_K =
     [0x428A2F98, 0x71374491, 0xB5C0FBCF, 0xE9B5DBA5, 0x3956C25B, 0x59F111F1, 0x923F82A4, 0xAB1C5ED5,
      0xD807AA98, 0x12835B01, 0x243185BE, 0x550C7DC3, 0x72BE5D74, 0x80DEB1FE, 0x9BDC06A7, 0xC19BF174,
      0xE49B69C1, 0xEFBE4786, 0x0FC19DC6, 0x240CA1CC, 0x2DE92C6F, 0x4A7484AA, 0x5CB0A9DC, 0x76F988DA,
      0x983E5152, 0xA831C66D, 0xB00327C8, 0xBF597FC7, 0xC6E00BF3, 0xD5A79147, 0x06CA6351, 0x14292967,
      0x27B70A85, 0x2E1B2138, 0x4D2C6DFC, 0x53380D13, 0x650A7354, 0x766A0ABB, 0x81C2C92E, 0x92722C85,
      0xA2BFE8A1, 0xA81A664B, 0xC24B8B70, 0xC76C51A3, 0xD192E819, 0xD6990624, 0xF40E3585, 0x106AA070,
      0x19A4C116, 0x1E376C08, 0x2748774C, 0x34B0BCB5, 0x391C0CB3, 0x4ED8AA4A, 0x5B9CCA4F, 0x682E6FF3,
      0x748F82EE, 0x78A5636F, 0x84C87814, 0x8CC70208, 0x90BEFFFA, 0xA4506CEB, 0xBEF9A3F7, 0xC67178F2]"

definition sha_H0 :: "32 word list" where
  "sha_H0 =
     [0x6A09E667, 0xBB67AE85, 0x3C6EF372, 0xA54FF53A, 0x510E527F, 0x9B05688C, 0x1F83D9AB, 0x5BE0CD19]"

definition rotr :: "nat \<Rightarrow> 32 word \<Rightarrow> 32 word" where
  "rotr n x = drop_bit n x OR push_bit (32 - n) x"

definition big_endian :: "nat \<Rightarrow> nat \<Rightarrow> string" where
  "big_endian k n = map (\<lambda>i. char_of (n div 256 ^ (k - 1 - i) mod 256)) [0..<k]"

definition sha_pad :: "bytes \<Rightarrow> bytes" where
  "sha_pad msg =
     msg @ [CHR 0x80] @ replicate ((119 - length msg mod 64) mod 64) nul @ big_endian 8 (8 * length msg)"

fun chunks :: "nat \<Rightarrow> nat \<Rightarrow> 'a list \<Rightarrow> 'a list list" where
  "chunks n 0 xs = []"
| "chunks n (Suc k) xs = take n xs # chunks n k (drop n xs)"

definition word_of_bytes :: "bytes \<Rightarrow> 32 word" where
  "word_of_bytes bs = word_of_nat (foldl (\<lambda>acc c. acc * 256 + byte c) 0 bs)"

text \<open>The message schedule, most recent word first.\<close>

definition sched_next :: "32 word list \<Rightarrow> 32 word" where
  "sched_next ws =
     (let w2 = ws ! 1; w7 = ws ! 6; w15 = ws ! 14; w16 = ws ! 15;
          s0 = rotr 7 w15 XOR rotr 18 w15 XOR drop_bit 3 w15;
          s1 = rotr 17 w2 XOR rotr 19 w2 XOR drop_bit 10 w2
      in w16 + s0 + w7 + s1)"

fun extend_sched :: "nat \<Rightarrow> 32 word list \<Rightarrow> 32 word list" where
  "extend_sched 0 ws = ws"
| "extend_sched (Suc n) ws = extend_sched n (sched_next ws # ws)"

definition schedule :: "bytes \<Rightarrow> 32 word list" where
  "schedule block = rev (extend_sched 48 (rev (map word_of_bytes (chunks 4 16 block))))"

fun sha_round :: "32 word list \<Rightarrow> 32 word \<times> 32 word \<Rightarrow> 32 word list" where
  "sha_round [a, b, c, d, e, f, g, h] (k, w) =
     (let S1 = rotr 6 e XOR rotr 11 e XOR rotr 25 e;
          ch = (e AND f) XOR (NOT e AND g);
          t1 = h + S1 + ch + k + w;
          S0 = rotr 2 a XOR rotr 13 a XOR rotr 22 a;
          maj = (a AND b) XOR (a AND c) XOR (b AND c);
          t2 = S0 + maj
      in [t1 + t2, a, b, c, d + t1, e, f, g])"
| "sha_round st kw = st"

definition sha_block :: "32 word list \<Rightarrow> bytes \<Rightarrow> 32 word list" where
  "sha_block st block = map2 (+) st (foldl sha_round st (zip sha_K (schedule block)))"

definition Sum256 :: "bytes \<Rightarrow> bytes" where
  "Sum256 msg =
     (let p = sha_pad msg in
      concat (map (\<lambda>w. big_endian 4 (unat w)) (foldl sha_block sha_H0 (chunks 64 (length p div 64) p))))"

section \<open>HMAC\<close>

definition xor_bytes :: "nat \<Rightarrow> bytes \<Rightarrow> bytes" where
  "xor_bytes p bs = map (\<lambda>c. char_of (byte c XOR p)) bs"

definition hmac_sha256 :: "bytes \<Rightarrow> bytes \<Rightarrow> bytes" where
  "hmac_sha256 key msg =
     (let k0 = (if 64 < length key then Sum256 key else key);
          k = k0 @ replicate (64 - length k0) nul
      in Sum256 (xor_bytes 0x5C k @ Sum256 (xor_bytes 0x36 k @ msg)))"

section \<open>The length of a digest\<close>

lemma length_big_endian [simp]: "length (big_endian k n) = k"
  by (simp add: big_endian_def)

lemma length_sha_round [simp]: "length (sha_round st kw) = length st"
  by (cases "(st, kw)" rule: sha_round.cases) (auto simp: Let_def)

lemma length_foldl_round [simp]: "length (foldl sha_round st kws) = length st"
  by (induction kws arbitrary: st) auto

lemma length_foldl_block: "length (foldl sha_block st bs) = length st"
  by (induction bs arbitrary: st) (auto simp: sha_block_def)

lemma length_Sum256 [simp]: "length (Sum256 msg) = 32"
proof -
  have "length (concat (map (\<lambda>w. big_endian 4 (f w)) ws)) = 4 * length ws" for f and ws :: "32 word list"
    by (induction ws) auto
  then show ?thesis by (simp add: Sum256_def Let_def length_foldl_block sha_H0_def)
qed

lemma length_hmac_sha256 [simp]: "length (hmac_sha256 key msg) = 32"
  by (simp add: hmac_sha256_def Let_def)

end
