(* ===== verification/Tokens.thy ===== *)
theory Tokens
  imports Domain Base64 Crypto
begin

text \<open>
  The token formats of \<^verbatim>\<open>internal/auth\<close>: refresh tokens and scope sets (\<^verbatim>\<open>token.go\<close>), access
  tokens (\<^verbatim>\<open>accesstoken.go\<close>), administrator tokens (\<^verbatim>\<open>admintoken.go\<close>) and pairing codes
  (\<^verbatim>\<open>pairingcode.go\<close>). A \<^verbatim>\<open>secrets.Redacted\<close> is the string it hides. Random bytes are arguments.
  \<^verbatim>\<open>encoding/json\<close> on a claims structure is a parameter, a pair of functions.
\<close>

section \<open>Constants\<close>

definition AccessTokenLifetime :: duration where "AccessTokenLifetime = 15 * minute"
definition RefreshLineageLifetime :: duration where "RefreshLineageLifetime = 90 * 24 * hour"
definition credentialIDBytes :: nat where "credentialIDBytes = 16"
definition refreshSecretBytes :: nat where "refreshSecretBytes = 32"
definition credentialIDChars :: nat where "credentialIDChars = 22"
definition MaxClientLabelLen :: nat where "MaxClientLabelLen = 64"
definition MaxScopes :: nat where "MaxScopes = 32"

definition refreshTokenPrefix :: string where "refreshTokenPrefix = ''svr_''"
definition accessTokenPrefix :: string where "accessTokenPrefix = ''sva_''"
definition adminTokenPrefix :: string where "adminTokenPrefix = ''sadm_''"
abbreviation dot :: char where "dot \<equiv> CHR ''.''"

lemmas token_prefixes = refreshTokenPrefix_def accessTokenPrefix_def adminTokenPrefix_def

section \<open>Refresh tokens\<close>

definition newCredentialID :: "bytes \<Rightarrow> RefreshCredentialID" where
  "newCredentialID rnd = RawURL_Encode rnd"

definition hashRefreshSecret :: "bytes \<Rightarrow> bytes" where
  "hashRefreshSecret secret = Sum256 secret"

definition secretMatches :: "bytes \<Rightarrow> bytes \<Rightarrow> bool" where
  "secretMatches stored secret \<longleftrightarrow> stored = hashRefreshSecret secret"

definition formatRefreshToken :: "RefreshCredentialID \<Rightarrow> bytes \<Rightarrow> string" where
  "formatRefreshToken cid secret = refreshTokenPrefix @ cid @ [dot] @ RawURL_Encode secret"

definition parseRefreshToken :: "string \<Rightarrow> (RefreshCredentialID \<times> bytes) result" where
  "parseRefreshToken presented =
     (case CutPrefix presented refreshTokenPrefix of
        None \<Rightarrow> Inl ErrAuthFailed
      | Some body \<Rightarrow>
          (case Cut body dot of
             None \<Rightarrow> Inl ErrAuthFailed
           | Some (idPart, secretPart) \<Rightarrow>
               if dot \<in> set secretPart then Inl ErrAuthFailed
               else if length idPart \<noteq> credentialIDChars then Inl ErrAuthFailed
               else if RawURL_Decode idPart = None then Inl ErrAuthFailed
               else
                 (case RawURL_Decode secretPart of
                    None \<Rightarrow> Inl ErrAuthFailed
                  | Some secret \<Rightarrow>
                      if length secret \<noteq> refreshSecretBytes then Inl ErrAuthFailed
                      else Inr (idPart, secret))))"

section \<open>Scope sets and labels\<close>

definition resourceBinding :: "ScopeKind \<Rightarrow> bool" where
  "resourceBinding k \<longleftrightarrow> k = ScopeSingleSet \<or> k = ScopeSingleDevice"

fun scan_scopes :: "nat \<Rightarrow> Scope list \<Rightarrow> nat \<Rightarrow> Scope list \<Rightarrow> nat result" where
  "scan_scopes n seen bindings [] = Inr bindings"
| "scan_scopes n seen bindings (s # ss) =
     (case Scope_Validate s of
        Inl e \<Rightarrow> Inl e
      | Inr _ \<Rightarrow>
          if s \<in> set seen then Inl ErrInvalidInput
          else if Kind s = ScopeFullOwner \<and> 1 < n then Inl ErrInvalidInput
          else scan_scopes n (s # seen) (if resourceBinding (Kind s) then bindings + 1 else bindings) ss)"

definition ValidateScopes :: "Scope list \<Rightarrow> unit result" where
  "ValidateScopes scopes =
     (if scopes = [] then Inl ErrInvalidInput
      else if MaxScopes < length scopes then Inl ErrInvalidInput
      else
        (case scan_scopes (length scopes) [] 0 scopes of
           Inl e \<Rightarrow> Inl e
         | Inr bindings \<Rightarrow> if 1 < bindings then Inl ErrInvalidInput else Inr ()))"

definition validateClientLabel :: "string \<Rightarrow> unit result" where
  "validateClientLabel label =
     (if MaxClientLabelLen < length label then Inl ErrInvalidInput
      else if \<not> ValidString label then Inl ErrInvalidInput
      else if list_ex IsControl (runes label) then Inl ErrInvalidInput
      else Inr ())"

section \<open>Access tokens\<close>

definition MinSigningKeyLen :: nat where "MinSigningKeyLen = 32"
definition accessTokenVersion :: int where "accessTokenVersion = 1"

record AccessTokenSigner =
  asKey :: bytes

definition NewAccessTokenSigner :: "bytes \<Rightarrow> AccessTokenSigner result" where
  "NewAccessTokenSigner key =
     (if length key < MinSigningKeyLen then Inl ErrInvalidInput else Inr \<lparr>asKey = key\<rparr>)"

record wireScope =
  wKind :: string
  wResource :: string

record accessClaims =
  acVer :: int
  acID :: string
  acOwner :: string
  acRefresh :: string
  acScopes :: "wireScope list"
  acIssuedAt :: int
  acExpires :: int

text \<open>JSON encoding of a claims type, and strict decoding of its first value.\<close>

record 'c json =
  jMarshal :: "'c \<Rightarrow> bytes"
  jDecode :: "bytes \<Rightarrow> 'c option"

text \<open>\<^verbatim>\<open>time.Unix\<close> of an instant and back: whole seconds.\<close>

definition Unix :: "time \<Rightarrow> int" where
  "Unix t = t div second"

definition fromUnix :: "int \<Rightarrow> time" where
  "fromUnix n = n * second"

definition wire_scope :: "Scope \<Rightarrow> wireScope" where
  "wire_scope s = \<lparr>wKind = Kind s, wResource = ResourceID s\<rparr>"

definition domain_scope :: "wireScope \<Rightarrow> Scope" where
  "domain_scope w = \<lparr>Kind = wKind w, ResourceID = wResource w\<rparr>"

definition claims_of :: "AccessToken \<Rightarrow> accessClaims" where
  "claims_of tok =
     \<lparr>acVer = accessTokenVersion, acID = atID tok, acOwner = atOwnerID tok,
      acRefresh = atRefreshCredentialID tok, acScopes = map wire_scope (atScopes tok),
      acIssuedAt = Unix (atIssuedAt tok), acExpires = Unix (atExpiresAt tok)\<rparr>"

definition AccessToken_mac :: "AccessTokenSigner \<Rightarrow> bytes \<Rightarrow> bytes" where
  "AccessToken_mac s msg = hmac_sha256 (asKey s) msg"

definition AccessToken_Issue :: "accessClaims json \<Rightarrow> AccessTokenSigner \<Rightarrow> AccessToken \<Rightarrow> string result" where
  "AccessToken_Issue J s tok =
     (if atID tok = [] \<or> atOwnerID tok = [] \<or> atRefreshCredentialID tok = [] then Inl ErrInvalidInput
      else
        (case ValidateScopes (atScopes tok) of
           Inl e \<Rightarrow> Inl e
         | Inr _ \<Rightarrow>
             if \<not> atIssuedAt tok < atExpiresAt tok then Inl ErrInvalidInput
             else
               (let encoded = RawURL_Encode (jMarshal J (claims_of tok))
                in Inr (accessTokenPrefix @ encoded @ [dot] @ RawURL_Encode (AccessToken_mac s encoded)))))"

definition AccessToken_Verify ::
  "accessClaims json \<Rightarrow> AccessTokenSigner \<Rightarrow> string \<Rightarrow> time \<Rightarrow> AccessToken result" where
  "AccessToken_Verify J s presented now =
     (case CutPrefix presented accessTokenPrefix of
        None \<Rightarrow> Inl ErrAuthFailed
      | Some body \<Rightarrow>
     (case Cut body dot of
        None \<Rightarrow> Inl ErrAuthFailed
      | Some (encoded, macPart) \<Rightarrow>
          if dot \<in> set macPart then Inl ErrAuthFailed
          else
     (case RawURL_Decode macPart of
        None \<Rightarrow> Inl ErrAuthFailed
      | Some presentedMAC \<Rightarrow>
          if presentedMAC \<noteq> AccessToken_mac s encoded then Inl ErrAuthFailed
          else
     (case RawURL_Decode encoded of
        None \<Rightarrow> Inl ErrAuthFailed
      | Some payload \<Rightarrow>
     (case jDecode J payload of
        None \<Rightarrow> Inl ErrAuthFailed
      | Some claims \<Rightarrow>
          if acVer claims \<noteq> accessTokenVersion then Inl ErrAuthFailed
          else if acID claims = [] \<or> acOwner claims = [] \<or> acRefresh claims = [] then Inl ErrAuthFailed
          else
            (let scopes = map domain_scope (acScopes claims) in
             if ValidateScopes scopes \<noteq> Inr () then Inl ErrAuthFailed
             else
               (let issued = fromUnix (acIssuedAt claims); expires = fromUnix (acExpires claims) in
                if now < issued \<or> \<not> now < expires then Inl ErrAuthFailed
                else Inr \<lparr>atID = acID claims, atOwnerID = acOwner claims,
                          atRefreshCredentialID = acRefresh claims, atScopes = scopes,
                          atIssuedAt = issued, atExpiresAt = expires\<rparr>)))))))"

section \<open>Administrator tokens\<close>

definition adminTokenVersion :: int where "adminTokenVersion = 1"

record AdminTokenSigner =
  adKey :: bytes

definition NewAdminTokenSigner :: "bytes \<Rightarrow> AdminTokenSigner result" where
  "NewAdminTokenSigner key =
     (if length key < MinSigningKeyLen then Inl ErrInvalidInput else Inr \<lparr>adKey = key\<rparr>)"

definition NewAdminTokenID :: "bytes \<Rightarrow> string" where
  "NewAdminTokenID rnd = RawURL_Encode rnd"

record adminClaims =
  mcVer :: int
  mcID :: string
  mcAdmin :: string
  mcIssuedAt :: int
  mcExpires :: int

definition AdminToken_mac :: "AdminTokenSigner \<Rightarrow> bytes \<Rightarrow> bytes" where
  "AdminToken_mac s msg = hmac_sha256 (adKey s) msg"

definition AdminToken_Issue ::
  "adminClaims json \<Rightarrow> AdminTokenSigner \<Rightarrow> AdministratorID \<Rightarrow> string \<Rightarrow> time \<Rightarrow> time \<Rightarrow> string result" where
  "AdminToken_Issue J s admin jti issuedAt expiresAt =
     (if admin = [] \<or> jti = [] then Inl ErrInvalidInput
      else if \<not> issuedAt < expiresAt then Inl ErrInvalidInput
      else
        (let encoded = RawURL_Encode (jMarshal J
               \<lparr>mcVer = adminTokenVersion, mcID = jti, mcAdmin = admin,
                mcIssuedAt = Unix issuedAt, mcExpires = Unix expiresAt\<rparr>)
         in Inr (adminTokenPrefix @ encoded @ [dot] @ RawURL_Encode (AdminToken_mac s encoded))))"

definition AdminToken_Verify ::
  "adminClaims json \<Rightarrow> AdminTokenSigner \<Rightarrow> string \<Rightarrow> time \<Rightarrow> AdministratorID result" where
  "AdminToken_Verify J s presented now =
     (case CutPrefix presented adminTokenPrefix of
        None \<Rightarrow> Inl ErrAuthFailed
      | Some body \<Rightarrow>
     (case Cut body dot of
        None \<Rightarrow> Inl ErrAuthFailed
      | Some (encoded, macPart) \<Rightarrow>
          if dot \<in> set macPart then Inl ErrAuthFailed
          else
     (case RawURL_Decode macPart of
        None \<Rightarrow> Inl ErrAuthFailed
      | Some presentedMAC \<Rightarrow>
          if presentedMAC \<noteq> AdminToken_mac s encoded then Inl ErrAuthFailed
          else
     (case RawURL_Decode encoded of
        None \<Rightarrow> Inl ErrAuthFailed
      | Some payload \<Rightarrow>
     (case jDecode J payload of
        None \<Rightarrow> Inl ErrAuthFailed
      | Some claims \<Rightarrow>
          if mcVer claims \<noteq> adminTokenVersion then Inl ErrAuthFailed
          else if mcAdmin claims = [] then Inl ErrAuthFailed
          else
            (let issued = fromUnix (mcIssuedAt claims); expires = fromUnix (mcExpires claims) in
             if now < issued \<or> \<not> now < expires then Inl ErrAuthFailed
             else Inr (mcAdmin claims)))))))"

section \<open>Pairing codes\<close>

definition PairingLifetime :: duration where "PairingLifetime = 10 * minute"
definition PairingPollInterval :: duration where "PairingPollInterval = 5 * second"
definition pairingSecretBytes :: nat where "pairingSecretBytes = 32"
definition userCodeLen :: nat where "userCodeLen = 8"
definition userCodeGroup :: nat where "userCodeGroup = 4"
definition userCodeAlphabet :: string where "userCodeAlphabet = ''23456789ABCDEFGHJKLMNPQRSTUVWXYZ''"
definition deviceCodePrefix :: string where "deviceCodePrefix = ''svd_''"
definition pairingDeviceTag :: string where "pairingDeviceTag = ''vallet.auth.pairing.device.v1'' @ [nul]"
definition pairingUserTag :: string where "pairingUserTag = ''vallet.auth.pairing.user.v1'' @ [nul]"

definition newPairingID :: "bytes \<Rightarrow> PairingID" where
  "newPairingID rnd = RawURL_Encode rnd"

definition hashDeviceSecret :: "bytes \<Rightarrow> bytes" where
  "hashDeviceSecret secret = Sum256 (pairingDeviceTag @ secret)"

definition deviceSecretMatches :: "bytes \<Rightarrow> bytes \<Rightarrow> bool" where
  "deviceSecretMatches stored secret \<longleftrightarrow> stored = hashDeviceSecret secret"

definition hashUserCode :: "string \<Rightarrow> bytes" where
  "hashUserCode code = Sum256 (pairingUserTag @ code)"

text \<open>The low five bits of a random byte index the alphabet.\<close>

definition user_symbol :: "char \<Rightarrow> char" where
  "user_symbol r = userCodeAlphabet ! (byte r mod 32)"

fun show_symbols :: "nat \<Rightarrow> bytes \<Rightarrow> string" where
  "show_symbols i [] = []"
| "show_symbols i (r # rs) =
     (if 0 < i \<and> i mod userCodeGroup = 0 then [CHR ''-''] else []) @ user_symbol r # show_symbols (i + 1) rs"

text \<open>The grouped rendering shown to a person, and the canonical one.\<close>

definition newUserCode :: "bytes \<Rightarrow> string \<times> string" where
  "newUserCode raw = (show_symbols 0 raw, map user_symbol raw)"

text \<open>
  \<^verbatim>\<open>strings.ToUpper\<close> by code point, up to code points outside ASCII: beside the small letters only
  U+0131 and U+017F have an ASCII upper case, and every other code point outside ASCII stays outside.
\<close>

definition upper_rune :: "nat \<Rightarrow> nat" where
  "upper_rune r =
     (if 97 \<le> r \<and> r \<le> 122 then r - 32
      else if r = 0x131 then 73
      else if r = 0x17F then 83
      else r)"

fun normalize_runes :: "nat list \<Rightarrow> string \<Rightarrow> string result" where
  "normalize_runes [] acc = (if length acc \<noteq> userCodeLen then Inl ErrAuthFailed else Inr acc)"
| "normalize_runes (r # rs) acc =
     (if r = byte CHR ''-'' \<or> r = byte spc then normalize_runes rs acc
      else
        (let r' = (if r = byte CHR ''1'' \<or> r = byte CHR ''I'' then byte CHR ''L'' else r) in
         if r' \<notin> set (map byte userCodeAlphabet) then Inl ErrAuthFailed
         else if length acc = userCodeLen then Inl ErrAuthFailed
         else normalize_runes rs (acc @ [char_of r'])))"

definition normalizeUserCode :: "string \<Rightarrow> string result" where
  "normalizeUserCode code = normalize_runes (map upper_rune (runes code)) []"

definition formatDeviceCode :: "PairingID \<Rightarrow> bytes \<Rightarrow> string" where
  "formatDeviceCode pid secret = deviceCodePrefix @ pid @ [dot] @ RawURL_Encode secret"

definition parseDeviceCode :: "string \<Rightarrow> (PairingID \<times> bytes) result" where
  "parseDeviceCode presented =
     (case CutPrefix presented deviceCodePrefix of
        None \<Rightarrow> Inl ErrAuthFailed
      | Some body \<Rightarrow>
          (case Cut body dot of
             None \<Rightarrow> Inl ErrAuthFailed
           | Some (idPart, secretPart) \<Rightarrow>
               if dot \<in> set secretPart then Inl ErrAuthFailed
               else if length idPart \<noteq> credentialIDChars then Inl ErrAuthFailed
               else if RawURL_Decode idPart = None then Inl ErrAuthFailed
               else
                 (case RawURL_Decode secretPart of
                    None \<Rightarrow> Inl ErrAuthFailed
                  | Some secret \<Rightarrow>
                      if length secret \<noteq> pairingSecretBytes then Inl ErrAuthFailed
                      else Inr (idPart, secret))))"

section \<open>The codec of identifier and secret\<close>

text \<open>
  What a format that carries an identifier in the clear and a secret promises: an issued token parses
  to its two halves, and what parses has the right lengths and carries the format's prefix.
\<close>

locale id_secret_codec =
  fixes fmt :: "string \<Rightarrow> bytes \<Rightarrow> string"
    and parse :: "string \<Rightarrow> (string \<times> bytes) result"
    and prefix :: string
  assumes parse_fmt: "length rnd = credentialIDBytes \<Longrightarrow> length secret = 32 \<Longrightarrow>
        parse (fmt (RawURL_Encode rnd) secret) = Inr (RawURL_Encode rnd, secret)"
    and parse_Inr: "parse p = Inr (i, s) \<Longrightarrow>
        \<exists>e. p = prefix @ i @ [dot] @ e \<and> RawURL_Decode e = Some s \<and>
          length i = credentialIDChars \<and> length s = 32"
    and parse_Inl: "parse p = Inl e \<Longrightarrow> e = ErrAuthFailed"
begin

lemma fmt_inject:
  assumes "length rnd = credentialIDBytes" "length rnd' = credentialIDBytes"
    and "length secret = 32" "length secret' = 32"
    and "fmt (RawURL_Encode rnd) secret = fmt (RawURL_Encode rnd') secret'"
  shows "RawURL_Encode rnd = RawURL_Encode rnd' \<and> secret = secret'"
proof -
  have "Inr (RawURL_Encode rnd, secret) = parse (fmt (RawURL_Encode rnd') secret')"
    unfolding assms(5) [symmetric] by (rule parse_fmt [OF assms(1,3), symmetric])
  also have "\<dots> = Inr (RawURL_Encode rnd', secret')" by (rule parse_fmt [OF assms(2,4)])
  finally show ?thesis by simp
qed

end

lemma issued_id_chars: "length rnd = credentialIDBytes \<Longrightarrow> length (RawURL_Encode rnd) = credentialIDChars"
  by (simp add: length_RawURL_Encode credentialIDBytes_def credentialIDChars_def)

lemma parseRefreshToken_Inr:
  assumes "parseRefreshToken p = Inr (i, s)"
  shows "\<exists>e. p = refreshTokenPrefix @ i @ [dot] @ e \<and> RawURL_Decode e = Some s \<and>
    length i = credentialIDChars \<and> length s = 32"
proof -
  obtain body where body: "CutPrefix p refreshTokenPrefix = Some body"
    using assms by (cases "CutPrefix p refreshTokenPrefix") (simp_all add: parseRefreshToken_def)
  obtain a b where cut: "Cut body dot = Some (a, b)"
    using assms body by (cases "Cut body dot") (auto simp: parseRefreshToken_def)
  from assms have "RawURL_Decode b = Some s \<and> a = i \<and> length a = credentialIDChars \<and> length s = 32"
    by (simp add: parseRefreshToken_def body cut refreshSecretBytes_def split: if_splits option.splits)
  then show ?thesis using body cut by (auto simp: CutPrefix_Some Cut_Some)
qed

lemma parseRefreshToken_Inl: "parseRefreshToken p = Inl e \<Longrightarrow> e = ErrAuthFailed"
  by (simp add: parseRefreshToken_def split: option.splits prod.splits if_splits)

lemma parseDeviceCode_Inr:
  assumes "parseDeviceCode p = Inr (i, s)"
  shows "\<exists>e. p = deviceCodePrefix @ i @ [dot] @ e \<and> RawURL_Decode e = Some s \<and>
    length i = credentialIDChars \<and> length s = 32"
proof -
  obtain body where body: "CutPrefix p deviceCodePrefix = Some body"
    using assms by (cases "CutPrefix p deviceCodePrefix") (simp_all add: parseDeviceCode_def)
  obtain a b where cut: "Cut body dot = Some (a, b)"
    using assms body by (cases "Cut body dot") (auto simp: parseDeviceCode_def)
  from assms have "RawURL_Decode b = Some s \<and> a = i \<and> length a = credentialIDChars \<and> length s = 32"
    by (simp add: parseDeviceCode_def body cut pairingSecretBytes_def split: if_splits option.splits)
  then show ?thesis using body cut by (auto simp: CutPrefix_Some Cut_Some)
qed

lemma parseDeviceCode_Inl: "parseDeviceCode p = Inl e \<Longrightarrow> e = ErrAuthFailed"
  by (simp add: parseDeviceCode_def split: option.splits prod.splits if_splits)

interpretation refresh: id_secret_codec formatRefreshToken parseRefreshToken refreshTokenPrefix
proof unfold_locales
  fix rnd secret :: string
  assume "length rnd = credentialIDBytes" "length secret = 32"
  then show "parseRefreshToken (formatRefreshToken (RawURL_Encode rnd) secret) = Inr (RawURL_Encode rnd, secret)"
    by (simp add: parseRefreshToken_def formatRefreshToken_def issued_id_chars refreshSecretBytes_def)
qed (fact parseRefreshToken_Inr parseRefreshToken_Inl)+

interpretation device: id_secret_codec formatDeviceCode parseDeviceCode deviceCodePrefix
proof unfold_locales
  fix rnd secret :: string
  assume "length rnd = credentialIDBytes" "length secret = 32"
  then show "parseDeviceCode (formatDeviceCode (RawURL_Encode rnd) secret) = Inr (RawURL_Encode rnd, secret)"
    by (simp add: parseDeviceCode_def formatDeviceCode_def issued_id_chars pairingSecretBytes_def)
qed (fact parseDeviceCode_Inr parseDeviceCode_Inl)+

section \<open>What a valid scope set is\<close>

lemma scan_scopes_Inr:
  "scan_scopes n seen b ss = Inr k \<longleftrightarrow>
     (\<forall>s \<in> set ss. Scope_Validate s = Inr ()) \<and> distinct ss \<and> set ss \<inter> set seen = {} \<and>
     (1 < n \<longrightarrow> (\<forall>s \<in> set ss. Kind s \<noteq> ScopeFullOwner)) \<and>
     k = b + length (filter (\<lambda>s. resourceBinding (Kind s)) ss)"
  by (induction n seen b ss rule: scan_scopes.induct) (auto split: sum.splits)

lemma ValidateScopes_Inr:
  "ValidateScopes ss = Inr () \<longleftrightarrow>
     ss \<noteq> [] \<and> length ss \<le> MaxScopes \<and> distinct ss \<and> (\<forall>s \<in> set ss. Scope_Validate s = Inr ()) \<and>
     (1 < length ss \<longrightarrow> (\<forall>s \<in> set ss. Kind s \<noteq> ScopeFullOwner)) \<and>
     length (filter (\<lambda>s. resourceBinding (Kind s)) ss) \<le> 1"
proof (cases "scan_scopes (length ss) [] 0 ss")
  case (Inl e)
  then show ?thesis
    using scan_scopes_Inr [of "length ss" "[]" 0 ss "length (filter (\<lambda>s. resourceBinding (Kind s)) ss)"]
    by (auto simp: ValidateScopes_def)
next
  case (Inr k)
  then show ?thesis
    using scan_scopes_Inr [of "length ss" "[]" 0 ss k] by (auto simp: ValidateScopes_def)
qed

definition full_owner :: Scope where
  "full_owner = \<lparr>Kind = ScopeFullOwner, ResourceID = []\<rparr>"

definition read_only :: Scope where
  "read_only = \<lparr>Kind = ScopeReadOnly, ResourceID = []\<rparr>"

text \<open>A scope bound to one named resource.\<close>

definition bound_scope :: "Scope \<Rightarrow> bool" where
  "bound_scope s \<longleftrightarrow> resourceBinding (Kind s) \<and> ResourceID s \<noteq> []"

lemma Scope_Validate_cases:
  "Scope_Validate s = Inr () \<longleftrightarrow> s = full_owner \<or> s = read_only \<or> bound_scope s"
proof -
  have "s = \<lparr>Kind = Kind s, ResourceID = ResourceID s\<rparr>" by simp
  then show ?thesis
    by (auto simp: Scope_Validate_def full_owner_def read_only_def bound_scope_def resourceBinding_def
        bindsResource_def ScopeKind_IsValid_def scope_kind_defs split: if_splits)
qed

lemma scope_kinds [simp]:
  "Kind full_owner = ScopeFullOwner" "Kind read_only = ScopeReadOnly"
  "\<not> resourceBinding ScopeFullOwner" "\<not> resourceBinding ScopeReadOnly"
  "ScopeReadOnly \<noteq> ScopeFullOwner" "full_owner \<noteq> read_only" "read_only \<noteq> full_owner"
  "\<not> bound_scope full_owner" "\<not> bound_scope read_only"
  "bound_scope b \<Longrightarrow> resourceBinding (Kind b)"
  by (auto simp: full_owner_def read_only_def resourceBinding_def scope_kind_defs bound_scope_def)

lemma bound_scope_kind [simp]:
  "bound_scope b \<Longrightarrow> Kind b \<noteq> ScopeFullOwner" "bound_scope b \<Longrightarrow> Kind b \<noteq> ScopeReadOnly"
  by (auto simp: bound_scope_def resourceBinding_def scope_kind_defs)

lemma distinct_singleton: "distinct xs \<Longrightarrow> set xs \<subseteq> {a} \<Longrightarrow> length xs \<le> 1"
  using card_mono [of "{a}" "set xs"] by (simp add: distinct_card)

lemma valid_scopes_within:
  assumes v: "ValidateScopes ss = Inr ()" and many: "1 < length ss"
  shows "\<exists>b. bound_scope b \<and> set ss = {read_only, b} \<and> distinct ss"
proof -
  have v': "distinct ss" "\<forall>s \<in> set ss. s = full_owner \<or> s = read_only \<or> bound_scope s"
    "\<forall>s \<in> set ss. Kind s \<noteq> ScopeFullOwner"
    and one: "length (filter (\<lambda>s. resourceBinding (Kind s)) ss) \<le> 1"
    using v many by (simp_all add: ValidateScopes_Inr Scope_Validate_cases)
  then have ss: "distinct ss" "\<forall>s \<in> set ss. s = read_only \<or> bound_scope s"
    using scope_kinds(1) by metis+
  have "filter (\<lambda>s. resourceBinding (Kind s)) ss = filter bound_scope ss"
    using ss(2) by (intro filter_cong) auto
  with one have le: "length (filter bound_scope ss) \<le> 1" by simp
  have "filter bound_scope ss \<noteq> []"
  proof
    assume "filter bound_scope ss = []"
    then have "set ss \<subseteq> {read_only}" using ss(2) by (auto simp: filter_empty_conv)
    then show False using many distinct_singleton [OF ss(1)] by fastforce
  qed
  with le obtain b where b: "filter bound_scope ss = [b]"
    by (cases "filter bound_scope ss") auto
  have "{s \<in> set ss. bound_scope s} = {b}" unfolding set_filter [symmetric] b by simp
  then have in_b: "\<And>s. s \<in> set ss \<Longrightarrow> bound_scope s \<Longrightarrow> s = b" and "b \<in> set ss \<and> bound_scope b" by auto
  moreover have "read_only \<in> set ss"
  proof (rule ccontr)
    assume "read_only \<notin> set ss"
    then have "set ss \<subseteq> {b}" using ss(2) in_b by auto
    then show False using many distinct_singleton [OF ss(1)] by fastforce
  qed
  ultimately show ?thesis using ss in_b by (intro exI [of _ b]) auto
qed

lemma two_elements:
  assumes "distinct xs" and "set xs = {a, b}" and "a \<noteq> b"
  shows "xs = [a, b] \<or> xs = [b, a]"
proof -
  have "length xs = 2" using distinct_card [OF assms(1)] assms(2,3) by simp
  then obtain x y where "xs = [x, y]" by (auto simp: length_Suc_conv numeral_2_eq_2)
  then show ?thesis using assms by (auto simp: doubleton_eq_iff)
qed

lemma scope_set_cases:
  "ValidateScopes ss = Inr () \<longleftrightarrow>
     ss = [full_owner] \<or> ss = [read_only]
     \<or> (\<exists>b. bound_scope b \<and> (ss = [b] \<or> ss = [read_only, b] \<or> ss = [b, read_only]))"
proof
  assume v: "ValidateScopes ss = Inr ()"
  show "ss = [full_owner] \<or> ss = [read_only]
     \<or> (\<exists>b. bound_scope b \<and> (ss = [b] \<or> ss = [read_only, b] \<or> ss = [b, read_only]))"
  proof (cases "1 < length ss")
    case True
    then obtain b where b: "bound_scope b" "set ss = {read_only, b}" "distinct ss"
      using valid_scopes_within [OF v] by blast
    moreover from b(1) have "read_only \<noteq> b" by auto
    ultimately show ?thesis using two_elements [OF b(3,2)] by blast
  next
    case False
    moreover have "ss \<noteq> []" using v by (simp add: ValidateScopes_Inr)
    ultimately obtain s where "ss = [s]" by (cases ss) auto
    then show ?thesis using v by (auto simp: ValidateScopes_Inr Scope_Validate_cases)
  qed
next
  assume "ss = [full_owner] \<or> ss = [read_only]
     \<or> (\<exists>b. bound_scope b \<and> (ss = [b] \<or> ss = [read_only, b] \<or> ss = [b, read_only]))"
  then show "ValidateScopes ss = Inr ()"
    by (auto simp: ValidateScopes_Inr Scope_Validate_cases MaxScopes_def)
qed

section \<open>Access and administrator tokens\<close>

lemma Unix_le: "fromUnix (Unix t) \<le> t"
  by (simp add: Unix_def fromUnix_def)

lemma domain_wire_scope [simp]: "domain_scope (wire_scope s) = s"
  by (simp add: domain_scope_def wire_scope_def)

text \<open>What verification accepts: the parts of an accepted token.\<close>

lemma AccessToken_Verify_Inr:
  assumes "AccessToken_Verify J s presented now = Inr tok"
  shows "\<exists>encoded macPart. presented = accessTokenPrefix @ encoded @ [dot] @ macPart
    \<and> RawURL_Decode macPart = Some (AccessToken_mac s encoded)
    \<and> atIssuedAt tok \<le> now \<and> now < atExpiresAt tok
    \<and> ValidateScopes (atScopes tok) = Inr ()
    \<and> atID tok \<noteq> [] \<and> atOwnerID tok \<noteq> [] \<and> atRefreshCredentialID tok \<noteq> []"
proof -
  obtain body where body: "CutPrefix presented accessTokenPrefix = Some body"
    using assms by (cases "CutPrefix presented accessTokenPrefix") (simp_all add: AccessToken_Verify_def)
  obtain a b where cut: "Cut body dot = Some (a, b)"
    using assms body by (cases "Cut body dot") (auto simp: AccessToken_Verify_def)
  note run = assms [unfolded AccessToken_Verify_def body option.case cut prod.case]
  obtain m where m: "RawURL_Decode b = Some m" using run by (cases "RawURL_Decode b") (auto split: if_splits)
  have mac: "m = AccessToken_mac s a" using run m by (auto split: if_splits)
  obtain p where p: "RawURL_Decode a = Some p"
    using run m mac by (cases "RawURL_Decode a") (auto split: if_splits)
  obtain c where c: "jDecode J p = Some c"
    using run m mac p by (cases "jDecode J p") (auto split: if_splits)
  from run have "atIssuedAt tok \<le> now \<and> now < atExpiresAt tok \<and> ValidateScopes (atScopes tok) = Inr ()
      \<and> atID tok \<noteq> [] \<and> atOwnerID tok \<noteq> [] \<and> atRefreshCredentialID tok \<noteq> []"
    by (auto simp: m mac p c Let_def split: if_splits)
  then show ?thesis using body cut m mac by (auto simp: CutPrefix_Some Cut_Some)
qed

lemma AccessToken_Verify_Inl: "AccessToken_Verify J s presented now = Inl e \<Longrightarrow> e = ErrAuthFailed"
  by (simp add: AccessToken_Verify_def Let_def split: option.splits prod.splits if_splits)

lemma access_token_verify_issue:
  assumes issue: "AccessToken_Issue J s tok = Inr raw"
    and json: "jDecode J (jMarshal J (claims_of tok)) = Some (claims_of tok)"
    and now: "fromUnix (Unix (atIssuedAt tok)) \<le> now" "now < fromUnix (Unix (atExpiresAt tok))"
  shows "AccessToken_Verify J s raw now =
    Inr (tok\<lparr>atIssuedAt := fromUnix (Unix (atIssuedAt tok)), atExpiresAt := fromUnix (Unix (atExpiresAt tok))\<rparr>)"
proof -
  let ?e = "RawURL_Encode (jMarshal J (claims_of tok))"
  from issue have ids: "atID tok \<noteq> []" "atOwnerID tok \<noteq> []" "atRefreshCredentialID tok \<noteq> []"
    and sc: "ValidateScopes (atScopes tok) = Inr ()"
    and raw: "raw = accessTokenPrefix @ ?e @ [dot] @ RawURL_Encode (AccessToken_mac s ?e)"
    by (auto simp: AccessToken_Issue_def Let_def split: if_splits sum.splits)
  have map: "map (domain_scope \<circ> wire_scope) ss = ss" for ss by (induction ss) auto
  have cut: "Cut (?e @ dot # RawURL_Encode (AccessToken_mac s ?e)) dot
      = Some (?e, RawURL_Encode (AccessToken_mac s ?e))" by (rule Cut_append) simp
  show ?thesis
    using ids sc now json cut
    by (simp add: AccessToken_Verify_def raw Let_def) (simp add: claims_of_def map)
qed

section \<open>User codes\<close>

lemma user_symbol_in: "user_symbol r \<in> set userCodeAlphabet"
  unfolding user_symbol_def by (rule nth_mem) (simp add: userCodeAlphabet_def)

text \<open>On an alphabet symbol, typed in either case, the reading is that symbol.\<close>

lemma alphabet_reads:
  "\<forall>c \<in> set userCodeAlphabet. byte c < 128 \<and> upper_rune (byte c) = byte c \<and>
     byte c \<noteq> byte CHR ''-'' \<and> byte c \<noteq> byte spc \<and> byte c \<noteq> byte CHR ''1'' \<and> byte c \<noteq> byte CHR ''I''"
  by code_simp

lemma normalize_show:
  assumes "length acc + length raw \<le> userCodeLen"
  shows "normalize_runes (map byte (show_symbols i raw)) acc =
    (if length acc + length raw = userCodeLen then Inr (acc @ map user_symbol raw) else Inl ErrAuthFailed)"
  using assms
proof (induction raw arbitrary: i acc)
  case Nil
  then show ?case by simp
next
  case (Cons r rs)
  have c: "byte (user_symbol r) \<noteq> byte CHR ''-''" "byte (user_symbol r) \<noteq> byte spc"
    "byte (user_symbol r) \<noteq> byte CHR ''1''" "byte (user_symbol r) \<noteq> byte CHR ''I''"
    using alphabet_reads user_symbol_in by blast+
  have m: "byte (user_symbol r) \<in> byte ` set userCodeAlphabet" using user_symbol_in by blast
  have "normalize_runes (map byte (user_symbol r # show_symbols (i + 1) rs)) acc =
      normalize_runes (map byte (show_symbols (i + 1) rs)) (acc @ [user_symbol r])"
    using c m Cons.prems by (simp add: Let_def)
  moreover have "normalize_runes (map byte (show_symbols (i + 1) rs)) (acc @ [user_symbol r]) =
      (if length acc + length (r # rs) = userCodeLen then Inr (acc @ map user_symbol (r # rs)) else Inl ErrAuthFailed)"
    using Cons.IH [of "acc @ [user_symbol r]" "i + 1"] Cons.prems by simp
  ultimately show ?case by simp
qed

lemma show_symbols_set: "c \<in> set (show_symbols i raw) \<Longrightarrow> c = CHR ''-'' \<or> c \<in> set userCodeAlphabet"
  by (induction raw arbitrary: i) (auto simp: user_symbol_in split: if_splits)

section \<open>Properties\<close>

text \<open>
  C37: a scope set is accepted exactly in five shapes: full ownership alone, read-only alone, one
  resource binding alone, or one resource binding with the read-only modifier on either side. In
  particular no accepted set binds two resources or weakens full ownership.
\<close>

theorem valid_scope_set_shapes:
  "ValidateScopes ss = Inr () \<longleftrightarrow>
     ss = [full_owner] \<or> ss = [read_only]
     \<or> (\<exists>b. bound_scope b \<and> (ss = [b] \<or> ss = [read_only, b] \<or> ss = [b, read_only]))"
  by (rule scope_set_cases)

text \<open>
  C36: an access token verifies to what it was issued for. If the claims survive their JSON encoding,
  a token that was issued is accepted by a verifier with the same key from its issuance until its
  expiry, both in whole seconds, and yields the identifiers, owner and scopes it was issued with.
\<close>

theorem access_token_round_trip:
  assumes "AccessToken_Issue J s tok = Inr raw"
    and "jDecode J (jMarshal J (claims_of tok)) = Some (claims_of tok)"
    and "atIssuedAt tok \<le> now" and "now < fromUnix (Unix (atExpiresAt tok))"
  shows "AccessToken_Verify J s raw now =
    Inr (tok\<lparr>atIssuedAt := fromUnix (Unix (atIssuedAt tok)), atExpiresAt := fromUnix (Unix (atExpiresAt tok))\<rparr>)"
  using access_token_verify_issue [OF assms(1,2) order_trans [OF Unix_le assms(3)] assms(4)] .

definition sample_token :: AccessToken where
  "sample_token = \<lparr>atID = ''t'', atOwnerID = ''alice'', atRefreshCredentialID = ''c'',
     atScopes = [full_owner], atIssuedAt = 5 * second + 7, atExpiresAt = 5 * second + 7 + AccessTokenLifetime\<rparr>"

definition sample_json :: "accessClaims json" where
  "sample_json = \<lparr>jMarshal = \<lambda>c. ''claims'', jDecode = \<lambda>b. Some (claims_of sample_token)\<rparr>"

theorem access_token_round_trip_witness:
  "\<exists>raw. AccessToken_Issue sample_json \<lparr>asKey = replicate 32 CHR ''k''\<rparr> sample_token = Inr raw
     \<and> AccessToken_Verify sample_json \<lparr>asKey = replicate 32 CHR ''k''\<rparr> raw minute =
         Inr (sample_token\<lparr>atIssuedAt := 5 * second, atExpiresAt := 5 * second + AccessTokenLifetime\<rparr>)"
proof -
  have sc: "ValidateScopes [full_owner] = Inr ()" by (simp add: scope_set_cases)
  then obtain raw where raw:
    "AccessToken_Issue sample_json \<lparr>asKey = replicate 32 CHR ''k''\<rparr> sample_token = Inr raw"
    by (simp add: AccessToken_Issue_def sample_token_def AccessTokenLifetime_def Let_def)
  have "AccessToken_Verify sample_json \<lparr>asKey = replicate 32 CHR ''k''\<rparr> raw minute =
      Inr (sample_token\<lparr>atIssuedAt := fromUnix (Unix (atIssuedAt sample_token)),
        atExpiresAt := fromUnix (Unix (atExpiresAt sample_token))\<rparr>)"
    by (rule access_token_round_trip [OF raw])
      (simp_all add: sample_json_def sample_token_def AccessTokenLifetime_def Unix_def fromUnix_def)
  then show ?thesis
    using raw by (simp add: sample_token_def AccessTokenLifetime_def Unix_def fromUnix_def)
qed

text \<open>
  C38: the kinds of credential are told apart by shape. A string that the refresh token parser accepts
  is accepted neither as a device code nor as an access token nor as an administrator token, and an
  access token is never an administrator token, whatever the signing keys are.
\<close>

theorem credential_kinds_disjoint:
  "(ok (parseRefreshToken p) \<longrightarrow> \<not> ok (parseDeviceCode p) \<and> \<not> ok (AccessToken_Verify J s p now)
      \<and> \<not> ok (AdminToken_Verify J' s' p now))
   \<and> (ok (AccessToken_Verify J s p now) \<longrightarrow> \<not> ok (parseDeviceCode p) \<and> \<not> ok (AdminToken_Verify J' s' p now))
   \<and> (ok (parseDeviceCode p) \<longrightarrow> \<not> ok (AdminToken_Verify J' s' p now))"
proof -
  have cut: "CutPrefix p refreshTokenPrefix \<noteq> None" if "ok (parseRefreshToken p)"
    using that by (cases "CutPrefix p refreshTokenPrefix") (simp_all add: parseRefreshToken_def)
  have dev: "CutPrefix p deviceCodePrefix \<noteq> None" if "ok (parseDeviceCode p)"
    using that by (cases "CutPrefix p deviceCodePrefix") (simp_all add: parseDeviceCode_def)
  have acc: "CutPrefix p accessTokenPrefix \<noteq> None" if "ok (AccessToken_Verify J s p now)"
    using that by (cases "CutPrefix p accessTokenPrefix") (simp_all add: AccessToken_Verify_def)
  have adm: "CutPrefix p adminTokenPrefix \<noteq> None" if "ok (AdminToken_Verify J' s' p now)"
    using that by (cases "CutPrefix p adminTokenPrefix") (simp_all add: AdminToken_Verify_def)
  show ?thesis
    using cut dev acc adm by (auto simp: CutPrefix_Some token_prefixes deviceCodePrefix_def)
qed

theorem credential_kinds_disjoint_witness:
  "ok (parseRefreshToken (formatRefreshToken (RawURL_Encode (replicate 16 nul)) (replicate 32 nul)))
   \<and> \<not> ok (parseDeviceCode (formatRefreshToken (RawURL_Encode (replicate 16 nul)) (replicate 32 nul)))"
  using refresh.parse_fmt [of "replicate 16 nul" "replicate 32 nul"]
    credential_kinds_disjoint [of "formatRefreshToken (RawURL_Encode (replicate 16 nul)) (replicate 32 nul)"]
  by (simp add: credentialIDBytes_def)

lemma normalize_newUserCode:
  assumes "length raw = userCodeLen"
  shows "normalizeUserCode (fst (newUserCode raw)) = Inr (snd (newUserCode raw))"
proof -
  have ascii: "\<forall>c \<in> set (show_symbols 0 raw). byte c < 128 \<and> upper_rune (byte c) = byte c"
  proof
    fix c assume "c \<in> set (show_symbols 0 raw)"
    then consider "c = CHR ''-''" | "c \<in> set userCodeAlphabet" using show_symbols_set by blast
    then show "byte c < 128 \<and> upper_rune (byte c) = byte c"
      using alphabet_reads by cases (auto simp: byte_def upper_rune_def)
  qed
  then have "map upper_rune (runes (show_symbols 0 raw)) = map byte (show_symbols 0 raw)"
    by (simp add: runes_ascii)
  then show ?thesis
    using normalize_show [of "[]" raw 0] assms by (simp add: normalizeUserCode_def newUserCode_def)
qed

text \<open>
  A user code read back from the screen is the code that was stored. For any eight random bytes,
  normalizing the grouped rendering gives the canonical rendering, which is eight symbols of the
  alphabet.
\<close>

lemma user_code_round_trip:
  assumes "length raw = userCodeLen"
  shows "normalizeUserCode (fst (newUserCode raw)) = Inr (snd (newUserCode raw))
    \<and> set (snd (newUserCode raw)) \<subseteq> set userCodeAlphabet"
  using normalize_newUserCode [OF assms] user_symbol_in by (auto simp: newUserCode_def)

lemma user_code_round_trip_witness:
  "fst (newUserCode (map char_of [0, 31, 32, 7, 8, 255, 100, 18 :: nat])) = ''2Z29-AZ6L''
   \<and> normalizeUserCode ''2Z29-AZ6L'' = Inr ''2Z29AZ6L''"
proof -
  have "newUserCode (map char_of [0, 31, 32, 7, 8, 255, 100, 18 :: nat]) = (''2Z29-AZ6L'', ''2Z29AZ6L'')"
    by code_simp
  then show ?thesis
    using user_code_round_trip [of "map char_of [0, 31, 32, 7, 8, 255, 100, 18 :: nat]"]
    by (simp add: userCodeLen_def)
qed

end
