(* ===== verification/Database.thy ===== *)
theory Database
  imports Domain "HOL-Library.State_Monad"
begin

text \<open>
  The database under \<^verbatim>\<open>internal/storage/sqlite\<close>. A table is the list of its rows in insertion order;
  columns that no statement reads (\<^verbatim>\<open>refresh_credentials.rotated_at\<close>) are left out, and the text
  encodings of instants, flags and scope sets are taken to round-trip, so a scanned row is the entity.
  A connection is a state monad over the tables and a script of failures: each statement consumes one
  entry, and a true entry makes it fail with a driver error and no effect, which covers lost
  connections, cancelled contexts and lock timeouts. Transactions are serialized (\<^verbatim>\<open>_txlock=immediate\<close>),
  so each runs on the committed tables and is undone as a whole when it fails.
\<close>

section \<open>Tables\<close>

text \<open>Two columns of a handle are internal to the adapter.\<close>

record HandleRow = Handle +
  hNameFold :: string
  hFoldVersion :: int

record OwnerSalt =
  osOwnerID :: string
  osSalt :: bytes
  osCreatedAt :: time

record db =
  owners :: "Owner list"
  handles :: "HandleRow list"
  devices :: "Device list"
  public_keys :: "PublicKey list"
  key_sets :: "KeySet list"
  key_set_members :: "KeySetMembership list"
  access_keys :: "AccessKey list"
  refresh_credentials :: "RefreshCredential list"
  linked_identities :: "LinkedIdentity list"
  device_pairings :: "DevicePairing list"
  administrators :: "Administrator list"
  owner_erasure_salts :: "OwnerSalt list"
  list_overrides :: "ListOverride list"
  audit_records :: "AuditRecord list"

definition empty_db :: db where
  "empty_db = \<lparr>owners = [], handles = [], devices = [], public_keys = [], key_sets = [],
     key_set_members = [], access_keys = [], refresh_credentials = [], linked_identities = [],
     device_pairings = [], administrators = [], owner_erasure_salts = [], list_overrides = [],
     audit_records = []\<rparr>"

section \<open>Connections and statements\<close>

record session =
  data :: db
  faults :: "bool list"

type_synonym 'a conn = "(session, 'a result) state"

definition faulty :: "session \<Rightarrow> bool" where
  "faulty s \<longleftrightarrow> (case faults s of [] \<Rightarrow> False | f # _ \<Rightarrow> f)"

definition tick :: "session \<Rightarrow> session" where
  "tick s = s\<lparr>faults := tl (faults s)\<rparr>"

text \<open>\<^verbatim>\<open>ExecContext\<close>: a result for the caller and new tables, or an error and none.\<close>

definition exec :: "(db \<Rightarrow> ('a \<times> db) result) \<Rightarrow> 'a conn" where
  "exec f = State (\<lambda>s.
     if faulty s then (Inl ErrStorage, tick s)
     else (case f (data s) of
             Inl e \<Rightarrow> (Inl e, tick s)
           | Inr (x, d) \<Rightarrow> (Inr x, (tick s)\<lparr>data := d\<rparr>)))"

text \<open>\<^verbatim>\<open>QueryContext\<close> and \<^verbatim>\<open>QueryRowContext\<close>.\<close>

definition query :: "(db \<Rightarrow> 'a result) \<Rightarrow> 'a conn" where
  "query f = exec (\<lambda>d. case f d of Inl e \<Rightarrow> Inl e | Inr x \<Rightarrow> Inr (x, d))"

text \<open>The idiom \<^verbatim>\<open>if err != nil { return err }\<close>.\<close>

definition attempt :: "'a conn \<Rightarrow> ('a \<Rightarrow> 'b conn) \<Rightarrow> 'b conn" where
  "attempt m k = do {
     r \<leftarrow> m;
     (case r of Inl e \<Rightarrow> State_Monad.return (Inl e) | Inr x \<Rightarrow> k x)
   }"

abbreviation ret :: "'a \<Rightarrow> 'a conn" where "ret x \<equiv> State_Monad.return (Inr x)"
abbreviation throw :: "err \<Rightarrow> 'a conn" where "throw e \<equiv> State_Monad.return (Inl e)"

text \<open>\<^verbatim>\<open>sql.ErrNoRows\<close> becomes \<^verbatim>\<open>ErrNotFound\<close>.\<close>

definition found :: "'a option \<Rightarrow> 'a result" where
  "found x = (case x of None \<Rightarrow> Inl ErrNotFound | Some r \<Rightarrow> Inr r)"

definition requireAffected :: "nat \<Rightarrow> unit conn" where
  "requireAffected n = (if n = 0 then throw ErrNotFound else ret ())"

section \<open>Transactions\<close>

text \<open>
  \<^verbatim>\<open>Store.WithTx\<close> on a context that carries no transaction: begin, run, commit. Any error restores the
  tables; the commit itself may fail.
\<close>

definition WithTx :: "'a conn \<Rightarrow> 'a conn" where
  "WithTx fn = State (\<lambda>s.
     if faulty s then (Inl ErrStorage, tick s)
     else
       (case run_state fn (tick s) of
          (Inl e, s') \<Rightarrow> (Inl e, s'\<lparr>data := data s\<rparr>)
        | (Inr x, s') \<Rightarrow>
            if faulty s' then (Inl ErrStorage, (tick s')\<lparr>data := data s\<rparr>)
            else (Inr x, tick s')))"

text \<open>
  \<^verbatim>\<open>withLocalTx\<close> joins the caller's transaction when there is one and otherwise opens its own.
\<close>

definition withLocalTx :: "bool \<Rightarrow> 'a conn \<Rightarrow> 'a conn" where
  "withLocalTx inTx fn = (if inTx then fn else WithTx fn)"

section \<open>Rows\<close>

definition update_where :: "('r \<Rightarrow> bool) \<Rightarrow> ('r \<Rightarrow> 'r) \<Rightarrow> 'r list \<Rightarrow> 'r list" where
  "update_where P f rows = map (\<lambda>r. if P r then f r else r) rows"

definition count_where :: "('r \<Rightarrow> bool) \<Rightarrow> 'r list \<Rightarrow> nat" where
  "count_where P rows = length (filter P rows)"

definition delete_where :: "('r \<Rightarrow> bool) \<Rightarrow> 'r list \<Rightarrow> 'r list" where
  "delete_where P rows = filter (\<lambda>r. \<not> P r) rows"

text \<open>\<^verbatim>\<open>ORDER BY a, b\<close>, by two stable sorts.\<close>

definition order_by :: "('r \<Rightarrow> 'a::linorder) \<Rightarrow> ('r \<Rightarrow> 'b::linorder) \<Rightarrow> 'r list \<Rightarrow> 'r list" where
  "order_by a b rows = sort_key a (sort_key b rows)"

definition owner_exists :: "OwnerID \<Rightarrow> db \<Rightarrow> bool" where
  "owner_exists ow d \<longleftrightarrow> list_ex (\<lambda>r. oID r = ow) (owners d)"

lemma ball_update_where [simp]:
  "(\<forall>c \<in> set (update_where P f rows). Q c) \<longleftrightarrow> (\<forall>c \<in> set rows. Q (if P c then f c else c))"
  by (auto simp: update_where_def)

lemma bex_update_where [simp]:
  "(\<exists>c \<in> set (update_where P f rows). Q c) \<longleftrightarrow> (\<exists>c \<in> set rows. Q (if P c then f c else c))"
  by (auto simp: update_where_def)

lemma mem_update_where:
  "c \<in> set (update_where P f rows) \<longleftrightarrow> (\<exists>r \<in> set rows. c = (if P r then f r else r))"
  by (auto simp: update_where_def)

lemma count_where_0 [simp]: "count_where P rows = 0 \<longleftrightarrow> (\<forall>r \<in> set rows. \<not> P r)"
  by (simp add: count_where_def filter_empty_conv)

lemma count_where_pos: "0 < count_where P rows \<longleftrightarrow> (\<exists>r \<in> set rows. P r)"
  using count_where_0 [of P rows] by (auto simp del: count_where_0)

lemma update_where_none: "\<forall>r \<in> set rows. \<not> P r \<Longrightarrow> update_where P f rows = rows"
  by (simp add: update_where_def map_idI)

lemma update_where_Nil [simp]: "update_where P f [] = []"
  by (simp add: update_where_def)

lemma update_where_Cons [simp]:
  "update_where P f (r # rows) = (if P r then f r else r) # update_where P f rows"
  by (simp add: update_where_def)

lemma update_where_append [simp]: "update_where P f (xs @ ys) = update_where P f xs @ update_where P f ys"
  by (simp add: update_where_def)

lemma map_update_where:
  "(\<And>r. r \<in> set rows \<Longrightarrow> P r \<Longrightarrow> g (f r) = g r) \<Longrightarrow> map g (update_where P f rows) = map g rows"
  by (simp add: update_where_def)

lemma set_delete_where [simp]: "set (delete_where P rows) = {r \<in> set rows. \<not> P r}"
  by (auto simp: delete_where_def)

lemma distinct_map_delete_where: "distinct (map g rows) \<Longrightarrow> distinct (map g (delete_where P rows))"
  unfolding delete_where_def by (rule distinct_map_filter)

lemma set_order_by [simp]: "set (order_by a b rows) = set rows"
  by (simp add: order_by_def)

lemma found_Inr [simp]: "found x = Inr r \<longleftrightarrow> x = Some r"
  by (simp add: found_def split: option.splits)

lemma found_Inl [simp]: "found x = Inl e \<longleftrightarrow> x = None \<and> e = ErrNotFound"
  by (auto simp: found_def split: option.splits)

lemma key_unique:
  "distinct (map g rows) \<Longrightarrow> x \<in> set rows \<Longrightarrow> y \<in> set rows \<Longrightarrow> g x = g y \<Longrightarrow> x = y"
  by (simp add: distinct_map inj_on_def)

lemma find_key:
  assumes "distinct (map g rows)" and "r \<in> set rows" and "P r" and "\<And>x. P x \<Longrightarrow> g x = g r"
  shows "find P rows = Some r"
proof -
  obtain x where x: "find P rows = Some x"
    using assms(2,3) by (metis find_None_iff not_None_eq)
  then have "x \<in> set rows" "P x" by (auto simp: find_Some_iff)
  then have "x = r" using key_unique [OF assms(1) _ assms(2)] assms(4) by blast
  with x show ?thesis by simp
qed

section \<open>Running statements\<close>

lemma data_tick [simp]: "data (tick s) = data s"
  by (simp add: tick_def)

lemma faults_data [simp]: "faults (s\<lparr>data := d\<rparr>) = faults s" "faulty (s\<lparr>data := d\<rparr>) = faulty s"
  by (simp_all add: faulty_def)

lemma faulty_Nil [simp]: "faults s = [] \<Longrightarrow> \<not> faulty s"
  by (simp add: faulty_def)

lemma faults_tick [simp]: "faults s = [] \<Longrightarrow> faults (tick s) = []"
  by (simp add: tick_def)

lemma run_attempt: "run_state (attempt m k) s =
    (case run_state m s of (Inl e, s') \<Rightarrow> (Inl e, s') | (Inr x, s') \<Rightarrow> run_state (k x) s')"
  by (simp add: attempt_def split: prod.splits sum.splits)

section \<open>Contracts\<close>

text \<open>
  \<open>hoare P m Q\<close>: from tables satisfying \<open>P\<close>, whatever statements fail, \<open>m\<close> ends with a result and
  tables satisfying \<open>Q\<close>. A statement's contract covers its failure, where the tables stay as they are.
\<close>

definition hoare :: "(db \<Rightarrow> bool) \<Rightarrow> (session, 'a) state \<Rightarrow> ('a \<Rightarrow> db \<Rightarrow> bool) \<Rightarrow> bool" where
  "hoare P m Q \<longleftrightarrow> (\<forall>s. P (data s) \<longrightarrow> (case run_state m s of (r, s') \<Rightarrow> Q r (data s')))"

named_theorems wp \<open>weakest preconditions of statements and their combinators\<close>

lemma hoareD: "hoare P m Q \<Longrightarrow> P (data s) \<Longrightarrow> run_state m s = (r, s') \<Longrightarrow> Q r (data s')"
  unfolding hoare_def by (metis (no_types, lifting) case_prod_conv)

lemma run_hoare: "hoare P m Q \<Longrightarrow> P (data s) \<Longrightarrow> Q (fst (run_state m s)) (data (snd (run_state m s)))"
  by (simp add: hoare_def split_beta)

lemma hoare_pre: "hoare P' m Q \<Longrightarrow> (\<And>d. P d \<Longrightarrow> P' d) \<Longrightarrow> hoare P m Q"
  by (simp add: hoare_def)

lemma hoare_post: "hoare P m Q' \<Longrightarrow> (\<And>r d. Q' r d \<Longrightarrow> Q r d) \<Longrightarrow> hoare P m Q"
  by (auto simp: hoare_def split: prod.splits)

lemma hoare_fix:
  assumes "\<And>d0. P d0 \<Longrightarrow> hoare (\<lambda>d. d = d0) m Q"
  shows "hoare P m Q"
  unfolding hoare_def
proof (intro allI impI)
  fix s :: session assume "P (data s)"
  from assms [OF this] show "case run_state m s of (r, s') \<Rightarrow> Q r (data s')" by (simp add: hoare_def)
qed

lemma hoare_conj: "hoare P m Q \<Longrightarrow> hoare P' m Q' \<Longrightarrow> hoare (\<lambda>d. P d \<and> P' d) m (\<lambda>r d. Q r d \<and> Q' r d)"
  by (simp add: hoare_def split_beta)

text \<open>
  The rules compute a precondition from a postcondition; the continuation comes first, so that its
  precondition is known when the first statement is reached.
\<close>

lemma hoare_return [wp]: "hoare (Q x) (State_Monad.return x) Q"
  by (simp add: hoare_def)

lemma hoare_bind [wp]:
  "(\<And>r. hoare (R r) (k r) Q) \<Longrightarrow> hoare P m R \<Longrightarrow> hoare P (State_Monad.bind m k) Q"
  by (simp add: hoare_def split_beta)

lemma hoare_attempt [wp]:
  assumes "\<And>x. hoare (R x) (k x) Q"
    and "hoare P m (\<lambda>r d. case r of Inl e \<Rightarrow> Q (Inl e) d | Inr x \<Rightarrow> R x d)"
  shows "hoare P (attempt m k) Q"
  unfolding hoare_def run_attempt
proof (intro allI impI)
  fix s :: session
  assume "P (data s)"
  moreover obtain r s' where run: "run_state m s = (r, s')" by (cases "run_state m s")
  ultimately have "case r of Inl e \<Rightarrow> Q (Inl e) (data s') | Inr x \<Rightarrow> R x (data s')"
    using hoareD [OF assms(2)] by blast
  then show "case (case run_state m s of (Inl e, s') \<Rightarrow> (Inl e, s') | (Inr x, s') \<Rightarrow> run_state (k x) s') of
      (r, s') \<Rightarrow> Q r (data s')"
    using run assms(1) by (cases r) (simp_all add: hoare_def)
qed

lemma hoare_exec [wp]:
  "hoare (\<lambda>d. Q (Inl ErrStorage) d \<and> (case f d of Inl e \<Rightarrow> Q (Inl e) d | Inr (x, d') \<Rightarrow> Q (Inr x) d'))
     (exec f) Q"
  by (auto simp: hoare_def exec_def split: sum.splits)

lemma hoare_query [wp]: "hoare (\<lambda>d. Q (Inl ErrStorage) d \<and> Q (f d) d) (query f) Q"
  by (auto simp: hoare_def query_def exec_def split: sum.splits)

lemma hoare_if [wp]:
  "hoare P m Q \<Longrightarrow> hoare P' n Q \<Longrightarrow> hoare (\<lambda>d. if b then P d else P' d) (if b then m else n) Q"
  by simp

lemma hoare_sum [wp]:
  "(\<And>e. hoare (P e) (m e) Q) \<Longrightarrow> (\<And>x. hoare (P' x) (n x) Q) \<Longrightarrow>
   hoare (\<lambda>d. case r of Inl e \<Rightarrow> P e d | Inr x \<Rightarrow> P' x d) (case r of Inl e \<Rightarrow> m e | Inr x \<Rightarrow> n x) Q"
  by (cases r) simp_all

lemma hoare_option [wp]:
  "hoare P m Q \<Longrightarrow> (\<And>x. hoare (P' x) (n x) Q) \<Longrightarrow>
   hoare (\<lambda>d. case r of None \<Rightarrow> P d | Some x \<Rightarrow> P' x d) (case r of None \<Rightarrow> m | Some x \<Rightarrow> n x) Q"
  by (cases r) simp_all

lemma hoare_prod [wp]:
  "(\<And>x y. hoare (P x y) (m x y) Q) \<Longrightarrow>
   hoare (\<lambda>d. case r of (x, y) \<Rightarrow> P x y d) (case r of (x, y) \<Rightarrow> m x y) Q"
  by (cases r) simp

lemma hoare_let [wp]: "(\<And>x. hoare (P x) (m x) Q) \<Longrightarrow> hoare (P (t)) (let x = t in m x) Q"
  by simp

text \<open>The same rules read forwards, with one precondition for all branches.\<close>

named_theorems fwd \<open>contracts by cases under a common precondition\<close>

lemma fwd_return [fwd]: "(\<And>d. P d \<Longrightarrow> Q x d) \<Longrightarrow> hoare P (State_Monad.return x) Q"
  by (simp add: hoare_def)

lemma fwd_if [fwd]:
  "(b \<Longrightarrow> hoare P m Q) \<Longrightarrow> (\<not> b \<Longrightarrow> hoare P n Q) \<Longrightarrow> hoare P (if b then m else n) Q"
  by simp

lemma fwd_sum [fwd]:
  "(\<And>e. r = Inl e \<Longrightarrow> hoare P (m e) Q) \<Longrightarrow> (\<And>x. r = Inr x \<Longrightarrow> hoare P (n x) Q) \<Longrightarrow>
   hoare P (case r of Inl e \<Rightarrow> m e | Inr x \<Rightarrow> n x) Q"
  by (cases r) simp_all

lemma fwd_option [fwd]:
  "(r = None \<Longrightarrow> hoare P m Q) \<Longrightarrow> (\<And>x. r = Some x \<Longrightarrow> hoare P (n x) Q) \<Longrightarrow>
   hoare P (case r of None \<Rightarrow> m | Some x \<Rightarrow> n x) Q"
  by (cases r) simp_all

lemma fwd_query: "(\<And>d. P d \<Longrightarrow> Q (Inl ErrStorage) d \<and> Q (f d) d) \<Longrightarrow> hoare P (query f) Q"
  by (rule hoare_pre [OF hoare_query])

lemma fwd_exec:
  "(\<And>d. P d \<Longrightarrow> Q (Inl ErrStorage) d \<and> (case f d of Inl e \<Rightarrow> Q (Inl e) d | Inr (x, d') \<Rightarrow> Q (Inr x) d')) \<Longrightarrow>
   hoare P (exec f) Q"
  by (rule hoare_pre [OF hoare_exec])

lemma fwd_bind: "hoare P m R \<Longrightarrow> (\<And>r. hoare (R r) (k r) Q) \<Longrightarrow> hoare P (State_Monad.bind m k) Q"
  by (rule hoare_bind)

lemma fwd_attempt:
  "hoare P m (\<lambda>r d. case r of Inl e \<Rightarrow> Q (Inl e) d | Inr x \<Rightarrow> R x d) \<Longrightarrow> (\<And>x. hoare (R x) (k x) Q) \<Longrightarrow>
   hoare P (attempt m k) Q"
  by (rule hoare_attempt)

lemma hoare_WithTx:
  assumes "\<And>d0. P d0 \<Longrightarrow>
      hoare (\<lambda>d. d = d0) m (\<lambda>r d. case r of Inl e \<Rightarrow> Q (Inl e) d0 | Inr x \<Rightarrow> Q (Inr x) d)"
    and "\<And>d. P d \<Longrightarrow> Q (Inl ErrStorage) d"
  shows "hoare P (WithTx m) Q"
  unfolding hoare_def
proof (intro allI impI)
  fix s :: session
  assume P: "P (data s)"
  obtain r s' where run: "run_state m (tick s) = (r, s')" by (cases "run_state m (tick s)")
  have "case r of Inl e \<Rightarrow> Q (Inl e) (data s) | Inr x \<Rightarrow> Q (Inr x) (data s')"
    using hoareD [OF assms(1) [OF P] _ run] by simp
  then show "case run_state (WithTx m) s of (r, s') \<Rightarrow> Q r (data s')"
    using assms(2) [OF P] run by (cases r) (simp_all add: WithTx_def)
qed

text \<open>What holds of a transaction's tables at its end holds, or the tables are as before.\<close>

definition preserves :: "(db \<Rightarrow> bool) \<Rightarrow> 'a conn \<Rightarrow> bool" where
  "preserves I m \<longleftrightarrow> hoare I m (\<lambda>r. I)"

lemma preserves_hoare: "preserves I m \<Longrightarrow> hoare I m (\<lambda>r. I)"
  by (simp add: preserves_def)

lemma preservesD: "preserves I m \<Longrightarrow> I (data s) \<Longrightarrow> I (data (snd (run_state m s)))"
  unfolding preserves_def hoare_def by (metis (no_types, lifting) case_prod_beta)

lemma preserves_return [intro]: "preserves I (State_Monad.return x)"
  by (simp add: preserves_def hoare_def)

lemma preserves_query [intro]: "preserves I (query f)"
  by (auto simp: preserves_def hoare_def query_def exec_def split: sum.splits)

lemma preserves_exec: "(\<And>d x d'. I d \<Longrightarrow> f d = Inr (x, d') \<Longrightarrow> I d') \<Longrightarrow> preserves I (exec f)"
  by (auto simp: preserves_def hoare_def exec_def split: sum.splits)

lemma preserves_attempt [intro]: "preserves I m \<Longrightarrow> (\<And>x. preserves I (k x)) \<Longrightarrow> preserves I (attempt m k)"
  unfolding preserves_def
  by (rule hoare_attempt [where R = "\<lambda>_. I"]) (auto simp: hoare_def split: sum.splits)

lemma preserves_bind [intro]:
  "preserves I m \<Longrightarrow> (\<And>r. preserves I (k r)) \<Longrightarrow> preserves I (State_Monad.bind m k)"
  unfolding preserves_def by (rule hoare_bind)

lemma preserves_WithTx [intro]: "preserves I m \<Longrightarrow> preserves I (WithTx m)"
  unfolding preserves_def by (rule hoare_WithTx) (auto simp: hoare_def split: sum.splits prod.splits)

lemma preserves_if [intro]: "(b \<Longrightarrow> preserves I m) \<Longrightarrow> (\<not> b \<Longrightarrow> preserves I n) \<Longrightarrow> preserves I (if b then m else n)"
  by simp

lemma preserves_sum [intro]:
  "(\<And>e. r = Inl e \<Longrightarrow> preserves I (m e)) \<Longrightarrow> (\<And>x. r = Inr x \<Longrightarrow> preserves I (n x)) \<Longrightarrow>
   preserves I (case r of Inl e \<Rightarrow> m e | Inr x \<Rightarrow> n x)"
  by (simp split: sum.splits)

lemma preserves_option [intro]:
  "(r = None \<Longrightarrow> preserves I m) \<Longrightarrow> (\<And>x. r = Some x \<Longrightarrow> preserves I (n x)) \<Longrightarrow>
   preserves I (case r of None \<Rightarrow> m | Some x \<Rightarrow> n x)"
  by (simp split: option.splits)

lemma preserves_prod [intro]: "(\<And>x y. preserves I (m x y)) \<Longrightarrow> preserves I (case p of (x, y) \<Rightarrow> m x y)"
  by (simp split: prod.splits)

lemma preserves_tx:
  assumes "\<And>s x s'. I (data s) \<Longrightarrow> run_state m s = (Inr x, s') \<Longrightarrow> I (data s')"
  shows "preserves I (WithTx m)"
  unfolding preserves_def
proof (rule hoare_WithTx)
  fix d0
  assume I: "I d0"
  show "hoare (\<lambda>d. d = d0) m (\<lambda>r d. case r of Inl e \<Rightarrow> I d0 | Inr x \<Rightarrow> I d)"
    unfolding hoare_def using I assms by (auto split: prod.splits sum.splits)
qed

section \<open>Statements on a working database\<close>

lemma exec_ok: "faults s = [] \<Longrightarrow> run_state (exec f) s =
    (case f (data s) of Inl e \<Rightarrow> (Inl e, tick s) | Inr (x, d) \<Rightarrow> (Inr x, (tick s)\<lparr>data := d\<rparr>))"
  by (simp add: exec_def)

lemma tick_ok: "faults s = [] \<Longrightarrow> tick s = s"
  by (simp add: tick_def)

lemma query_ok: "faults s = [] \<Longrightarrow> run_state (query f) s = (f (data s), s)"
  by (simp add: query_def exec_ok tick_ok split: sum.splits)

lemma WithTx_ok: "faults s = [] \<Longrightarrow> run_state (WithTx m) s =
    (case run_state m s of
       (Inl e, s') \<Rightarrow> (Inl e, s'\<lparr>data := data s\<rparr>)
     | (Inr x, s') \<Rightarrow> if faulty s' then (Inl ErrStorage, (tick s')\<lparr>data := data s\<rparr>) else (Inr x, tick s'))"
  by (simp add: WithTx_def tick_ok)

lemmas working = exec_ok query_ok WithTx_ok tick_ok run_attempt

text \<open>A run on a database that stays up leaves it up.\<close>

definition calm :: "(session, 'a) state \<Rightarrow> bool" where
  "calm m \<longleftrightarrow> (\<forall>s. faults s = [] \<longrightarrow> faults (snd (run_state m s)) = [])"

lemma calmD: "calm m \<Longrightarrow> run_state m s = (r, s') \<Longrightarrow> faults s = [] \<Longrightarrow> faults s' = []"
  unfolding calm_def by (metis snd_conv)

lemma calm_return [intro]: "calm (State_Monad.return x)"
  by (simp add: calm_def)

lemma calm_bind [intro]: "calm m \<Longrightarrow> (\<And>x. calm (k x)) \<Longrightarrow> calm (State_Monad.bind m k)"
  by (auto simp: calm_def State_Monad.bind_def split: prod.splits)

lemma calm_exec [intro]: "calm (exec f)"
  by (auto simp: calm_def exec_ok split: sum.splits)

lemma calm_query [intro]: "calm (query f)"
  by (simp add: query_def calm_exec)

lemma calm_if [intro]: "calm m \<Longrightarrow> calm n \<Longrightarrow> calm (if b then m else n)"
  by simp

lemma calm_sum [intro]: "(\<And>e. calm (m e)) \<Longrightarrow> (\<And>x. calm (n x)) \<Longrightarrow> calm (case r of Inl e \<Rightarrow> m e | Inr x \<Rightarrow> n x)"
  by (simp split: sum.splits)

lemma calm_option [intro]: "calm m \<Longrightarrow> (\<And>x. calm (n x)) \<Longrightarrow> calm (case r of None \<Rightarrow> m | Some x \<Rightarrow> n x)"
  by (simp split: option.splits)

lemma calm_prod [intro]: "(\<And>x y. calm (m x y)) \<Longrightarrow> calm (case p of (x, y) \<Rightarrow> m x y)"
  by (simp split: prod.splits)

lemma calm_attempt [intro]: "calm m \<Longrightarrow> (\<And>x. calm (k x)) \<Longrightarrow> calm (attempt m k)"
  unfolding attempt_def by (intro calm_bind calm_sum calm_return)

lemma calm_WithTx [intro]: "calm m \<Longrightarrow> calm (WithTx m)"
  by (auto simp: calm_def WithTx_ok split: prod.splits sum.splits)

lemma calm_requireAffected [intro]: "calm (requireAffected n)"
  by (simp add: requireAffected_def calm_return)

lemmas calm_rules = calm_return calm_bind calm_exec calm_query calm_if calm_sum calm_option calm_prod calm_attempt
  calm_WithTx calm_requireAffected

lemma find_update_where:
  "(\<And>r. Q r \<Longrightarrow> P (f r) = P r) \<Longrightarrow> find P (update_where Q f rows) = map_option (\<lambda>r. if Q r then f r else r) (find P rows)"
  by (induction rows) (auto simp: update_where_def)

lemma find_snoc: "\<forall>r \<in> set rows. \<not> P r \<Longrightarrow> find P (rows @ [x]) = (if P x then Some x else None)"
  by (induction rows) auto

lemma count_where_append [simp]: "count_where P (xs @ ys) = count_where P xs + count_where P ys"
  by (simp add: count_where_def)

lemma count_where_single [simp]: "count_where P [x] = (if P x then 1 else 0)"
  by (simp add: count_where_def)

section \<open>Successful runs\<close>

named_theorems succeeds \<open>what a run that succeeded went through\<close>

lemma exec_Inr [succeeds]: "run_state (exec f) s = (Inr x, s') \<Longrightarrow> f (data s) = Inr (x, data s')"
  by (auto simp: exec_def split: if_splits sum.splits)

lemma query_Inr [succeeds]: "run_state (query f) s = (Inr x, s') \<Longrightarrow> f (data s) = Inr x \<and> data s' = data s"
  by (auto simp: query_def dest!: exec_Inr split: sum.splits)

lemma attempt_Inr:
  "run_state (attempt m k) s = (Inr y, s') \<longleftrightarrow>
     (\<exists>x s1. run_state m s = (Inr x, s1) \<and> run_state (k x) s1 = (Inr y, s'))"
  by (auto simp: run_attempt split: prod.splits sum.splits)

lemma attempt_InrE:
  assumes "run_state (attempt m k) s = (Inr y, s')"
  obtains x s1 where "run_state m s = (Inr x, s1)" and "run_state (k x) s1 = (Inr y, s')"
  using assms unfolding attempt_Inr by (elim exE conjE) (rule that)

lemma WithTx_Inr:
  "run_state (WithTx m) s = (Inr x, s') \<Longrightarrow> \<exists>s1. run_state m (tick s) = (Inr x, s1) \<and> data s' = data s1"
  by (auto simp: WithTx_def split: if_splits prod.splits sum.splits)

lemma withLocalTx_Inr:
  assumes "run_state (withLocalTx b m) s = (Inr x, s')"
  shows "\<exists>s0 s1. data s0 = data s \<and> run_state m s0 = (Inr x, s1) \<and> data s' = data s1"
proof (cases b)
  case True
  then show ?thesis using assms by (auto simp: withLocalTx_def)
next
  case False
  then obtain s1 where "run_state m (tick s) = (Inr x, s1)" "data s' = data s1"
    using assms WithTx_Inr by (fastforce simp: withLocalTx_def)
  then show ?thesis by (intro exI [of _ "tick s"] exI [of _ s1]) simp
qed

lemma requireAffected_Inr [succeeds]: "run_state (requireAffected n) s = (Inr u, s') \<Longrightarrow> 0 < n \<and> s' = s"
  by (auto simp: requireAffected_def split: if_splits)

section \<open>Single-use transitions\<close>

text \<open>
  What a conditional \<^verbatim>\<open>UPDATE\<close> promises that is the interlock of a single-use credential: it succeeds
  only on a row still to be used, its success leaves the row used, and a used row stays used and
  refuses. The consequence is proved once: in any sequence of attempts, mixed with operations that do
  not bring the row back, at most one attempt succeeds, whatever statements fail.
\<close>

datatype 'a event = Attempt 'a | Other "unit conn"

fun run_events :: "('a \<Rightarrow> unit conn) \<Rightarrow> 'a event list \<Rightarrow> session \<Rightarrow> nat" where
  "run_events act [] s = 0"
| "run_events act (Attempt a # es) s =
     (case run_state (act a) s of (r, s') \<Rightarrow> (if r = Inr () then 1 else 0) + run_events act es s')"
| "run_events act (Other m # es) s = run_events act es (snd (run_state m s))"

locale single_use =
  fixes act :: "'a \<Rightarrow> unit conn"
    and wf :: "db \<Rightarrow> bool"
    and spent :: "db \<Rightarrow> bool"
  assumes act_wf: "preserves wf (act a)"
    and wins: "hoare wf (act a) (\<lambda>r d. r = Inr () \<longrightarrow> spent d)"
    and loses: "hoare spent (act a) (\<lambda>r d. r \<noteq> Inr () \<and> spent d)"
begin

definition harmless :: "'a event \<Rightarrow> bool" where
  "harmless e \<longleftrightarrow> (case e of Attempt _ \<Rightarrow> True | Other m \<Rightarrow> preserves wf m \<and> preserves spent m)"

lemma no_second:
  "\<forall>e \<in> set es. harmless e \<Longrightarrow> spent (data s) \<Longrightarrow> run_events act es s = 0"
proof (induction es arbitrary: s)
  case (Cons e es)
  show ?case
  proof (cases e)
    case (Attempt a)
    obtain r s' where "run_state (act a) s = (r, s')" by (cases "run_state (act a) s")
    then show ?thesis using hoareD [OF loses, of s a r s'] Cons Attempt by simp
  next
    case (Other m)
    then show ?thesis using Cons preservesD [of spent m s] by (simp add: harmless_def)
  qed
qed simp

lemma at_most_one:
  "\<forall>e \<in> set es. harmless e \<Longrightarrow> wf (data s) \<Longrightarrow> run_events act es s \<le> 1"
proof (induction es arbitrary: s)
  case (Cons e es)
  show ?case
  proof (cases e)
    case (Attempt a)
    obtain r s' where run: "run_state (act a) s = (r, s')" by (cases "run_state (act a) s")
    have "wf (data s')" using preservesD [OF act_wf Cons.prems(2), of a] run by simp
    moreover have "r = Inr () \<Longrightarrow> spent (data s')" using hoareD [OF wins Cons.prems(2) run] by simp
    ultimately show ?thesis using Cons Attempt run no_second [of es s'] by simp
  next
    case (Other m)
    then show ?thesis using Cons preservesD [of wf m s] by (simp add: harmless_def)
  qed
qed simp

end

end
