(* ===== verification/Auth_Repos.thy ===== *)
theory Auth_Repos
  imports Database
begin

text \<open>
  The repositories of \<^verbatim>\<open>internal/storage/sqlite\<close> behind authentication: owners, refresh credentials,
  linked identities and device pairings. Each operation is the statements it issues, with the errors the
  adapter makes of the constraint violations: a duplicate key is \<open>ErrConflict\<close>, a missing referenced
  row a driver error. The conditional rotation of a credential
  provides the locale \<open>single_use\<close>.
\<close>

section \<open>Owners\<close>

definition defaultPageLimit :: int where "defaultPageLimit = 50"

definition Owners_Create :: "Owner \<Rightarrow> unit conn" where
  "Owners_Create o' = exec (\<lambda>d.
     if list_ex (\<lambda>r. oID r = oID o') (owners d) then Inl ErrConflict
     else Inr ((), d\<lparr>owners := owners d @ [o']\<rparr>))"

definition Owners_Get :: "OwnerID \<Rightarrow> Owner conn" where
  "Owners_Get i = query (\<lambda>d. found (find (\<lambda>r. oID r = i) (owners d)))"

definition update_owners :: "(Owner \<Rightarrow> bool) \<Rightarrow> (Owner \<Rightarrow> Owner) \<Rightarrow> nat conn" where
  "update_owners P f = exec (\<lambda>d.
     Inr (count_where P (owners d), d\<lparr>owners := update_where P f (owners d)\<rparr>))"

definition Owners_UpdateStatus :: "OwnerID \<Rightarrow> OwnerStatus \<Rightarrow> time \<Rightarrow> unit conn" where
  "Owners_UpdateStatus i st now =
     attempt (update_owners (\<lambda>r. oID r = i) (\<lambda>r. r\<lparr>oStatus := st, oUpdatedAt := now\<rparr>)) requireAffected"

definition Owners_SoftDelete :: "OwnerID \<Rightarrow> time \<Rightarrow> unit conn" where
  "Owners_SoftDelete i now =
     attempt (update_owners (\<lambda>r. oID r = i) (\<lambda>r. r\<lparr>oDeletedAt := Some now, oUpdatedAt := now\<rparr>))
       requireAffected"

definition Owners_List :: "string \<Rightarrow> int \<Rightarrow> (Owner list \<times> string) conn" where
  "Owners_List cursor lim =
     (let limit = (if lim \<le> 0 then defaultPageLimit else lim) in
      attempt
        (query (\<lambda>d. Inr (take (nat (limit + 1)) (sort_key oID (filter (\<lambda>r. cursor < oID r) (owners d))))))
        (\<lambda>rows.
           if limit < int (length rows) then ret (take (nat limit) rows, oID (rows ! (nat limit - 1)))
           else ret (rows, [])))"

section \<open>Refresh credentials\<close>

definition update_creds ::
  "(RefreshCredential \<Rightarrow> bool) \<Rightarrow> (RefreshCredential \<Rightarrow> RefreshCredential) \<Rightarrow> nat conn" where
  "update_creds P f = exec (\<lambda>d.
     Inr (count_where P (refresh_credentials d),
          d\<lparr>refresh_credentials := update_where P f (refresh_credentials d)\<rparr>))"

definition RefreshCredentials_Create :: "RefreshCredential \<Rightarrow> unit conn" where
  "RefreshCredentials_Create c = exec (\<lambda>d.
     if list_ex (\<lambda>r. rcID r = rcID c) (refresh_credentials d) then Inl ErrConflict
     else if \<not> owner_exists (rcOwnerID c) d then Inl ErrStorage
     else Inr ((), d\<lparr>refresh_credentials := refresh_credentials d @ [c]\<rparr>))"

definition RefreshCredentials_GetByID :: "RefreshCredentialID \<Rightarrow> RefreshCredential conn" where
  "RefreshCredentials_GetByID i = query (\<lambda>d. found (find (\<lambda>r. rcID r = i) (refresh_credentials d)))"

definition RefreshCredentials_Get :: "OwnerID \<Rightarrow> RefreshCredentialID \<Rightarrow> RefreshCredential conn" where
  "RefreshCredentials_Get ow i =
     query (\<lambda>d. found (find (\<lambda>r. rcID r = i \<and> rcOwnerID r = ow) (refresh_credentials d)))"

definition RefreshCredentials_ListByOwner :: "OwnerID \<Rightarrow> RefreshCredential list conn" where
  "RefreshCredentials_ListByOwner ow =
     query (\<lambda>d. Inr (sort_key rcID (filter (\<lambda>r. rcOwnerID r = ow) (refresh_credentials d))))"

definition RefreshCredentials_ListByLineage :: "OwnerID \<Rightarrow> LineageID \<Rightarrow> RefreshCredential list conn" where
  "RefreshCredentials_ListByLineage ow lin = query (\<lambda>d.
     Inr (sort_key rcID (filter (\<lambda>r. rcOwnerID r = ow \<and> rcLineageID r = lin) (refresh_credentials d))))"

definition RefreshCredentials_classifyConditional :: "nat \<Rightarrow> OwnerID \<Rightarrow> RefreshCredentialID \<Rightarrow> unit conn" where
  "RefreshCredentials_classifyConditional n ow i =
     (if 0 < n then ret ()
      else attempt
        (query (\<lambda>d. found (find (\<lambda>r. rcID r = i \<and> rcOwnerID r = ow) (refresh_credentials d))))
        (\<lambda>_. throw ErrConflict))"

definition RefreshCredentials_MarkRotated :: "OwnerID \<Rightarrow> RefreshCredentialID \<Rightarrow> time \<Rightarrow> unit conn" where
  "RefreshCredentials_MarkRotated ow i now =
     attempt
       (update_creds (\<lambda>r. rcID r = i \<and> rcOwnerID r = ow \<and> rcStatus r = CredentialStatusActive)
          (\<lambda>r. r\<lparr>rcStatus := CredentialStatusRotated\<rparr>))
       (\<lambda>n. RefreshCredentials_classifyConditional n ow i)"

definition RefreshCredentials_Revoke :: "OwnerID \<Rightarrow> RefreshCredentialID \<Rightarrow> time \<Rightarrow> unit conn" where
  "RefreshCredentials_Revoke ow i now =
     attempt
       (update_creds (\<lambda>r. rcID r = i \<and> rcOwnerID r = ow)
          (\<lambda>r. r\<lparr>rcStatus := CredentialStatusRevoked, rcRevokedAt := Some now\<rparr>))
       requireAffected"

definition RefreshCredentials_RevokeLineage :: "OwnerID \<Rightarrow> LineageID \<Rightarrow> time \<Rightarrow> nat conn" where
  "RefreshCredentials_RevokeLineage ow lin now =
     update_creds
       (\<lambda>r. rcOwnerID r = ow \<and> rcLineageID r = lin \<and> rcStatus r \<noteq> CredentialStatusRevoked)
       (\<lambda>r. r\<lparr>rcStatus := CredentialStatusRevoked, rcRevokedAt := Some now\<rparr>)"

text \<open>The oldest expired rows, at most \<open>limit\<close> of them, named by their keys.\<close>

definition RefreshCredentials_DeleteExpired :: "time \<Rightarrow> int \<Rightarrow> nat conn" where
  "RefreshCredentials_DeleteExpired cutoff limit =
     (if limit \<le> 0 then throw ErrInvalidInput
      else exec (\<lambda>d.
        let ids = map rcID (take (nat limit)
              (order_by rcExpiresAt rcID (filter (\<lambda>r. rcExpiresAt r \<le> cutoff) (refresh_credentials d))))
        in Inr (count_where (\<lambda>r. rcID r \<in> set ids) (refresh_credentials d),
                d\<lparr>refresh_credentials := delete_where (\<lambda>r. rcID r \<in> set ids) (refresh_credentials d)\<rparr>)))"

section \<open>Linked identities\<close>

definition LinkedIdentities_Create :: "LinkedIdentity \<Rightarrow> unit conn" where
  "LinkedIdentities_Create li = exec (\<lambda>d.
     if list_ex (\<lambda>r. liID r = liID li \<or> (liProvider r = liProvider li \<and> liSubject r = liSubject li))
          (linked_identities d) then Inl ErrConflict
     else if \<not> owner_exists (liOwnerID li) d then Inl ErrStorage
     else Inr ((), d\<lparr>linked_identities := linked_identities d @ [li]\<rparr>))"

definition LinkedIdentities_GetByProviderSubject :: "string \<Rightarrow> string \<Rightarrow> LinkedIdentity conn" where
  "LinkedIdentities_GetByProviderSubject provider subject =
     query (\<lambda>d. found (find (\<lambda>r. liProvider r = provider \<and> liSubject r = subject) (linked_identities d)))"

definition LinkedIdentities_ListByOwner :: "OwnerID \<Rightarrow> LinkedIdentity list conn" where
  "LinkedIdentities_ListByOwner ow =
     query (\<lambda>d. Inr (order_by liCreatedAt liID (filter (\<lambda>r. liOwnerID r = ow) (linked_identities d))))"

definition LinkedIdentities_Delete :: "OwnerID \<Rightarrow> LinkedIdentityID \<Rightarrow> unit conn" where
  "LinkedIdentities_Delete ow i =
     attempt
       (exec (\<lambda>d.
          Inr (count_where (\<lambda>r. liID r = i \<and> liOwnerID r = ow) (linked_identities d),
               d\<lparr>linked_identities := delete_where (\<lambda>r. liID r = i \<and> liOwnerID r = ow) (linked_identities d)\<rparr>)))
       requireAffected"

definition LinkedIdentities_DeleteByOwner :: "OwnerID \<Rightarrow> nat conn" where
  "LinkedIdentities_DeleteByOwner ow = exec (\<lambda>d.
     Inr (count_where (\<lambda>r. liOwnerID r = ow) (linked_identities d),
          d\<lparr>linked_identities := delete_where (\<lambda>r. liOwnerID r = ow) (linked_identities d)\<rparr>))"

section \<open>Device pairings\<close>

text \<open>
  A pending pairing has no owner and the column is \<^verbatim>\<open>NULL\<close>, which no owner predicate matches: the
  entity has the empty identifier, so the predicates below test for a non-empty one.
\<close>

definition owned_by :: "OwnerID \<Rightarrow> DevicePairing \<Rightarrow> bool" where
  "owned_by ow r \<longleftrightarrow> dpOwnerID r = ow \<and> dpOwnerID r \<noteq> []"

definition update_pairings :: "(DevicePairing \<Rightarrow> bool) \<Rightarrow> (DevicePairing \<Rightarrow> DevicePairing) \<Rightarrow> nat conn" where
  "update_pairings P f = exec (\<lambda>d.
     Inr (count_where P (device_pairings d), d\<lparr>device_pairings := update_where P f (device_pairings d)\<rparr>))"

definition DevicePairings_Create :: "DevicePairing \<Rightarrow> unit conn" where
  "DevicePairings_Create p = exec (\<lambda>d.
     if list_ex (\<lambda>r. dpID r = dpID p) (device_pairings d) then Inl ErrConflict
     else Inr ((), d\<lparr>device_pairings := device_pairings d @ [p]\<rparr>))"

definition DevicePairings_GetByID :: "PairingID \<Rightarrow> DevicePairing conn" where
  "DevicePairings_GetByID i = query (\<lambda>d. found (find (\<lambda>r. dpID r = i) (device_pairings d)))"

definition DevicePairings_GetByUserCodeHash :: "bytes \<Rightarrow> DevicePairing conn" where
  "DevicePairings_GetByUserCodeHash h =
     (if h = [] then throw ErrNotFound
      else query (\<lambda>d. found (find (\<lambda>r. dpUserCodeHash r = h) (device_pairings d))))"

definition DevicePairings_Get :: "OwnerID \<Rightarrow> PairingID \<Rightarrow> DevicePairing conn" where
  "DevicePairings_Get ow i =
     query (\<lambda>d. found (find (\<lambda>r. dpID r = i \<and> owned_by ow r) (device_pairings d)))"

definition DevicePairings_ListByOwner :: "OwnerID \<Rightarrow> DevicePairing list conn" where
  "DevicePairings_ListByOwner ow =
     query (\<lambda>d. Inr (order_by dpCreatedAt dpID (filter (owned_by ow) (device_pairings d))))"

definition DevicePairings_classifyByID :: "nat \<Rightarrow> PairingID \<Rightarrow> unit conn" where
  "DevicePairings_classifyByID n i =
     (if 0 < n then ret ()
      else attempt (query (\<lambda>d. found (find (\<lambda>r. dpID r = i) (device_pairings d)))) (\<lambda>_. throw ErrConflict))"

definition DevicePairings_classifyByOwner :: "nat \<Rightarrow> OwnerID \<Rightarrow> PairingID \<Rightarrow> unit conn" where
  "DevicePairings_classifyByOwner n ow i =
     (if 0 < n then ret ()
      else attempt (query (\<lambda>d. found (find (\<lambda>r. dpID r = i \<and> owned_by ow r) (device_pairings d))))
        (\<lambda>_. throw ErrConflict))"

definition DevicePairings_Approve :: "PairingID \<Rightarrow> OwnerID \<Rightarrow> time \<Rightarrow> unit conn" where
  "DevicePairings_Approve i ow now =
     attempt
       (update_pairings (\<lambda>r. dpID r = i \<and> dpStatus r = PairingStatusPending)
          (\<lambda>r. r\<lparr>dpStatus := PairingStatusApproved, dpOwnerID := ow, dpApprovedAt := Some now\<rparr>))
       (\<lambda>n. DevicePairings_classifyByID n i)"

definition DevicePairings_MarkRedeemed :: "OwnerID \<Rightarrow> PairingID \<Rightarrow> LineageID \<Rightarrow> time \<Rightarrow> unit conn" where
  "DevicePairings_MarkRedeemed ow i lin now =
     attempt
       (update_pairings (\<lambda>r. dpID r = i \<and> owned_by ow r \<and> dpStatus r = PairingStatusApproved)
          (\<lambda>r. r\<lparr>dpStatus := PairingStatusRedeemed, dpLineageID := lin, dpRedeemedAt := Some now\<rparr>))
       (\<lambda>n. DevicePairings_classifyByOwner n ow i)"

definition DevicePairings_Revoke :: "OwnerID \<Rightarrow> PairingID \<Rightarrow> time \<Rightarrow> unit conn" where
  "DevicePairings_Revoke ow i now =
     attempt
       (update_pairings
          (\<lambda>r. dpID r = i \<and> owned_by ow r \<and> dpStatus r \<in> {PairingStatusPending, PairingStatusApproved})
          (\<lambda>r. r\<lparr>dpStatus := PairingStatusRevoked, dpRevokedAt := Some now\<rparr>))
       (\<lambda>n. DevicePairings_classifyByOwner n ow i)"

definition DevicePairings_Touch :: "PairingID \<Rightarrow> time \<Rightarrow> unit conn" where
  "DevicePairings_Touch i nextPollAt =
     attempt (update_pairings (\<lambda>r. dpID r = i) (\<lambda>r. r\<lparr>dpNextPollAt := nextPollAt\<rparr>)) requireAffected"

definition DevicePairings_DeleteExpired :: "time \<Rightarrow> int \<Rightarrow> nat conn" where
  "DevicePairings_DeleteExpired cutoff limit =
     (if limit \<le> 0 then throw ErrInvalidInput
      else exec (\<lambda>d.
        let ids = map dpID (take (nat limit)
              (order_by dpExpiresAt dpID (filter (\<lambda>r. dpExpiresAt r \<le> cutoff) (device_pairings d))))
        in Inr (count_where (\<lambda>r. dpID r \<in> set ids) (device_pairings d),
                d\<lparr>device_pairings := delete_where (\<lambda>r. dpID r \<in> set ids) (device_pairings d)\<rparr>)))"

section \<open>Invariants\<close>

text \<open>
  Credential rows: identifiers are unique, the members of a lineage share their owner, scopes and
  expiry, and at most one of them is active.
\<close>

definition kin :: "RefreshCredential \<Rightarrow> RefreshCredential \<Rightarrow> bool" where
  "kin c c' \<longleftrightarrow> (rcLineageID c = rcLineageID c' \<longrightarrow>
     rcOwnerID c = rcOwnerID c' \<and> rcScopes c = rcScopes c' \<and> rcExpiresAt c = rcExpiresAt c'
     \<and> (rcStatus c = CredentialStatusActive \<and> rcStatus c' = CredentialStatusActive \<longrightarrow> c = c'))"

definition creds_wf :: "db \<Rightarrow> bool" where
  "creds_wf d \<longleftrightarrow>
     distinct (map rcID (refresh_credentials d))
     \<and> (\<forall>c \<in> set (refresh_credentials d). \<forall>c' \<in> set (refresh_credentials d). kin c c')"

definition cred_spent :: "RefreshCredentialID \<Rightarrow> db \<Rightarrow> bool" where
  "cred_spent i d \<longleftrightarrow>
     (\<forall>c \<in> set (refresh_credentials d). rcID c = i \<longrightarrow> rcStatus c \<noteq> CredentialStatusActive)"

definition pairings_wf :: "db \<Rightarrow> bool" where
  "pairings_wf d \<longleftrightarrow> distinct (map dpID (device_pairings d))"

definition pairing_past :: "PairingStatus set \<Rightarrow> PairingID \<Rightarrow> db \<Rightarrow> bool" where
  "pairing_past S i d \<longleftrightarrow> (\<forall>p \<in> set (device_pairings d). dpID p = i \<longrightarrow> dpStatus p \<in> S)"

text \<open>An update of statuses that never activates a credential keeps the invariant.\<close>

definition inert :: "(RefreshCredential \<Rightarrow> RefreshCredential) \<Rightarrow> bool" where
  "inert f \<longleftrightarrow> (\<forall>c. rcID (f c) = rcID c \<and> rcLineageID (f c) = rcLineageID c \<and> rcOwnerID (f c) = rcOwnerID c
     \<and> rcScopes (f c) = rcScopes c \<and> rcExpiresAt (f c) = rcExpiresAt c \<and> rcStatus (f c) \<noteq> CredentialStatusActive)"

lemma kin_update:
  "inert f \<Longrightarrow> kin x y \<Longrightarrow> kin (if P x then f x else x) (if P y then f y else y)"
  by (simp add: kin_def inert_def)

lemma creds_wf_update:
  assumes "creds_wf d" and "inert f"
  shows "creds_wf (d\<lparr>refresh_credentials := update_where P f (refresh_credentials d)\<rparr>)"
proof -
  have "map rcID (update_where P f (refresh_credentials d)) = map rcID (refresh_credentials d)"
    using assms(2) by (simp add: inert_def map_update_where)
  moreover have "kin x' y'"
    if xy: "x' \<in> set (update_where P f (refresh_credentials d))" "y' \<in> set (update_where P f (refresh_credentials d))"
    for x' y'
  proof -
    obtain x y where "x \<in> set (refresh_credentials d)" "x' = (if P x then f x else x)"
      "y \<in> set (refresh_credentials d)" "y' = (if P y then f y else y)"
      using xy unfolding mem_update_where by blast
    then show ?thesis using kin_update [OF assms(2)] assms(1) by (simp add: creds_wf_def)
  qed
  ultimately show ?thesis using assms(1) by (simp add: creds_wf_def)
qed

lemma cred_spent_update:
  "cred_spent i d \<Longrightarrow> inert f \<Longrightarrow>
   cred_spent i (d\<lparr>refresh_credentials := update_where P f (refresh_credentials d)\<rparr>)"
  by (auto simp: cred_spent_def inert_def)

lemma inert_rotated [simp]: "inert (\<lambda>r. r\<lparr>rcStatus := CredentialStatusRotated\<rparr>)"
  by (simp add: inert_def)

lemma inert_revoked [simp]: "inert (\<lambda>r. r\<lparr>rcStatus := CredentialStatusRevoked, rcRevokedAt := t\<rparr>)"
  by (simp add: inert_def)

lemma creds_wf_delete:
  "creds_wf d \<Longrightarrow> creds_wf (d\<lparr>refresh_credentials := delete_where P (refresh_credentials d)\<rparr>)"
  by (auto simp: creds_wf_def distinct_map_delete_where)

lemma update_creds_preserves:
  assumes "inert f"
  shows "preserves creds_wf (update_creds P f)" "preserves (cred_spent i) (update_creds P f)"
  unfolding update_creds_def
  by (rule preserves_exec, use assms creds_wf_update cred_spent_update in force)+

lemma MarkRotated_preserves:
  "preserves creds_wf (RefreshCredentials_MarkRotated ow i now)"
  "preserves (cred_spent j) (RefreshCredentials_MarkRotated ow i now)"
  by (auto simp: RefreshCredentials_MarkRotated_def RefreshCredentials_classifyConditional_def
      intro!: preserves_attempt update_creds_preserves)

lemma RevokeLineage_preserves:
  "preserves creds_wf (RefreshCredentials_RevokeLineage ow lin now)"
  "preserves (cred_spent j) (RefreshCredentials_RevokeLineage ow lin now)"
  by (simp_all add: RefreshCredentials_RevokeLineage_def update_creds_preserves)

lemma Revoke_preserves:
  "preserves creds_wf (RefreshCredentials_Revoke ow i now)"
  "preserves (cred_spent j) (RefreshCredentials_Revoke ow i now)"
  by (auto simp: RefreshCredentials_Revoke_def requireAffected_def
      intro!: preserves_attempt update_creds_preserves)

lemma DeleteExpired_preserves:
  "preserves creds_wf (RefreshCredentials_DeleteExpired cutoff limit)"
  "preserves (cred_spent j) (RefreshCredentials_DeleteExpired cutoff limit)"
  by (auto simp: RefreshCredentials_DeleteExpired_def Let_def cred_spent_def
      intro!: preserves_exec creds_wf_delete)

text \<open>A row of the owner with the identifier loses its active state by a successful rotation.\<close>

interpretation rotation: single_use "RefreshCredentials_MarkRotated ow i"
  "\<lambda>d. creds_wf d \<and> (\<forall>c \<in> set (refresh_credentials d). rcID c = i \<longrightarrow> rcOwnerID c = ow)" "cred_spent i"
  for ow i
proof unfold_locales
  fix now
  show "preserves (\<lambda>d. creds_wf d \<and> (\<forall>c \<in> set (refresh_credentials d). rcID c = i \<longrightarrow> rcOwnerID c = ow))
      (RefreshCredentials_MarkRotated ow i now)"
    unfolding RefreshCredentials_MarkRotated_def RefreshCredentials_classifyConditional_def update_creds_def
    by (intro preserves_attempt preserves_exec preserves_if preserves_return preserves_query)
      (auto simp: creds_wf_update)
  show "hoare (\<lambda>d. creds_wf d \<and> (\<forall>c \<in> set (refresh_credentials d). rcID c = i \<longrightarrow> rcOwnerID c = ow))
      (RefreshCredentials_MarkRotated ow i now) (\<lambda>r d. r = Inr () \<longrightarrow> cred_spent i d)"
    unfolding RefreshCredentials_MarkRotated_def RefreshCredentials_classifyConditional_def update_creds_def
    by (rule hoare_pre, (rule wp)+) (auto simp: cred_spent_def split: sum.splits)
  show "hoare (cred_spent i) (RefreshCredentials_MarkRotated ow i now) (\<lambda>r d. r \<noteq> Inr () \<and> cred_spent i d)"
    unfolding RefreshCredentials_MarkRotated_def RefreshCredentials_classifyConditional_def update_creds_def
    by (rule hoare_pre, (rule wp)+)
      (auto simp: cred_spent_def update_where_none count_where_pos split: sum.splits)
qed

end
