(* ===== verification/Token_Service.thy ===== *)
theory Token_Service
  imports Tokens Rate_Limit Auth_Repos
begin

text \<open>
  The token service of \<^verbatim>\<open>internal/auth\<close> (\<^verbatim>\<open>tokenservice.go\<close>) with the denylist (\<^verbatim>\<open>denylist.go\<close>):
  issuing a refresh credential, exchanging it for its successor, revoking a lineage when a spent
  credential comes back, and verifying access tokens. The denylist works on a counter store given by
  its operations. Log lines are left out.
\<close>

section \<open>The denylist\<close>

definition DenylistSkew :: duration where "DenylistSkew = minute"
definition denylistKeyPrefix :: string where "denylistKeyPrefix = ''vallet.auth.denylist.v1''"
definition denylistSubjectCredential :: string where "denylistSubjectCredential = ''cred''"

definition denylistEntryTTL :: duration where
  "denylistEntryTTL = AccessTokenLifetime + DenylistSkew"

definition credentialKey :: "RefreshCredentialID \<Rightarrow> string" where
  "credentialKey cid =
     RawURL_Encode (Sum256 (denylistKeyPrefix @ [nul] @ denylistSubjectCredential @ [nul] @ cid))"

definition Denylist_Check ::
  "'s Store \<Rightarrow> bool \<Rightarrow> time \<Rightarrow> AccessToken \<Rightarrow> 's \<Rightarrow> unit result \<times> 's" where
  "Denylist_Check S cancelled now tok st =
     (if atRefreshCredentialID tok = [] then (Inl ErrAuthFailed, st)
      else
        (case sGet S cancelled now (credentialKey (atRefreshCredentialID tok)) st of
           (Inl e, st') \<Rightarrow> (Inl e, st')
         | (Inr got, st') \<Rightarrow> if 0 < Value got then (Inl ErrAuthFailed, st') else (Inr (), st')))"

definition Denylist_RevokeCredential ::
  "'s Store \<Rightarrow> bool \<Rightarrow> time \<Rightarrow> RefreshCredentialID \<Rightarrow> 's \<Rightarrow> unit result \<times> 's" where
  "Denylist_RevokeCredential S cancelled now cid st =
     (if cid = [] then (Inl ErrInvalidInput, st)
      else
        (case sIncrement S cancelled now (credentialKey cid) 1 denylistEntryTTL st of
           (Inl e, st') \<Rightarrow> (Inl e, st')
         | (Inr _, st') \<Rightarrow> (Inr (), st')))"

fun Denylist_RevokeLineage ::
  "'s Store \<Rightarrow> bool \<Rightarrow> time \<Rightarrow> RefreshCredential list \<Rightarrow> 's \<Rightarrow> unit result \<times> 's" where
  "Denylist_RevokeLineage S cancelled now [] st = (Inr (), st)"
| "Denylist_RevokeLineage S cancelled now (c # cs) st =
     (if \<not> now - denylistEntryTTL < rcIssuedAt c then Denylist_RevokeLineage S cancelled now cs st
      else if rcID c = [] then (Inl ErrInvalidInput, st)
      else
        (case Denylist_RevokeCredential S cancelled now (rcID c) st of
           (Inl e, st') \<Rightarrow> (Inl e, st')
         | (Inr _, st') \<Rightarrow> Denylist_RevokeLineage S cancelled now cs st'))"

section \<open>Issuing\<close>

record Issued =
  iRefreshToken :: string
  iRefreshExpiresAt :: time
  iAccessToken :: string
  iAccessExpiresAt :: time
  iOwnerID :: OwnerID
  iLineageID :: LineageID
  iScopes :: "Scope list"

text \<open>The random bytes one issuance draws: the credential's identifier, its secret and the access token's identifier.\<close>

record draws =
  rndID :: bytes
  rndSecret :: bytes
  rndJTI :: bytes

definition access_of :: "RefreshCredential \<Rightarrow> bytes \<Rightarrow> time \<Rightarrow> AccessToken" where
  "access_of cred jti now =
     \<lparr>atID = RawURL_Encode jti, atOwnerID = rcOwnerID cred, atRefreshCredentialID = rcID cred,
      atScopes = rcScopes cred, atIssuedAt = now, atExpiresAt = now + AccessTokenLifetime\<rparr>"

definition mint ::
  "accessClaims json \<Rightarrow> AccessTokenSigner \<Rightarrow> RefreshCredential \<Rightarrow> bytes \<Rightarrow> bytes \<Rightarrow> time \<Rightarrow> Issued result" where
  "mint J signer cred secret jti now =
     (case AccessToken_Issue J signer (access_of cred jti now) of
        Inl e \<Rightarrow> Inl e
      | Inr raw \<Rightarrow>
          Inr \<lparr>iRefreshToken = formatRefreshToken (rcID cred) secret, iRefreshExpiresAt = rcExpiresAt cred,
               iAccessToken = raw, iAccessExpiresAt = now + AccessTokenLifetime,
               iOwnerID = rcOwnerID cred, iLineageID = rcLineageID cred, iScopes = rcScopes cred\<rparr>)"

definition first_credential ::
  "OwnerID \<Rightarrow> Scope list \<Rightarrow> string \<Rightarrow> time \<Rightarrow> draws \<Rightarrow> RefreshCredential" where
  "first_credential ow scopes label now rnd =
     \<lparr>rcID = newCredentialID (rndID rnd), rcOwnerID = ow, rcLineageID = newCredentialID (rndID rnd),
      rcSecretHash = hashRefreshSecret (rndSecret rnd), rcScopes = scopes, rcClientLabel = label,
      rcRotatedFromID = None, rcIssuedAt = now, rcExpiresAt = now + RefreshLineageLifetime,
      rcStatus = CredentialStatusActive, rcRevokedAt = None\<rparr>"

definition TokenService_Issue ::
  "accessClaims json \<Rightarrow> AccessTokenSigner \<Rightarrow> OwnerID \<Rightarrow> Scope list \<Rightarrow> string \<Rightarrow> time \<Rightarrow> draws \<Rightarrow> Issued conn" where
  "TokenService_Issue J signer ow scopes label now rnd =
     (if ow = [] then throw ErrInvalidInput
      else
        (case ValidateScopes scopes of
           Inl e \<Rightarrow> throw e
         | Inr _ \<Rightarrow>
        (case validateClientLabel label of
           Inl e \<Rightarrow> throw e
         | Inr _ \<Rightarrow>
             (let cred = first_credential ow scopes label now rnd in
              attempt (RefreshCredentials_Create cred)
                (\<lambda>_. State_Monad.return (mint J signer cred (rndSecret rnd) (rndJTI rnd) now))))))"

section \<open>Exchanging\<close>

text \<open>Revokes the lineage and reads it back; failing to read it back loses the list only.\<close>

definition revokeLineage :: "RefreshCredential \<Rightarrow> time \<Rightarrow> RefreshCredential list conn" where
  "revokeLineage cred now =
     attempt (RefreshCredentials_RevokeLineage (rcOwnerID cred) (rcLineageID cred) now) (\<lambda>_. do {
       r \<leftarrow> RefreshCredentials_ListByLineage (rcOwnerID cred) (rcLineageID cred);
       (case r of Inl _ \<Rightarrow> ret [] | Inr revoked \<Rightarrow> ret revoked)
     })"

definition successor :: "RefreshCredential \<Rightarrow> time \<Rightarrow> draws \<Rightarrow> RefreshCredential" where
  "successor cred now rnd =
     \<lparr>rcID = newCredentialID (rndID rnd), rcOwnerID = rcOwnerID cred, rcLineageID = rcLineageID cred,
      rcSecretHash = hashRefreshSecret (rndSecret rnd), rcScopes = rcScopes cred,
      rcClientLabel = rcClientLabel cred, rcRotatedFromID = Some (rcID cred), rcIssuedAt = now,
      rcExpiresAt = rcExpiresAt cred, rcStatus = CredentialStatusActive, rcRevokedAt = None\<rparr>"

text \<open>The rotation proper: the steps after every check has passed.\<close>

definition rotate ::
  "accessClaims json \<Rightarrow> AccessTokenSigner \<Rightarrow> RefreshCredential \<Rightarrow> time \<Rightarrow> draws \<Rightarrow>
     (Issued option \<times> RefreshCredential list) conn" where
  "rotate J signer cred now rnd = do {
     r \<leftarrow> RefreshCredentials_MarkRotated (rcOwnerID cred) (rcID cred) now;
     (case r of
        Inl e \<Rightarrow>
          if e = ErrConflict then attempt (revokeLineage cred now) (\<lambda>revoked. ret (None, revoked))
          else throw e
      | Inr _ \<Rightarrow>
          (let child = successor cred now rnd in
           attempt (RefreshCredentials_Create child) (\<lambda>_.
             (case mint J signer child (rndSecret rnd) (rndJTI rnd) now of
                Inl e \<Rightarrow> throw e
              | Inr issued \<Rightarrow> ret (Some issued, [])))))
   }"

definition owner_usable :: "Owner \<Rightarrow> RefreshCredential \<Rightarrow> bool" where
  "owner_usable ow cred \<longleftrightarrow>
     oID ow = rcOwnerID cred \<and> oStatus ow = OwnerStatusActive \<and> oDeletedAt ow = None"

text \<open>
  The transaction: reading the credential, then the part that acts on one whose secret was presented.
  No result without an error means the exchange is refused.
\<close>

definition exchange_cred ::
  "accessClaims json \<Rightarrow> AccessTokenSigner \<Rightarrow> RefreshCredential \<Rightarrow> time \<Rightarrow> draws \<Rightarrow>
     (Issued option \<times> RefreshCredential list) conn" where
  "exchange_cred J signer cred now rnd = do {
     ro \<leftarrow> Owners_Get (rcOwnerID cred);
     (case ro of
        Inl e \<Rightarrow> if e = ErrNotFound then ret (None, []) else throw e
      | Inr ow \<Rightarrow>
          if \<not> owner_usable ow cred then ret (None, [])
          else if rcStatus cred \<noteq> CredentialStatusActive then
            attempt (revokeLineage cred now) (\<lambda>revoked. ret (None, revoked))
          else if \<not> now < rcExpiresAt cred then ret (None, [])
          else if ValidateScopes (rcScopes cred) \<noteq> Inr () then ret (None, [])
          else rotate J signer cred now rnd)
   }"

definition exchange_tx ::
  "accessClaims json \<Rightarrow> AccessTokenSigner \<Rightarrow> RefreshCredentialID \<Rightarrow> bytes \<Rightarrow> time \<Rightarrow> draws \<Rightarrow>
     (Issued option \<times> RefreshCredential list) conn" where
  "exchange_tx J signer cid secret now rnd = do {
     r \<leftarrow> RefreshCredentials_GetByID cid;
     (case r of
        Inl e \<Rightarrow> if e = ErrNotFound then ret (None, []) else throw e
      | Inr cred \<Rightarrow>
          if rcID cred \<noteq> cid then ret (None, [])
          else if \<not> secretMatches (rcSecretHash cred) secret then ret (None, [])
          else if rcOwnerID cred = [] \<or> rcLineageID cred = [] then ret (None, [])
          else exchange_cred J signer cred now rnd)
   }"

definition denyRevoked ::
  "'s Store \<Rightarrow> bool \<Rightarrow> RefreshCredential list \<Rightarrow> time \<Rightarrow> 's \<Rightarrow> 's" where
  "denyRevoked S cancelled revoked now st =
     (if revoked = [] then st else snd (Denylist_RevokeLineage S cancelled now revoked st))"

definition TokenService_Exchange ::
  "accessClaims json \<Rightarrow> 's Store \<Rightarrow> AccessTokenSigner \<Rightarrow> bool \<Rightarrow> string \<Rightarrow> time \<Rightarrow> draws \<Rightarrow>
     session \<times> 's \<Rightarrow> Issued result \<times> (session \<times> 's)" where
  "TokenService_Exchange J S signer cancelled presented now rnd = (\<lambda>(s, st).
     (case parseRefreshToken presented of
        Inl e \<Rightarrow> (Inl ErrAuthFailed, (s, st))
      | Inr (cid, secret) \<Rightarrow>
          (case run_state (WithTx (exchange_tx J signer cid secret now rnd)) s of
             (Inl e, s') \<Rightarrow> (Inl ErrAuthFailed, (s', st))
           | (Inr (out, revoked), s') \<Rightarrow>
               (case out of
                  None \<Rightarrow> (Inl ErrAuthFailed, (s', denyRevoked S cancelled revoked now st))
                | Some issued \<Rightarrow> (Inr issued, (s', denyRevoked S cancelled revoked now st))))))"

definition TokenService_Verify ::
  "accessClaims json \<Rightarrow> 's Store \<Rightarrow> AccessTokenSigner \<Rightarrow> bool \<Rightarrow> string \<Rightarrow> time \<Rightarrow> 's \<Rightarrow> AccessToken result \<times> 's" where
  "TokenService_Verify J S signer cancelled presented now st =
     (case AccessToken_Verify J signer presented now of
        Inl e \<Rightarrow> (Inl e, st)
      | Inr tok \<Rightarrow>
          (case Denylist_Check S cancelled now tok st of
             (Inl e, st') \<Rightarrow> (Inl ErrAuthFailed, st')
           | (Inr _, st') \<Rightarrow> (Inr tok, st')))"

section \<open>One active credential per lineage\<close>

text \<open>A lineage without an active member, every member of which looks like the given credential.\<close>

definition quiet :: "RefreshCredential \<Rightarrow> db \<Rightarrow> bool" where
  "quiet cred d \<longleftrightarrow> (\<forall>c \<in> set (refresh_credentials d). rcLineageID c = rcLineageID cred \<longrightarrow>
     rcOwnerID c = rcOwnerID cred \<and> rcScopes c = rcScopes cred \<and> rcExpiresAt c = rcExpiresAt cred
     \<and> rcStatus c \<noteq> CredentialStatusActive)"

lemma MarkRotated_quiet:
  "hoare (\<lambda>d. creds_wf d \<and> cred \<in> set (refresh_credentials d) \<and> rcStatus cred = CredentialStatusActive)
     (RefreshCredentials_MarkRotated (rcOwnerID cred) (rcID cred) now)
     (\<lambda>r d. creds_wf d \<and> (r = Inr () \<longrightarrow> quiet cred d \<and> cred_spent (rcID cred) d
        \<and> list_ex (\<lambda>c. rcID c = rcID cred) (refresh_credentials d)))"
proof -
  have rotated: "quiet cred d' \<and> cred_spent (rcID cred) d' \<and> list_ex (\<lambda>c. rcID c = rcID cred) (refresh_credentials d')"
    if wf: "creds_wf d" and "cred": "cred \<in> set (refresh_credentials d)" "rcStatus cred = CredentialStatusActive"
      and d': "d' = d\<lparr>refresh_credentials := update_where
          (\<lambda>r. rcID r = rcID cred \<and> rcOwnerID r = rcOwnerID cred \<and> rcStatus r = CredentialStatusActive)
          (\<lambda>r. r\<lparr>rcStatus := CredentialStatusRotated\<rparr>) (refresh_credentials d)\<rparr>"
    for d d'
  proof -
    have same: "c = cred" if "c \<in> set (refresh_credentials d)" "rcID c = rcID cred" for c
      using wf "cred"(1) that key_unique [of rcID "refresh_credentials d" c cred] by (simp add: creds_wf_def)
    have kin: "kin c cred" if "c \<in> set (refresh_credentials d)" for c
      using wf "cred"(1) that by (simp add: creds_wf_def)
    have "cred_spent (rcID cred) d'" using same by (auto simp: d' cred_spent_def)
    moreover have "quiet cred d'" using kin "cred"(2) by (fastforce simp: d' quiet_def kin_def)
    moreover have "list_ex (\<lambda>c. rcID c = rcID cred) (refresh_credentials d')"
      using "cred"(1) by (auto simp: d' list_ex_iff)
    ultimately show ?thesis by blast
  qed
  show ?thesis
    unfolding RefreshCredentials_MarkRotated_def RefreshCredentials_classifyConditional_def update_creds_def
    by (rule hoare_pre, (rule wp)+)
      (auto simp: creds_wf_update rotated [OF _ _ _ refl, simplified] split: sum.splits)
qed

lemma Create_wf:
  assumes "creds_wf d" and "quiet cred d" and "rcLineageID child = rcLineageID cred"
    and "rcOwnerID child = rcOwnerID cred" "rcScopes child = rcScopes cred" "rcExpiresAt child = rcExpiresAt cred"
    and "\<not> list_ex (\<lambda>r. rcID r = rcID child) (refresh_credentials d)"
  shows "creds_wf (d\<lparr>refresh_credentials := refresh_credentials d @ [child]\<rparr>)"
proof -
  have "kin c child \<and> kin child c" if "c \<in> set (refresh_credentials d)" for c
    using assms(2-6) that unfolding quiet_def kin_def by auto
  moreover have "kin child child" by (simp add: kin_def)
  moreover have "rcID child \<notin> rcID ` set (refresh_credentials d)"
    using assms(7) by (auto simp: list_ex_iff)
  ultimately show ?thesis using assms(1) by (simp add: creds_wf_def)
qed

lemma revokeLineage_preserves:
  "preserves creds_wf (revokeLineage cred now)" "preserves (cred_spent i) (revokeLineage cred now)"
  unfolding revokeLineage_def RefreshCredentials_ListByLineage_def
  by (intro preserves_attempt preserves_bind preserves_sum preserves_return preserves_query
      RevokeLineage_preserves)+

text \<open>
  A rotation keeps the invariant; when it hands out a successor, the credential is spent, the
  successor is in the tables and carries the secret that was handed out.
\<close>

lemma mint_Inr:
  "mint J signer cred secret jti now = Inr iss \<Longrightarrow>
     iRefreshToken iss = formatRefreshToken (rcID cred) secret \<and> iRefreshExpiresAt iss = rcExpiresAt cred
     \<and> AccessToken_Issue J signer (access_of cred jti now) = Inr (iAccessToken iss)
     \<and> iOwnerID iss = rcOwnerID cred \<and> iLineageID iss = rcLineageID cred \<and> iScopes iss = rcScopes cred"
  by (auto simp: mint_def split: sum.splits)

definition rotated_to ::
  "accessClaims json \<Rightarrow> AccessTokenSigner \<Rightarrow> RefreshCredential \<Rightarrow> time \<Rightarrow> draws \<Rightarrow> Issued \<Rightarrow> db \<Rightarrow> bool" where
  "rotated_to J signer cred now rnd iss d \<longleftrightarrow>
     cred_spent (rcID cred) d \<and> successor cred now rnd \<in> set (refresh_credentials d)
     \<and> mint J signer (successor cred now rnd) (rndSecret rnd) (rndJTI rnd) now = Inr iss"

lemma rotate_contract:
  assumes "rcStatus cred = CredentialStatusActive"
  shows "hoare (\<lambda>d. creds_wf d \<and> cred \<in> set (refresh_credentials d)) (rotate J signer cred now rnd)
     (\<lambda>r d. creds_wf d \<and> (\<forall>iss rv. r = Inr (Some iss, rv) \<longrightarrow> rotated_to J signer cred now rnd iss d))"
proof -
  let ?R = "\<lambda>(r :: unit result) d. creds_wf d \<and> (r = Inr () \<longrightarrow> quiet cred d \<and> cred_spent (rcID cred) d
        \<and> list_ex (\<lambda>c. rcID c = rcID cred) (refresh_credentials d))"
  let ?child = "successor cred now rnd"
  have revoke: "hoare (?R (Inl e)) (attempt (revokeLineage cred now) (\<lambda>revoked. ret (None, revoked)))
      (\<lambda>r d. creds_wf d \<and> (\<forall>iss rv. r = Inr (Some iss, rv) \<longrightarrow> rotated_to J signer cred now rnd iss d))" for e
    by (rule fwd_attempt [where R = "\<lambda>_. creds_wf"],
        rule hoare_pre, rule hoare_post [OF preserves_hoare [OF revokeLineage_preserves(1)]])
      (auto intro!: fwd_return split: sum.splits)
  have create: "hoare (?R (Inr ())) (attempt (RefreshCredentials_Create ?child) (\<lambda>_.
        (case mint J signer ?child (rndSecret rnd) (rndJTI rnd) now of
           Inl e \<Rightarrow> throw e | Inr issued \<Rightarrow> ret (Some issued, []))))
      (\<lambda>r d. creds_wf d \<and> (\<forall>iss rv. r = Inr (Some iss, rv) \<longrightarrow> rotated_to J signer cred now rnd iss d))"
    unfolding RefreshCredentials_Create_def
    apply (rule hoare_pre, (rule wp)+)
    apply (auto simp: rotated_to_def Create_wf [where cred = cred] successor_def cred_spent_def list_ex_iff split: sum.splits)
    done
  show ?thesis
    unfolding rotate_def Let_def
  proof (rule fwd_bind [OF hoare_pre [OF MarkRotated_quiet]])
    fix r :: "unit result"
    show "hoare (?R r) (case r of
          Inl e \<Rightarrow> if e = ErrConflict then attempt (revokeLineage cred now) (\<lambda>revoked. ret (None, revoked)) else throw e
        | Inr _ \<Rightarrow> attempt (RefreshCredentials_Create ?child) (\<lambda>_.
            (case mint J signer ?child (rndSecret rnd) (rndJTI rnd) now of
               Inl e \<Rightarrow> throw e | Inr issued \<Rightarrow> ret (Some issued, []))))
      (\<lambda>r d. creds_wf d \<and> (\<forall>iss rv. r = Inr (Some iss, rv) \<longrightarrow> rotated_to J signer cred now rnd iss d))"
    proof (cases r)
      case (Inl e)
      show ?thesis unfolding Inl sum.case by (intro fwd_if revoke fwd_return) simp
    next
      case (Inr u)
      show ?thesis using create unfolding Inr sum.case by simp
    qed
  qed (use assms in simp)
qed

section \<open>The exchange\<close>

definition drawn :: "draws \<Rightarrow> RefreshCredentialID" where
  "drawn rnd = newCredentialID (rndID rnd)"

text \<open>What a successful exchange of a token proves and leaves behind.\<close>

definition exchanged ::
  "accessClaims json \<Rightarrow> AccessTokenSigner \<Rightarrow> RefreshCredentialID \<Rightarrow> bytes \<Rightarrow> time \<Rightarrow> draws \<Rightarrow> Issued \<Rightarrow> db \<Rightarrow> db \<Rightarrow> bool" where
  "exchanged J signer cid secret now rnd iss d d' \<longleftrightarrow>
     (\<exists>cred \<in> set (refresh_credentials d). rcID cred = cid \<and> secretMatches (rcSecretHash cred) secret
        \<and> rcStatus cred = CredentialStatusActive \<and> now < rcExpiresAt cred
        \<and> rotated_to J signer cred now rnd iss d')"

lemma exchange_cred_contract:
  "hoare (\<lambda>d. creds_wf d \<and> cred \<in> set (refresh_credentials d)) (exchange_cred J signer cred now rnd)
     (\<lambda>r d. creds_wf d \<and> (\<forall>iss rv. r = Inr (Some iss, rv) \<longrightarrow>
        rcStatus cred = CredentialStatusActive \<and> now < rcExpiresAt cred \<and> rotated_to J signer cred now rnd iss d))"
  (is "hoare ?P _ ?Q")
proof -
  have revoke: "hoare ?P (attempt (revokeLineage cred now) (\<lambda>revoked. ret (None, revoked))) ?Q"
    by (rule fwd_attempt [where R = "\<lambda>_. creds_wf"],
        rule hoare_pre, rule hoare_post [OF preserves_hoare [OF revokeLineage_preserves(1)]])
      (auto intro!: fwd_return split: sum.splits)
  have rot: "hoare ?P (rotate J signer cred now rnd) ?Q"
    if "rcStatus cred = CredentialStatusActive" "now < rcExpiresAt cred"
    using that by (intro hoare_post [OF rotate_contract]) auto
  have owner: "hoare ?P (Owners_Get i) (\<lambda>_. ?P)" for i
    unfolding Owners_Get_def by (rule fwd_query) simp
  show ?thesis
    unfolding exchange_cred_def
    by (intro fwd_bind [OF owner] fwd_sum fwd_if fwd_return revoke rot) auto
qed

lemma exchange_contract:
  "hoare (\<lambda>d. d = d0 \<and> creds_wf d) (exchange_tx J signer cid secret now rnd)
     (\<lambda>r d. creds_wf d \<and> (\<forall>iss rv. r = Inr (Some iss, rv) \<longrightarrow> exchanged J signer cid secret now rnd iss d0 d))"
  (is "hoare ?P _ ?Q")
  unfolding exchange_tx_def
proof (rule fwd_bind [where R = "\<lambda>r d. ?P d \<and> (\<forall>cred. r = Inr cred \<longrightarrow> cred \<in> set (refresh_credentials d0))"])
  show "hoare ?P (RefreshCredentials_GetByID cid)
      (\<lambda>r d. ?P d \<and> (\<forall>cred. r = Inr cred \<longrightarrow> cred \<in> set (refresh_credentials d0)))"
    unfolding RefreshCredentials_GetByID_def by (rule fwd_query) (auto simp: find_Some_iff)
next
  fix r :: "RefreshCredential result"
  have act: "hoare (\<lambda>d. ?P d \<and> (\<forall>cred. r = Inr cred \<longrightarrow> cred \<in> set (refresh_credentials d0)))
      (exchange_cred J signer cred now rnd) ?Q"
    if "r = Inr cred" "\<not> rcID cred \<noteq> cid" "\<not> \<not> secretMatches (rcSecretHash cred) secret" for cred
  proof (cases "cred \<in> set (refresh_credentials d0)")
    case True
    then show ?thesis using that
      by (intro hoare_pre [OF hoare_post [OF exchange_cred_contract]]) (auto simp: exchanged_def)
  next
    case False
    then show ?thesis using that by (auto simp: hoare_def)
  qed
  show "hoare (\<lambda>d. ?P d \<and> (\<forall>cred. r = Inr cred \<longrightarrow> cred \<in> set (refresh_credentials d0))) (case r of
      Inl e \<Rightarrow> if e = ErrNotFound then ret (None, []) else throw e
    | Inr cred \<Rightarrow>
        if rcID cred \<noteq> cid then ret (None, [])
        else if \<not> secretMatches (rcSecretHash cred) secret then ret (None, [])
        else if rcOwnerID cred = [] \<or> rcLineageID cred = [] then ret (None, [])
        else exchange_cred J signer cred now rnd) ?Q"
    by (intro fwd_sum fwd_if fwd_return act) auto
qed

lemma exchange_cred_spent:
  "rcStatus cred \<noteq> CredentialStatusActive \<Longrightarrow>
   hoare (\<lambda>_. True) (exchange_cred J signer cred now rnd) (\<lambda>r d. \<forall>iss rv. r \<noteq> Inr (Some iss, rv))"
  by (auto simp: hoare_def exchange_cred_def run_attempt split: sum.splits prod.splits)

lemma exchange_spent:
  "hoare (cred_spent cid) (exchange_tx J signer cid secret now rnd) (\<lambda>r d. \<forall>iss rv. r \<noteq> Inr (Some iss, rv))"
  unfolding exchange_tx_def RefreshCredentials_GetByID_def
proof (rule fwd_bind)
  let ?R = "\<lambda>r (d :: db). \<forall>cred. r = Inr cred \<longrightarrow> rcStatus cred \<noteq> CredentialStatusActive \<or> rcID cred \<noteq> cid"
  show "hoare (cred_spent cid) (query (\<lambda>d. found (find (\<lambda>r. rcID r = cid) (refresh_credentials d)))) ?R"
    by (rule fwd_query) (auto simp: cred_spent_def find_Some_iff)
  fix r :: "RefreshCredential result"
  have "hoare (?R r) (exchange_cred J signer cred now rnd) (\<lambda>r d. \<forall>iss rv. r \<noteq> Inr (Some iss, rv))"
    if "r = Inr cred" "\<not> rcID cred \<noteq> cid" for cred
  proof (cases "rcStatus cred = CredentialStatusActive")
    case True
    then show ?thesis using that by (simp add: hoare_def)
  next
    case False
    then show ?thesis by (intro hoare_pre [OF exchange_cred_spent]) auto
  qed
  then show "hoare (?R r) (case r of
        Inl e \<Rightarrow> if e = ErrNotFound then ret (None, []) else throw e
      | Inr cred \<Rightarrow>
          if rcID cred \<noteq> cid then ret (None, [])
          else if \<not> secretMatches (rcSecretHash cred) secret then ret (None, [])
          else if rcOwnerID cred = [] \<or> rcLineageID cred = [] then ret (None, [])
          else exchange_cred J signer cred now rnd) (\<lambda>r d. \<forall>iss rv. r \<noteq> Inr (Some iss, rv))"
    by (intro fwd_sum fwd_if fwd_return) auto
qed

text \<open>An exchange brings no spent credential back, unless it draws its identifier.\<close>

lemma exchange_preserves_spent:
  assumes "drawn rnd \<noteq> i"
  shows "preserves (cred_spent i) (exchange_tx J signer cid secret now rnd)"
proof -
  have create: "preserves (cred_spent i) (RefreshCredentials_Create (successor cred now rnd))" for cred
    unfolding RefreshCredentials_Create_def using assms
    by (intro preserves_exec) (auto simp: cred_spent_def successor_def drawn_def split: if_splits)
  show ?thesis
    unfolding exchange_tx_def exchange_cred_def rotate_def Let_def RefreshCredentials_GetByID_def Owners_Get_def
    by (intro preserves_bind preserves_query preserves_sum preserves_if preserves_return preserves_attempt
        revokeLineage_preserves MarkRotated_preserves create)
qed

section \<open>Histories\<close>

text \<open>
  The operations on credentials a server performs over time, in any order: issuing, exchanging,
  revoking one credential, the expiry sweep, and changes of an owner's standing. A history runs them
  on the tables and the denylist and records what each handed out.
\<close>

datatype token_op =
    Op_Issue OwnerID "Scope list" string time draws
  | Op_Exchange bool string time draws
  | Op_Revoke OwnerID RefreshCredentialID time
  | Op_DeleteExpired time int
  | Op_UpdateStatus OwnerID OwnerStatus time
  | Op_SoftDelete OwnerID time

definition handed :: "Issued result \<Rightarrow> Issued option" where
  "handed r = (case r of Inl _ \<Rightarrow> None | Inr iss \<Rightarrow> Some iss)"

definition nothing :: "'a conn \<Rightarrow> session \<times> 's \<Rightarrow> Issued option \<times> (session \<times> 's)" where
  "nothing m = (\<lambda>(s, st). (None, (snd (run_state m s), st)))"

fun token_step ::
  "accessClaims json \<Rightarrow> 's Store \<Rightarrow> AccessTokenSigner \<Rightarrow> token_op \<Rightarrow> session \<times> 's \<Rightarrow> Issued option \<times> (session \<times> 's)" where
  "token_step J S signer (Op_Issue ow scopes label now rnd) x =
     (case run_state (TokenService_Issue J signer ow scopes label now rnd) (fst x) of
        (r, s) \<Rightarrow> (handed r, (s, snd x)))"
| "token_step J S signer (Op_Exchange cancelled presented now rnd) x =
     (case TokenService_Exchange J S signer cancelled presented now rnd x of (r, x') \<Rightarrow> (handed r, x'))"
| "token_step J S signer (Op_Revoke ow i now) x = nothing (RefreshCredentials_Revoke ow i now) x"
| "token_step J S signer (Op_DeleteExpired cutoff limit) x = nothing (RefreshCredentials_DeleteExpired cutoff limit) x"
| "token_step J S signer (Op_UpdateStatus ow status now) x = nothing (Owners_UpdateStatus ow status now) x"
| "token_step J S signer (Op_SoftDelete ow now) x = nothing (Owners_SoftDelete ow now) x"

fun token_run ::
  "accessClaims json \<Rightarrow> 's Store \<Rightarrow> AccessTokenSigner \<Rightarrow> token_op list \<Rightarrow> session \<times> 's \<Rightarrow>
     (token_op \<times> Issued option) list \<times> (session \<times> 's)" where
  "token_run J S signer [] x = ([], x)"
| "token_run J S signer (op # hist) x =
     (case token_step J S signer op x of
        (r, x') \<Rightarrow> (case token_run J S signer hist x' of (log, x'') \<Rightarrow> ((op, r) # log, x'')))"

text \<open>Identifiers are drawn at random from 128 bits: the hypothesis on a history is that none is drawn twice.\<close>

fun draws_of :: "token_op \<Rightarrow> RefreshCredentialID list" where
  "draws_of (Op_Issue _ _ _ _ rnd) = [drawn rnd]"
| "draws_of (Op_Exchange _ _ _ rnd) = [drawn rnd]"
| "draws_of _ = []"

definition fresh_draws :: "string set \<Rightarrow> token_op list \<Rightarrow> bool" where
  "fresh_draws U hist \<longleftrightarrow> distinct (concat (map draws_of hist)) \<and> set (concat (map draws_of hist)) \<inter> U = {}"

definition ids_in :: "string set \<Rightarrow> db \<Rightarrow> bool" where
  "ids_in U d \<longleftrightarrow> (\<forall>c \<in> set (refresh_credentials d). rcID c \<in> U \<and> rcLineageID c \<in> U)"

definition creds_inv :: "string set \<Rightarrow> db \<Rightarrow> bool" where
  "creds_inv U d \<longleftrightarrow> creds_wf d \<and> ids_in U d"

lemma fresh_draws_Cons:
  "fresh_draws U (op # hist) \<longleftrightarrow>
     distinct (draws_of op) \<and> set (draws_of op) \<inter> U = {} \<and> fresh_draws (U \<union> set (draws_of op)) hist"
  by (auto simp: fresh_draws_def)

lemma creds_inv_owners: "preserves (creds_inv U) (update_owners P f)"
  unfolding update_owners_def by (rule preserves_exec) (auto simp: creds_inv_def ids_in_def creds_wf_def)

lemma cred_spent_owners: "preserves (cred_spent i) (update_owners P f)"
  unfolding update_owners_def by (rule preserves_exec) (auto simp: cred_spent_def)

lemma creds_inv_update:
  "creds_inv U d \<Longrightarrow> inert f \<Longrightarrow>
   creds_inv U (d\<lparr>refresh_credentials := update_where P f (refresh_credentials d)\<rparr>)"
  by (simp add: creds_inv_def ids_in_def creds_wf_update) (simp add: inert_def)

lemma Revoke_inv: "preserves (creds_inv U) (RefreshCredentials_Revoke ow i now)"
  unfolding RefreshCredentials_Revoke_def update_creds_def requireAffected_def
  by (intro preserves_attempt preserves_exec preserves_if preserves_return) (auto simp: creds_inv_update)

lemma DeleteExpired_inv: "preserves (creds_inv U) (RefreshCredentials_DeleteExpired cutoff limit)"
  unfolding RefreshCredentials_DeleteExpired_def Let_def
  by (intro preserves_if preserves_exec preserves_return) (auto simp: creds_inv_def ids_in_def creds_wf_delete)

lemma creds_inv_append:
  assumes "creds_inv U d" and "rcLineageID c0 = i" "rcID c0 = i" and "i \<notin> U"
  shows "creds_inv (U \<union> {i}) (d\<lparr>refresh_credentials := refresh_credentials d @ [c0]\<rparr>)"
proof -
  have "kin c c0 \<and> kin c0 c" if "c \<in> set (refresh_credentials d)" for c
    using that assms by (auto simp: creds_inv_def ids_in_def kin_def)
  moreover have "kin c0 c0" by (simp add: kin_def)
  moreover have "rcID c0 \<notin> rcID ` set (refresh_credentials d)"
    using assms by (auto simp: creds_inv_def ids_in_def)
  ultimately show ?thesis
    using assms by (simp add: creds_inv_def creds_wf_def ids_in_def)
qed

lemma Issue_inv:
  assumes "drawn rnd \<notin> U"
  shows "hoare (creds_inv U) (TokenService_Issue J signer ow scopes label now rnd) (\<lambda>_. creds_inv (U \<union> {drawn rnd}))"
proof -
  have add: "creds_inv (U \<union> {drawn rnd})
      (d\<lparr>refresh_credentials := refresh_credentials d @ [first_credential ow scopes label now rnd]\<rparr>)"
    if "creds_inv U d" for d
    by (rule creds_inv_append [OF that _ _ assms]) (simp_all add: first_credential_def drawn_def)
  have grow: "creds_inv U d \<Longrightarrow> creds_inv (U \<union> {drawn rnd}) d" for d by (auto simp: creds_inv_def ids_in_def)
  have create: "hoare (creds_inv U) (RefreshCredentials_Create (first_credential ow scopes label now rnd))
      (\<lambda>_. creds_inv (U \<union> {drawn rnd}))"
    unfolding RefreshCredentials_Create_def by (rule fwd_exec) (use add grow in simp)
  show ?thesis
    unfolding TokenService_Issue_def Let_def
    by (intro fwd_if fwd_sum fwd_return fwd_attempt [where R = "\<lambda>_. creds_inv (U \<union> {drawn rnd})"]
        hoare_post [OF create]) (use grow in \<open>simp_all split: sum.splits\<close>)
qed

lemma ids_in_update:
  "inert f \<Longrightarrow> preserves (ids_in U) (update_creds P f)"
  unfolding update_creds_def by (rule preserves_exec) (auto simp: ids_in_def inert_def)

lemma revokeLineage_ids: "preserves (ids_in U) (revokeLineage cred now)"
  unfolding revokeLineage_def RefreshCredentials_ListByLineage_def RefreshCredentials_RevokeLineage_def
  by (intro preserves_attempt preserves_bind preserves_sum preserves_return preserves_query ids_in_update) simp

lemma rotate_ids:
  assumes "rcLineageID cred \<in> U" and "drawn rnd \<in> U"
  shows "preserves (ids_in U) (rotate J signer cred now rnd)"
proof -
  have "preserves (ids_in U) (RefreshCredentials_Create (successor cred now rnd))"
    unfolding RefreshCredentials_Create_def using assms
    by (intro preserves_exec) (auto simp: ids_in_def successor_def drawn_def split: if_splits)
  then show ?thesis
    unfolding rotate_def Let_def RefreshCredentials_MarkRotated_def RefreshCredentials_classifyConditional_def
    by (intro preserves_bind preserves_query preserves_sum preserves_if preserves_return preserves_attempt
        revokeLineage_ids ids_in_update) simp_all
qed

lemma exchange_ids:
  "hoare (ids_in U) (exchange_tx J signer cid secret now rnd) (\<lambda>_. ids_in (U \<union> {drawn rnd}))"
proof -
  let ?V = "U \<union> {drawn rnd}"
  have act: "preserves (ids_in ?V) (exchange_cred J signer cred now rnd)" if "rcLineageID cred \<in> ?V" for cred
    unfolding exchange_cred_def Owners_Get_def
    by (intro preserves_bind preserves_query preserves_sum preserves_if preserves_return preserves_attempt
        revokeLineage_ids rotate_ids) (use that in simp_all)
  have start: "hoare (ids_in U) (RefreshCredentials_GetByID cid)
      (\<lambda>r d. ids_in ?V d \<and> (\<forall>cred. r = Inr cred \<longrightarrow> rcLineageID cred \<in> ?V))"
    unfolding RefreshCredentials_GetByID_def by (rule fwd_query) (auto simp: ids_in_def find_Some_iff)
  have step: "hoare (\<lambda>d. ids_in ?V d \<and> (\<forall>cred. r = Inr cred \<longrightarrow> rcLineageID cred \<in> ?V))
      (exchange_cred J signer cred now rnd) (\<lambda>_. ids_in ?V)" if "r = Inr cred" for r :: "RefreshCredential result" and cred
  proof (cases "rcLineageID cred \<in> ?V")
    case True
    then show ?thesis by (intro hoare_pre [OF preserves_hoare [OF act]]) auto
  next
    case False
    then show ?thesis using that by (auto simp: hoare_def)
  qed
  show ?thesis
    unfolding exchange_tx_def
    by (rule fwd_bind [OF start]) (intro fwd_sum fwd_if fwd_return step; simp)
qed

lemma exchange_inv:
  "hoare (creds_inv U) (WithTx (exchange_tx J signer cid secret now rnd)) (\<lambda>_. creds_inv (U \<union> {drawn rnd}))"
proof (rule hoare_WithTx)
  fix d0 assume "creds_inv U d0"
  then have d0: "creds_wf d0" "ids_in U d0" "creds_inv (U \<union> {drawn rnd}) d0"
    by (auto simp: creds_inv_def ids_in_def)
  show "hoare (\<lambda>d. d = d0) (exchange_tx J signer cid secret now rnd)
      (\<lambda>r d. case r of Inl e \<Rightarrow> creds_inv (U \<union> {drawn rnd}) d0 | Inr x \<Rightarrow> creds_inv (U \<union> {drawn rnd}) d)"
    by (rule hoare_pre [OF hoare_post [OF hoare_conj [OF exchange_contract [of d0] exchange_ids [of U]]]])
      (use d0 in \<open>auto simp: creds_inv_def split: sum.splits\<close>)
qed (auto simp: creds_inv_def ids_in_def)

lemma exchange_tx_spent: "hoare (cred_spent cid) (WithTx (exchange_tx J signer cid secret now rnd))
    (\<lambda>r d. \<forall>iss rv. r \<noteq> Inr (Some iss, rv))"
proof (rule hoare_WithTx)
  fix d0 assume "cred_spent cid d0"
  then show "hoare (\<lambda>d. d = d0) (exchange_tx J signer cid secret now rnd)
      (\<lambda>r d. case r of Inl e \<Rightarrow> \<forall>iss rv. Inl e \<noteq> Inr (Some iss, rv) | Inr x \<Rightarrow> \<forall>iss rv. Inr x \<noteq> Inr (Some iss, rv))"
    by (intro hoare_pre [OF hoare_post [OF exchange_spent]]) (auto split: sum.splits)
qed simp

lemma exchange_tx_wins:
  "hoare (\<lambda>d. d = d0 \<and> creds_wf d) (WithTx (exchange_tx J signer cid secret now rnd))
     (\<lambda>r d. creds_wf d \<and> (\<forall>iss rv. r = Inr (Some iss, rv) \<longrightarrow> exchanged J signer cid secret now rnd iss d0 d))"
proof (rule hoare_WithTx)
  fix d1 assume d1: "d1 = d0 \<and> creds_wf d1"
  show "hoare (\<lambda>d. d = d1) (exchange_tx J signer cid secret now rnd) (\<lambda>r d. case r of
      Inl e \<Rightarrow> creds_wf d1 \<and> (\<forall>iss rv. Inl e = Inr (Some iss, rv) \<longrightarrow> exchanged J signer cid secret now rnd iss d0 d1)
    | Inr x \<Rightarrow> creds_wf d \<and> (\<forall>iss rv. Inr x = Inr (Some iss, rv) \<longrightarrow> exchanged J signer cid secret now rnd iss d0 d))"
    by (rule hoare_pre [OF hoare_post [OF exchange_contract [of d0]]]) (use d1 in \<open>auto split: sum.splits\<close>)
qed simp

text \<open>One step of a history keeps the invariant, brings no spent credential back, and redeems only an unspent one.\<close>

lemma exchange_run:
  "TokenService_Exchange J S signer cancelled presented now rnd (s, st) = (r, (s', st')) \<Longrightarrow>
   parseRefreshToken presented = Inr (cid, secret) \<Longrightarrow>
   \<exists>res. run_state (WithTx (exchange_tx J signer cid secret now rnd)) s = (res, s')
     \<and> (\<forall>iss. r = Inr iss \<longrightarrow> (\<exists>rv. res = Inr (Some iss, rv)))
     \<and> (r = Inl ErrAuthFailed \<or> (\<exists>iss. r = Inr iss))"
  by (auto simp: TokenService_Exchange_def split: prod.splits sum.splits option.splits)

lemma exchange_refused:
  "parseRefreshToken presented = Inl e \<Longrightarrow>
   TokenService_Exchange J S signer cancelled presented now rnd x = (Inl ErrAuthFailed, x)"
  by (simp add: TokenService_Exchange_def split: prod.splits)

lemma Issue_spent:
  assumes "drawn rnd \<noteq> i"
  shows "preserves (cred_spent i) (TokenService_Issue J signer ow scopes label now rnd)"
proof -
  have "preserves (cred_spent i) (RefreshCredentials_Create (first_credential ow scopes label now rnd))"
    unfolding RefreshCredentials_Create_def using assms
    by (intro preserves_exec) (auto simp: cred_spent_def first_credential_def drawn_def split: if_splits)
  then show ?thesis
    unfolding TokenService_Issue_def Let_def by (intro preserves_if preserves_sum preserves_attempt preserves_return)
qed

lemma step_data:
  assumes "token_step J S signer op x = (r, x')"
  shows "data (fst x') = (case op of
      Op_Issue ow scopes label now rnd \<Rightarrow>
        data (snd (run_state (TokenService_Issue J signer ow scopes label now rnd) (fst x)))
    | Op_Exchange cancelled presented now rnd \<Rightarrow>
        (case parseRefreshToken presented of
           Inl _ \<Rightarrow> data (fst x)
         | Inr (cid, secret) \<Rightarrow> data (snd (run_state (WithTx (exchange_tx J signer cid secret now rnd)) (fst x))))
    | Op_Revoke ow i now \<Rightarrow> data (snd (run_state (RefreshCredentials_Revoke ow i now) (fst x)))
    | Op_DeleteExpired cutoff limit \<Rightarrow> data (snd (run_state (RefreshCredentials_DeleteExpired cutoff limit) (fst x)))
    | Op_UpdateStatus ow status now \<Rightarrow> data (snd (run_state (Owners_UpdateStatus ow status now) (fst x)))
    | Op_SoftDelete ow now \<Rightarrow> data (snd (run_state (Owners_SoftDelete ow now) (fst x))))"
  using assms
  by (cases op) (auto simp: nothing_def TokenService_Exchange_def split: prod.splits sum.splits option.splits)

lemma owner_ops_preserve:
  assumes "\<And>P f. preserves I (update_owners P f)"
  shows "preserves I (Owners_UpdateStatus ow status now)" "preserves I (Owners_SoftDelete ow now)"
  unfolding Owners_UpdateStatus_def Owners_SoftDelete_def requireAffected_def
  by (intro preserves_attempt preserves_if preserves_return assms)+

lemma step_inv:
  assumes "token_step J S signer op x = (r, x')" and "creds_inv U (data (fst x))"
    and "set (draws_of op) \<inter> U = {}"
  shows "creds_inv (U \<union> set (draws_of op)) (data (fst x'))"
proof (cases op)
  case (Op_Issue ow scopes label now rnd)
  then show ?thesis using step_data [OF assms(1)] assms(2,3) run_hoare [OF Issue_inv] by simp
next
  case (Op_Exchange cancelled presented now rnd)
  have "creds_inv U d \<Longrightarrow> creds_inv (U \<union> {drawn rnd}) d" for d by (auto simp: creds_inv_def ids_in_def)
  then show ?thesis
    using Op_Exchange step_data [OF assms(1)] assms(2) run_hoare [OF exchange_inv]
    by (auto split: sum.splits prod.splits)
next
  case (Op_Revoke ow i now)
  then show ?thesis using step_data [OF assms(1)] assms(2) preservesD [OF Revoke_inv] by simp
next
  case (Op_DeleteExpired cutoff limit)
  then show ?thesis using step_data [OF assms(1)] assms(2) preservesD [OF DeleteExpired_inv] by simp
next
  case (Op_UpdateStatus ow status now)
  then show ?thesis
    using step_data [OF assms(1)] assms(2) preservesD [OF owner_ops_preserve(1) [OF creds_inv_owners]] by simp
next
  case (Op_SoftDelete ow now)
  then show ?thesis
    using step_data [OF assms(1)] assms(2) preservesD [OF owner_ops_preserve(2) [OF creds_inv_owners]] by simp
qed

lemma step_spent:
  assumes "token_step J S signer op x = (r, x')" and "cred_spent i (data (fst x))" and "i \<notin> set (draws_of op)"
  shows "cred_spent i (data (fst x'))"
proof (cases op)
  case (Op_Issue ow scopes label now rnd)
  then show ?thesis using step_data [OF assms(1)] assms(2,3) preservesD [OF Issue_spent] by simp
next
  case (Op_Exchange cancelled presented now rnd)
  then show ?thesis
    using step_data [OF assms(1)] assms(2,3) preservesD [OF preserves_WithTx [OF exchange_preserves_spent]]
    by (auto split: sum.splits prod.splits)
next
  case (Op_Revoke ow i now)
  then show ?thesis using step_data [OF assms(1)] assms(2) preservesD [OF Revoke_preserves(2)] by simp
next
  case (Op_DeleteExpired cutoff limit)
  then show ?thesis using step_data [OF assms(1)] assms(2) preservesD [OF DeleteExpired_preserves(2)] by simp
next
  case (Op_UpdateStatus ow status now)
  then show ?thesis
    using step_data [OF assms(1)] assms(2) preservesD [OF owner_ops_preserve(1) [OF cred_spent_owners]] by simp
next
  case (Op_SoftDelete ow now)
  then show ?thesis
    using step_data [OF assms(1)] assms(2) preservesD [OF owner_ops_preserve(2) [OF cred_spent_owners]] by simp
qed

text \<open>A step redeems a credential if it exchanges a token that names it and hands out a successor.\<close>

definition redeems :: "RefreshCredentialID \<Rightarrow> token_op \<times> Issued option \<Rightarrow> bool" where
  "redeems cid = (\<lambda>(op, r).
     (case op of
        Op_Exchange _ presented _ _ \<Rightarrow> (\<exists>secret. parseRefreshToken presented = Inr (cid, secret)) \<and> r \<noteq> None
      | _ \<Rightarrow> False))"

lemma redeems_cases:
  assumes "redeems cid (op, r)" and "token_step J S signer op x = (r, x')"
  obtains cancelled presented now rnd secret iss rv where "op = Op_Exchange cancelled presented now rnd"
    "r = Some iss" "parseRefreshToken presented = Inr (cid, secret)"
    "run_state (WithTx (exchange_tx J signer cid secret now rnd)) (fst x) = (Inr (Some iss, rv), fst x')"
  using assms
  by (cases op; cases x)
    (auto simp: redeems_def TokenService_Exchange_def handed_def split: prod.splits sum.splits option.splits)

lemma redeems_unspent:
  assumes "redeems cid (op, r)" and "token_step J S signer op x = (r, x')"
  shows "\<not> cred_spent cid (data (fst x))"
  using assms by (rule redeems_cases) (use hoareD [OF exchange_tx_spent] in blast)

lemma redeems_spends:
  assumes "redeems cid (op, r)" and "token_step J S signer op x = (r, x')" and "creds_inv U (data (fst x))"
  shows "cred_spent cid (data (fst x')) \<and> cid \<in> U"
  using assms(1,2)
proof (rule redeems_cases)
  fix cancelled presented now rnd secret iss rv
  assume run: "run_state (WithTx (exchange_tx J signer cid secret now rnd)) (fst x) = (Inr (Some iss, rv), fst x')"
  have "exchanged J signer cid secret now rnd iss (data (fst x)) (data (fst x'))"
    using hoareD [OF exchange_tx_wins _ run, of "data (fst x)"] assms(3) by (simp add: creds_inv_def)
  then show ?thesis
    using assms(3) by (auto simp: exchanged_def rotated_to_def creds_inv_def ids_in_def)
qed

lemma spent_not_redeemed:
  assumes "token_run J S signer hist x = (log, x')" and "cred_spent cid (data (fst x))"
    and "cid \<notin> set (concat (map draws_of hist))"
  shows "filter (redeems cid) log = []"
  using assms
proof (induction hist arbitrary: x log x')
  case (Cons op hist)
  obtain r x1 where step: "token_step J S signer op x = (r, x1)" by (cases "token_step J S signer op x")
  obtain log1 x2 where rest: "token_run J S signer hist x1 = (log1, x2)" by (cases "token_run J S signer hist x1")
  have "cred_spent cid (data (fst x1))" using step_spent [OF step] Cons.prems by simp
  then have "filter (redeems cid) log1 = []" using Cons.IH [OF rest] Cons.prems by simp
  then show ?case using Cons.prems(1,2) redeems_unspent [OF _ step] step rest by auto
qed simp

lemma run_inv:
  assumes "token_run J S signer hist x = (log, x')" and "creds_inv U (data (fst x))" and "fresh_draws U hist"
  shows "\<exists>V. creds_inv V (data (fst x'))"
  using assms
proof (induction hist arbitrary: x log U)
  case Nil
  then show ?case by auto
next
  case (Cons op hist)
  obtain r x1 where step: "token_step J S signer op x = (r, x1)" by (cases "token_step J S signer op x")
  obtain log1 x2 where rest: "token_run J S signer hist x1 = (log1, x2)" by (cases "token_run J S signer hist x1")
  have "creds_inv (U \<union> set (draws_of op)) (data (fst x1))"
    using step_inv [OF step] Cons.prems by (simp add: fresh_draws_Cons)
  then show ?case using Cons.IH [of x1 log1] rest step Cons.prems by (simp add: fresh_draws_Cons)
qed

section \<open>Exchanges on a working database\<close>

definition mark_rotated :: "RefreshCredential \<Rightarrow> db \<Rightarrow> db" where
  "mark_rotated cred d = d\<lparr>refresh_credentials := update_where
     (\<lambda>r. rcID r = rcID cred \<and> rcOwnerID r = rcOwnerID cred \<and> rcStatus r = CredentialStatusActive)
     (\<lambda>r. r\<lparr>rcStatus := CredentialStatusRotated\<rparr>) (refresh_credentials d)\<rparr>"

lemma MarkRotated_ok:
  assumes "faults s = []" and "cred \<in> set (refresh_credentials (data s))" and "rcStatus cred = CredentialStatusActive"
  shows "run_state (RefreshCredentials_MarkRotated (rcOwnerID cred) (rcID cred) now) s =
    (Inr (), s\<lparr>data := mark_rotated cred (data s)\<rparr>)"
proof -
  have "0 < count_where (\<lambda>r. rcID r = rcID cred \<and> rcOwnerID r = rcOwnerID cred \<and> rcStatus r = CredentialStatusActive)
      (refresh_credentials (data s))"
    using assms(2,3) count_where_pos by blast
  then show ?thesis
    using assms(1) by (simp add: RefreshCredentials_MarkRotated_def RefreshCredentials_classifyConditional_def
        update_creds_def working mark_rotated_def)
qed

lemma mint_ok:
  assumes "rcOwnerID cred \<noteq> []" "rcID cred \<noteq> []" "RawURL_Encode jti \<noteq> []" "ValidateScopes (rcScopes cred) = Inr ()"
  shows "\<exists>iss. mint J signer cred secret jti now = Inr iss"
  using assms by (simp add: mint_def AccessToken_Issue_def access_of_def AccessTokenLifetime_def Let_def)

lemma RawURL_Encode_nonempty: "bs \<noteq> [] \<Longrightarrow> RawURL_Encode bs \<noteq> []"
  using length_RawURL_Encode [of bs] by (cases bs) auto

definition presentable ::
  "RefreshCredential \<Rightarrow> bytes \<Rightarrow> db \<Rightarrow> bool" where
  "presentable cred secret d \<longleftrightarrow>
     creds_wf d \<and> cred \<in> set (refresh_credentials d) \<and> secretMatches (rcSecretHash cred) secret
     \<and> rcOwnerID cred \<noteq> [] \<and> rcLineageID cred \<noteq> []
     \<and> (\<exists>ow. find (\<lambda>r. oID r = rcOwnerID cred) (owners d) = Some ow \<and> owner_usable ow cred)"

lemma GetByID_ok:
  assumes "faults s = []" and "creds_wf (data s)" and "cred \<in> set (refresh_credentials (data s))"
  shows "run_state (RefreshCredentials_GetByID (rcID cred)) s = (Inr cred, s)"
proof -
  have "find (\<lambda>r. rcID r = rcID cred) (refresh_credentials (data s)) = Some cred"
    using assms(2,3) by (intro find_key [of rcID]) (auto simp: creds_wf_def)
  then show ?thesis using assms(1) by (simp add: RefreshCredentials_GetByID_def working found_def)
qed

lemma exchange_tx_reaches:
  assumes "faults s = []" and "presentable cred secret (data s)"
  shows "run_state (exchange_tx J signer (rcID cred) secret now rnd) s =
    (if rcStatus cred \<noteq> CredentialStatusActive
     then run_state (attempt (revokeLineage cred now) (\<lambda>revoked. ret (None, revoked))) s
     else if \<not> now < rcExpiresAt cred then (Inr (None, []), s)
     else if ValidateScopes (rcScopes cred) \<noteq> Inr () then (Inr (None, []), s)
     else run_state (rotate J signer cred now rnd) s)"
proof -
  obtain ow where ow: "find (\<lambda>r. oID r = rcOwnerID cred) (owners (data s)) = Some ow" "owner_usable ow cred"
    using assms(2) by (auto simp: presentable_def)
  have "run_state (Owners_Get (rcOwnerID cred)) s = (Inr ow, s)"
    using assms(1) ow(1) by (simp add: Owners_Get_def working found_def)
  then show ?thesis
    using assms ow(2) GetByID_ok [OF assms(1), of cred]
    by (simp add: exchange_tx_def exchange_cred_def presentable_def)
qed

lemma rotate_ok:
  assumes "faults s = []" and "creds_wf (data s)" and "cred \<in> set (refresh_credentials (data s))"
    and "rcStatus cred = CredentialStatusActive" and "rcOwnerID cred \<noteq> []" and "owner_exists (rcOwnerID cred) (data s)"
    and "ValidateScopes (rcScopes cred) = Inr ()" and "drawn rnd \<notin> rcID ` set (refresh_credentials (data s))"
    and "rndID rnd \<noteq> []" "rndJTI rnd \<noteq> []"
  shows "\<exists>iss. mint J signer (successor cred now rnd) (rndSecret rnd) (rndJTI rnd) now = Inr iss \<and>
    run_state (rotate J signer cred now rnd) s = (Inr (Some iss, []),
      s\<lparr>data := (data s)\<lparr>refresh_credentials := refresh_credentials (mark_rotated cred (data s)) @ [successor cred now rnd]\<rparr>\<rparr>)"
proof -
  have "\<exists>iss. mint J signer (successor cred now rnd) (rndSecret rnd) (rndJTI rnd) now = Inr iss"
    by (rule mint_ok) (use assms(5,7,9,10) in \<open>simp_all add: successor_def newCredentialID_def RawURL_Encode_nonempty\<close>)
  then obtain iss where iss: "mint J signer (successor cred now rnd) (rndSecret rnd) (rndJTI rnd) now = Inr iss" ..
  have fresh: "\<not> list_ex (\<lambda>r. rcID r = rcID (successor cred now rnd)) (refresh_credentials (mark_rotated cred (data s)))"
    using assms(8) by (auto simp: list_ex_iff mark_rotated_def successor_def drawn_def image_iff)
  have own: "owner_exists (rcOwnerID (successor cred now rnd)) (mark_rotated cred (data s))"
    using assms(6) by (simp add: successor_def mark_rotated_def owner_exists_def)
  have "run_state (rotate J signer cred now rnd) s = (Inr (Some iss, []),
      s\<lparr>data := (mark_rotated cred (data s))\<lparr>refresh_credentials := refresh_credentials (mark_rotated cred (data s)) @ [successor cred now rnd]\<rparr>\<rparr>)"
    using assms(1) fresh own iss MarkRotated_ok [OF assms(1,3,4)]
    by (simp add: rotate_def RefreshCredentials_Create_def working Let_def)
  then show ?thesis using iss by (simp add: mark_rotated_def)
qed

lemma revokeLineage_ok:
  assumes "faults s = []"
  shows "run_state (revokeLineage cred now) s =
    (let d = (data s)\<lparr>refresh_credentials := update_where
           (\<lambda>r. rcOwnerID r = rcOwnerID cred \<and> rcLineageID r = rcLineageID cred \<and> rcStatus r \<noteq> CredentialStatusRevoked)
           (\<lambda>r. r\<lparr>rcStatus := CredentialStatusRevoked, rcRevokedAt := Some now\<rparr>) (refresh_credentials (data s))\<rparr>
     in (Inr (sort_key rcID (filter (\<lambda>r. rcOwnerID r = rcOwnerID cred \<and> rcLineageID r = rcLineageID cred)
           (refresh_credentials d))), s\<lparr>data := d\<rparr>))"
  using assms
  by (simp add: revokeLineage_def RefreshCredentials_RevokeLineage_def RefreshCredentials_ListByLineage_def
      update_creds_def working Let_def)

section \<open>The denylist covers the access tokens\<close>

text \<open>
  An entry of the denylist fits a credential if it outlives the access token the credential was issued
  with. An entry made after the credential was issued fits; an increment does not move its end.
\<close>

definition fits :: "time \<Rightarrow> RefreshCredential \<Rightarrow> Count \<Rightarrow> bool" where
  "fits now c n \<longleftrightarrow> TTL n \<le> 0 \<or> rcIssuedAt c + AccessTokenLifetime \<le> now + TTL n"

definition denies :: "time \<Rightarrow> RefreshCredential \<Rightarrow> Count \<Rightarrow> bool" where
  "denies now c n \<longleftrightarrow> 0 < Value n \<and> 0 < TTL n \<and> rcIssuedAt c + AccessTokenLifetime \<le> now + TTL n"

lemma credentialKey_nonempty: "credentialKey i \<noteq> []"
  unfolding credentialKey_def by (rule RawURL_Encode_nonempty) (simp add: length_Sum256 flip: length_greater_0_conv)

context counter_port
begin

lemma RevokeCredential_denies:
  assumes "invar st" and "i \<noteq> []" and "0 \<le> Value (count st now (credentialKey i))"
    and "Value (count st now (credentialKey i)) + 1 < 2 ^ 63"
  shows "\<exists>st'. Denylist_RevokeCredential S False now i st = (Inr (), st') \<and> invar st'
    \<and> (\<forall>k. 0 \<le> Value (count st now k) \<longrightarrow> Value (count st' now k) \<le> Value (count st now k) + 1
        \<and> Value (count st now k) \<le> Value (count st' now k)
        \<and> (TTL (count st' now k) = TTL (count st now k)
            \<or> k = credentialKey i \<and> TTL (count st now k) \<le> 0 \<and> TTL (count st' now k) = denylistEntryTTL))
    \<and> 0 < Value (count st' now (credentialKey i)) \<and> 0 < TTL (count st' now (credentialKey i))"
proof -
  let ?k = "credentialKey i"
  have ttl: "0 < denylistEntryTTL" by (simp add: denylistEntryTTL_def AccessTokenLifetime_def DenylistSkew_def)
  obtain c st' where inc: "sIncrement S False now ?k 1 denylistEntryTTL st = (Inr c, st')" "invar st'"
      "Value c = wrap64 (Value (count st now ?k) + 1)"
      "TTL c = (if TTL (count st now ?k) \<le> 0 then denylistEntryTTL else TTL (count st now ?k))"
      "count st' now ?k = c" "\<And>k. k \<noteq> ?k \<Longrightarrow> count st' now k = count st now k"
    using increment [OF assms(1) credentialKey_nonempty _ ttl, of 1 now i] by auto
  have "Value c = Value (count st now ?k) + 1" using inc(3) assms(3,4) by (simp add: wrap64_id)
  moreover have "Value (count st' now k) \<le> Value (count st now k) + 1 \<and> Value (count st now k) \<le> Value (count st' now k)
      \<and> (TTL (count st' now k) = TTL (count st now k)
          \<or> k = ?k \<and> TTL (count st now k) \<le> 0 \<and> TTL (count st' now k) = denylistEntryTTL)" for k
    using inc(4-6) calculation by (cases "k = ?k") auto
  ultimately show ?thesis
    using inc assms(2,3) ttl by (intro exI [of _ st']) (auto simp: Denylist_RevokeCredential_def)
qed

lemma RevokeLineage_denies:
  assumes "invar st" and "\<forall>c \<in> set cs. rcID c \<noteq> []"
    and "\<forall>k. 0 \<le> Value (count st now k) \<and> Value (count st now k) \<le> B" and "B + int (length cs) < 2 ^ 63"
    and "\<forall>c \<in> A. rcIssuedAt c \<le> now \<and> fits now c (count st now (credentialKey (rcID c)))" and "set cs \<subseteq> A"
  shows "\<exists>st'. Denylist_RevokeLineage S False now cs st = (Inr (), st') \<and> invar st'
    \<and> (\<forall>c \<in> A. denies now c (count st now (credentialKey (rcID c))) \<longrightarrow>
          denies now c (count st' now (credentialKey (rcID c))))
    \<and> (\<forall>c \<in> set cs. now - denylistEntryTTL < rcIssuedAt c \<longrightarrow>
          denies now c (count st' now (credentialKey (rcID c))))"
  using assms
proof (induction cs arbitrary: st B)
  case Nil
  then show ?case by simp
next
  case (Cons c cs)
  have A: "c \<in> A" "set cs \<subseteq> A" and ids: "rcID c \<noteq> []" "\<forall>c \<in> set cs. rcID c \<noteq> []"
    and B: "B + 1 + int (length cs) < 2 ^ 63"
    using Cons.prems(2,4,6) by simp_all
  show ?case
  proof (cases "now - denylistEntryTTL < rcIssuedAt c")
    case False
    then show ?thesis using Cons.IH [OF Cons.prems(1) ids(2) Cons.prems(3) _ Cons.prems(5) A(2)] B by simp
  next
    case True
    obtain st1 where st1: "Denylist_RevokeCredential S False now (rcID c) st = (Inr (), st1)" "invar st1"
      and later: "\<And>k. Value (count st1 now k) \<le> Value (count st now k) + 1
        \<and> Value (count st now k) \<le> Value (count st1 now k)
        \<and> (TTL (count st1 now k) = TTL (count st now k)
            \<or> k = credentialKey (rcID c) \<and> TTL (count st now k) \<le> 0 \<and> TTL (count st1 now k) = denylistEntryTTL)"
      and listed: "0 < Value (count st1 now (credentialKey (rcID c)))" "0 < TTL (count st1 now (credentialKey (rcID c)))"
    proof -
      have v: "0 \<le> Value (count st now k)" "Value (count st now k) \<le> B" for k using Cons.prems(3) by simp_all
      then have "Value (count st now (credentialKey (rcID c))) + 1 < 2 ^ 63"
        using B v(2) [of "credentialKey (rcID c)"] by linarith
      then show ?thesis using RevokeCredential_denies [OF Cons.prems(1) ids(1) v(1)] v(1) that by blast
    qed
    have long: "rcIssuedAt c' + AccessTokenLifetime \<le> now + denylistEntryTTL" if "c' \<in> A" for c'
      using that Cons.prems(5) by (auto simp: denylistEntryTTL_def DenylistSkew_def)
    have fit: "rcIssuedAt c' \<le> now \<and> fits now c' (count st1 now (credentialKey (rcID c')))" if "c' \<in> A" for c'
      using that Cons.prems(5) later [of "credentialKey (rcID c')"] long [OF that] by (auto simp: fits_def)
    have keep: "denies now c' (count st1 now (credentialKey (rcID c')))"
      if "denies now c' (count st now (credentialKey (rcID c')))" for c'
      using that later [of "credentialKey (rcID c')"] by (auto simp: denies_def)
    have new: "denies now c (count st1 now (credentialKey (rcID c)))"
      using listed fit [OF A(1)] by (auto simp: denies_def fits_def)
    have bound: "\<forall>k. 0 \<le> Value (count st1 now k) \<and> Value (count st1 now k) \<le> B + 1"
      using later Cons.prems(3) by (meson add_mono_thms_linordered_semiring(3) order_trans)
    obtain st' where st': "Denylist_RevokeLineage S False now cs st1 = (Inr (), st')" "invar st'"
      "\<forall>c \<in> A. denies now c (count st1 now (credentialKey (rcID c))) \<longrightarrow>
          denies now c (count st' now (credentialKey (rcID c)))"
      "\<forall>c \<in> set cs. now - denylistEntryTTL < rcIssuedAt c \<longrightarrow>
          denies now c (count st' now (credentialKey (rcID c)))"
      using Cons.IH [OF st1(2) ids(2) bound B _ A(2)] fit by blast
    then show ?thesis using st1(1) True keep new A(1) ids(1) by auto
  qed
qed

lemma denies_verify:
  assumes "invar st" and "now \<le> t" and "AccessToken_Verify J signer raw t = Inr tok" and "rcID c \<noteq> []"
    and "atRefreshCredentialID tok = rcID c" and "atExpiresAt tok \<le> rcIssuedAt c + AccessTokenLifetime"
    and "denies now c (count st now (credentialKey (rcID c)))"
  shows "fst (TokenService_Verify J S signer False raw t st) = Inl ErrAuthFailed"
proof -
  have "t < atExpiresAt tok" using AccessToken_Verify_Inr [OF assms(3)] by blast
  then have "t - now < TTL (count st now (credentialKey (rcID c)))" using assms(6,7) by (simp add: denies_def)
  then have "0 < Value (count st t (credentialKey (rcID c)))"
    using count_later [OF assms(2)] assms(7) by (simp add: denies_def)
  then show ?thesis
    using assms(3-5) get [OF assms(1) credentialKey_nonempty]
    by (simp add: TokenService_Verify_def Denylist_Check_def)
qed

end

lemma exchange_ok:
  assumes "faults s = []" and "parseRefreshToken presented = Inr (rcID cred, secret)"
    and "presentable cred secret (data s)" and "rcStatus cred = CredentialStatusActive"
    and "now < rcExpiresAt cred" and "ValidateScopes (rcScopes cred) = Inr ()"
    and "drawn rnd \<notin> rcID ` set (refresh_credentials (data s))" and "rndID rnd \<noteq> []" and "rndJTI rnd \<noteq> []"
  shows "\<exists>iss. TokenService_Exchange J S signer cancelled presented now rnd (s, st) = (Inr iss,
      (s\<lparr>data := (data s)\<lparr>refresh_credentials :=
          refresh_credentials (mark_rotated cred (data s)) @ [successor cred now rnd]\<rparr>\<rparr>, st))
    \<and> iRefreshToken iss = formatRefreshToken (drawn rnd) (rndSecret rnd) \<and> iRefreshExpiresAt iss = rcExpiresAt cred
    \<and> AccessToken_Issue J signer (access_of (successor cred now rnd) (rndJTI rnd) now) = Inr (iAccessToken iss)"
proof -
  have own: "owner_exists (rcOwnerID cred) (data s)" and pres: "creds_wf (data s)" "cred \<in> set (refresh_credentials (data s))"
    "rcOwnerID cred \<noteq> []"
    using assms(3) by (auto simp: presentable_def owner_exists_def list_ex_iff find_Some_iff)
  obtain iss where iss: "mint J signer (successor cred now rnd) (rndSecret rnd) (rndJTI rnd) now = Inr iss"
    "run_state (rotate J signer cred now rnd) s = (Inr (Some iss, []),
      s\<lparr>data := (data s)\<lparr>refresh_credentials := refresh_credentials (mark_rotated cred (data s)) @ [successor cred now rnd]\<rparr>\<rparr>)"
    using rotate_ok [OF assms(1) pres(1,2) assms(4) pres(3) own assms(6-9)] by blast
  have "run_state (WithTx (exchange_tx J signer (rcID cred) secret now rnd)) s = (Inr (Some iss, []),
      s\<lparr>data := (data s)\<lparr>refresh_credentials := refresh_credentials (mark_rotated cred (data s)) @ [successor cred now rnd]\<rparr>\<rparr>)"
    using exchange_tx_reaches [OF assms(1,3)] assms(1,4-6) iss(2) by (simp add: working)
  then show ?thesis
    using assms(2) mint_Inr [OF iss(1)]
    by (simp add: TokenService_Exchange_def denyRevoked_def successor_def drawn_def)
qed

section \<open>A sample credential\<close>

lemma RawURL_Encode_inject: "RawURL_Encode a = RawURL_Encode b \<longleftrightarrow> a = b"
  by (metis RawURL_Decode_Encode option.inject)

definition sample_owner :: Owner where
  "sample_owner = \<lparr>oID = ''alice'', oStatus = OwnerStatusActive, oCreatedAt = 0, oUpdatedAt = 0, oDeletedAt = None\<rparr>"

definition sample_draws :: "char \<Rightarrow> draws" where
  "sample_draws c = \<lparr>rndID = replicate 16 c, rndSecret = replicate 32 c, rndJTI = replicate 16 c\<rparr>"

definition sample_cred :: RefreshCredential where
  "sample_cred = first_credential ''alice'' [full_owner] ''laptop'' 0 (sample_draws CHR ''a'')"

definition sample_session :: "RefreshCredential list \<Rightarrow> session" where
  "sample_session rows = \<lparr>data = empty_db\<lparr>owners := [sample_owner], refresh_credentials := rows\<rparr>, faults = []\<rparr>"

lemma sample_drawn: "drawn (sample_draws c) = drawn (sample_draws c') \<longleftrightarrow> c = c'"
  by (simp add: drawn_def newCredentialID_def sample_draws_def RawURL_Encode_inject)

lemma sample_parse:
  "parseRefreshToken (formatRefreshToken (rcID sample_cred) (replicate 32 CHR ''a'')) =
     Inr (rcID sample_cred, replicate 32 CHR ''a'')"
  using refresh.parse_fmt [of "replicate 16 CHR ''a''" "replicate 32 CHR ''a''"]
  by (simp add: sample_cred_def first_credential_def sample_draws_def newCredentialID_def credentialIDBytes_def)

lemma sample_id: "rcID sample_cred = drawn (sample_draws CHR ''a'')" "rcLineageID sample_cred = drawn (sample_draws CHR ''a'')"
  "drawn (sample_draws c) \<noteq> []"
  by (simp_all add: sample_cred_def first_credential_def drawn_def newCredentialID_def sample_draws_def
      RawURL_Encode_nonempty)

lemma sample_fields: "rcOwnerID sample_cred = ''alice''" "rcScopes sample_cred = [full_owner]"
  "rcStatus sample_cred = CredentialStatusActive" "rcExpiresAt sample_cred = RefreshLineageLifetime"
  "rcIssuedAt sample_cred = 0" "rcSecretHash sample_cred = hashRefreshSecret (replicate 32 CHR ''a'')"
  by (simp_all add: sample_cred_def first_credential_def sample_draws_def)

lemma sample_presentable: "presentable sample_cred (replicate 32 CHR ''a'') (data (sample_session [sample_cred]))"
  by (simp add: presentable_def sample_session_def empty_db_def creds_wf_def kin_def secretMatches_def sample_fields
      sample_id sample_owner_def owner_usable_def)

lemma sample_exchangeable:
  "faults (sample_session rows) = []" "rcStatus sample_cred = CredentialStatusActive" "1 < rcExpiresAt sample_cred"
  "ValidateScopes (rcScopes sample_cred) = Inr ()"
  "drawn (sample_draws CHR ''b'') \<notin> rcID ` set (refresh_credentials (data (sample_session [sample_cred])))"
  "rndID (sample_draws c) \<noteq> []" "rndJTI (sample_draws c) \<noteq> []"
  by (simp_all add: sample_fields RefreshLineageLifetime_def scope_set_cases sample_session_def empty_db_def sample_id
      sample_drawn) (simp_all add: sample_draws_def)

section \<open>Properties\<close>

text \<open>
  C12: a refresh credential is redeemed at most once. In every history of issuing, exchanging, revoking,
  sweeping and changes to owners, in any order and whatever statements fail, at most one exchange of a
  token for a given credential hands out a successor, provided no identifier is drawn twice.
\<close>

theorem refresh_credential_single_use:
  assumes "creds_inv U (data (fst x))" and "fresh_draws U hist"
    and "token_run J S signer hist x = (log, x')"
  shows "length (filter (redeems cid) log) \<le> 1"
  using assms
proof (induction hist arbitrary: x log x' U)
  case (Cons op hist)
  obtain r x1 where step: "token_step J S signer op x = (r, x1)" by (cases "token_step J S signer op x")
  obtain log1 x2 where rest: "token_run J S signer hist x1 = (log1, x2)" by (cases "token_run J S signer hist x1")
  have log: "log = (op, r) # log1" using Cons.prems(3) step rest by simp
  have inv: "creds_inv (U \<union> set (draws_of op)) (data (fst x1))" "fresh_draws (U \<union> set (draws_of op)) hist"
    using step_inv [OF step] Cons.prems by (simp_all add: fresh_draws_Cons)
  show ?case
  proof (cases "redeems cid (op, r)")
    case True
    then have "cred_spent cid (data (fst x1))" "cid \<in> U" using redeems_spends [OF _ step] Cons.prems(1) by auto
    moreover have "cid \<notin> set (concat (map draws_of hist))" using \<open>cid \<in> U\<close> inv(2) by (auto simp: fresh_draws_def)
    ultimately show ?thesis using spent_not_redeemed [OF rest] log by simp
  next
    case False
    then show ?thesis using Cons.IH [OF inv rest] log by simp
  qed
qed simp

definition sample_start :: "session \<times> MemoryStore" where
  "sample_start = (\<lparr>data = empty_db\<lparr>owners := [sample_owner]\<rparr>, faults = []\<rparr>, NewMemoryStore)"

definition sample_history :: "token_op list" where
  "sample_history =
     [Op_Issue ''alice'' [full_owner] ''laptop'' 0 (sample_draws CHR ''a''),
      Op_Exchange False (formatRefreshToken (newCredentialID (replicate 16 CHR ''a'')) (replicate 32 CHR ''a''))
        1 (sample_draws CHR ''b''),
      Op_Exchange False (formatRefreshToken (newCredentialID (replicate 16 CHR ''a'')) (replicate 32 CHR ''a''))
        2 (sample_draws CHR ''c'')]"

lemma sample_fresh: "creds_inv {} (data (fst sample_start))" "fresh_draws {} sample_history"
proof -
  show "creds_inv {} (data (fst sample_start))"
    by (simp add: creds_inv_def creds_wf_def ids_in_def sample_start_def empty_db_def)
  show "fresh_draws {} sample_history" by (simp add: fresh_draws_def sample_history_def sample_drawn)
qed

theorem refresh_credential_single_use_witness:
  "length (filter (redeems (newCredentialID (replicate 16 CHR ''a'')))
     (fst (token_run sample_json MemoryStore_ops \<lparr>asKey = replicate 32 CHR ''k''\<rparr> sample_history sample_start))) \<le> 1"
  by (rule refresh_credential_single_use [OF sample_fresh]) (rule prod.collapse [symmetric])

text \<open>
  C13: in every history a lineage has at most one active credential, and all its credentials have the
  owner, the scopes and the expiry it started with: rotation neither moves a lineage to another owner,
  nor widens it, nor prolongs it.
\<close>

theorem lineage_single_active:
  assumes "creds_inv U (data (fst x))" and "fresh_draws U hist"
    and "token_run J S signer hist x = (log, x')"
    and "c \<in> set (refresh_credentials (data (fst x')))" and "c' \<in> set (refresh_credentials (data (fst x')))"
    and "rcLineageID c = rcLineageID c'"
  shows "rcOwnerID c = rcOwnerID c' \<and> rcScopes c = rcScopes c' \<and> rcExpiresAt c = rcExpiresAt c'
    \<and> (rcStatus c = CredentialStatusActive \<and> rcStatus c' = CredentialStatusActive \<longrightarrow> c = c')"
proof -
  obtain V where "creds_inv V (data (fst x'))" using run_inv [OF assms(3,1,2)] by blast
  then have "kin c c'" using assms(4,5) by (simp add: creds_inv_def creds_wf_def)
  then show ?thesis using assms(6) by (simp add: kin_def)
qed

text \<open>
  After one exchange the lineage of the sample credential has two members; they agree, and not both are active.
\<close>

theorem lineage_single_active_witness:
  "\<exists>log x' old new.
     token_run sample_json MemoryStore_ops \<lparr>asKey = replicate 32 CHR ''k''\<rparr>
       [Op_Exchange False (formatRefreshToken (rcID sample_cred) (replicate 32 CHR ''a'')) 1 (sample_draws CHR ''b'')]
       (sample_session [sample_cred], NewMemoryStore) = (log, x')
   \<and> refresh_credentials (data (fst x')) = [old, new] \<and> rcID old \<noteq> rcID new
   \<and> rcLineageID old = rcLineageID new \<and> rcOwnerID old = rcOwnerID new \<and> rcScopes old = rcScopes new
   \<and> rcExpiresAt old = rcExpiresAt new
   \<and> rcStatus new = CredentialStatusActive \<and> rcStatus old \<noteq> CredentialStatusActive"
proof -
  let ?hist = "[Op_Exchange False (formatRefreshToken (rcID sample_cred) (replicate 32 CHR ''a'')) 1 (sample_draws CHR ''b'')]"
  let ?x = "(sample_session [sample_cred], NewMemoryStore)"
  let ?old = "sample_cred\<lparr>rcStatus := CredentialStatusRotated\<rparr>" and ?new = "successor sample_cred 1 (sample_draws CHR ''b'')"
  obtain log x' where run: "token_run sample_json MemoryStore_ops \<lparr>asKey = replicate 32 CHR ''k''\<rparr> ?hist ?x = (log, x')"
    and rows: "refresh_credentials (data (fst x')) = [?old, ?new]"
    using exchange_ok [OF _ sample_parse sample_presentable, of 1 "sample_draws CHR ''b''"
        sample_json MemoryStore_ops "\<lparr>asKey = replicate 32 CHR ''k''\<rparr>" False NewMemoryStore] sample_exchangeable
    by (fastforce simp: mark_rotated_def sample_session_def)
  have "creds_inv {drawn (sample_draws CHR ''a'')} (data (fst ?x))"
    by (simp add: creds_inv_def creds_wf_def ids_in_def kin_def sample_session_def empty_db_def sample_id)
  moreover have "fresh_draws {drawn (sample_draws CHR ''a'')} ?hist" by (simp add: fresh_draws_def sample_drawn)
  moreover have lin: "rcLineageID ?old = rcLineageID ?new" by (simp add: successor_def)
  ultimately have kin: "rcOwnerID ?old = rcOwnerID ?new \<and> rcScopes ?old = rcScopes ?new \<and> rcExpiresAt ?old = rcExpiresAt ?new
      \<and> (rcStatus ?old = CredentialStatusActive \<and> rcStatus ?new = CredentialStatusActive \<longrightarrow> ?old = ?new)"
    using rows by (intro lineage_single_active [OF _ _ run, of "{drawn (sample_draws CHR ''a'')}"]) simp_all
  have ids: "rcID ?old \<noteq> rcID ?new" using sample_drawn [of "CHR ''a''" "CHR ''b''"]
    by (simp add: successor_def sample_id flip: drawn_def)
  moreover have "rcStatus ?new = CredentialStatusActive" by (simp add: successor_def)
  moreover from this have "rcStatus ?old \<noteq> CredentialStatusActive" using kin ids by metis
  ultimately show ?thesis using run rows lin kin by metis
qed

text \<open>
  C15: a valid token is exchanged. On a working database, presenting the token of an active unexpired
  credential of a usable owner hands out a successor: the credential becomes rotated and every other row
  stays as it is, one active credential of the same lineage, owner, scopes, label and expiry is added under
  the new identifier and with the hash of the new secret, the new refresh token names it and expires with
  the lineage, and the access token is issued for it, its owner and its scopes from now on for the
  lifetime of an access token.
\<close>

theorem exchange_succeeds:
  assumes "faults s = []" and "parseRefreshToken presented = Inr (rcID cred, secret)"
    and "presentable cred secret (data s)" and "rcStatus cred = CredentialStatusActive"
    and "now < rcExpiresAt cred" and "ValidateScopes (rcScopes cred) = Inr ()"
    and "drawn rnd \<notin> rcID ` set (refresh_credentials (data s))" and "rndID rnd \<noteq> []" and "rndJTI rnd \<noteq> []"
  shows "\<exists>iss new. TokenService_Exchange J S signer cancelled presented now rnd (s, st) = (Inr iss,
      (s\<lparr>data := (data s)\<lparr>refresh_credentials :=
          map (\<lambda>c. if c = cred then cred\<lparr>rcStatus := CredentialStatusRotated\<rparr> else c) (refresh_credentials (data s))
            @ [new]\<rparr>\<rparr>, st))
    \<and> rcID new = drawn rnd \<and> rcSecretHash new = hashRefreshSecret (rndSecret rnd)
    \<and> rcLineageID new = rcLineageID cred \<and> rcOwnerID new = rcOwnerID cred \<and> rcScopes new = rcScopes cred
    \<and> rcClientLabel new = rcClientLabel cred \<and> rcExpiresAt new = rcExpiresAt cred
    \<and> rcRotatedFromID new = Some (rcID cred) \<and> rcIssuedAt new = now
    \<and> rcStatus new = CredentialStatusActive \<and> rcRevokedAt new = None
    \<and> iRefreshToken iss = formatRefreshToken (rcID new) (rndSecret rnd) \<and> iRefreshExpiresAt iss = rcExpiresAt cred
    \<and> AccessToken_Issue J signer
        \<lparr>atID = RawURL_Encode (rndJTI rnd), atOwnerID = rcOwnerID cred, atRefreshCredentialID = rcID new,
         atScopes = rcScopes cred, atIssuedAt = now, atExpiresAt = now + AccessTokenLifetime\<rparr> = Inr (iAccessToken iss)"
proof -
  obtain iss where iss: "TokenService_Exchange J S signer cancelled presented now rnd (s, st) = (Inr iss,
      (s\<lparr>data := (data s)\<lparr>refresh_credentials :=
          refresh_credentials (mark_rotated cred (data s)) @ [successor cred now rnd]\<rparr>\<rparr>, st))"
    "iRefreshToken iss = formatRefreshToken (drawn rnd) (rndSecret rnd)" "iRefreshExpiresAt iss = rcExpiresAt cred"
    "AccessToken_Issue J signer (access_of (successor cred now rnd) (rndJTI rnd) now) = Inr (iAccessToken iss)"
    using exchange_ok [OF assms, of J S signer cancelled st] by blast
  have "distinct (map rcID (refresh_credentials (data s)))" "cred \<in> set (refresh_credentials (data s))"
    using assms(3) by (simp_all add: presentable_def creds_wf_def)
  then have "c = cred \<longleftrightarrow> rcID c = rcID cred \<and> rcOwnerID c = rcOwnerID cred \<and> rcStatus c = CredentialStatusActive"
    if "c \<in> set (refresh_credentials (data s))" for c
    using that key_unique [of rcID "refresh_credentials (data s)" c cred] assms(4) by auto
  then have "refresh_credentials (mark_rotated cred (data s)) =
      map (\<lambda>c. if c = cred then cred\<lparr>rcStatus := CredentialStatusRotated\<rparr> else c) (refresh_credentials (data s))"
    by (auto simp: mark_rotated_def update_where_def)
  then show ?thesis
    using iss by (intro exI [of _ iss] exI [of _ "successor cred now rnd"]) (simp add: successor_def access_of_def drawn_def)
qed

theorem exchange_succeeds_witness:
  "\<exists>iss x' new. TokenService_Exchange sample_json MemoryStore_ops \<lparr>asKey = replicate 32 CHR ''k''\<rparr> False
     (formatRefreshToken (rcID sample_cred) (replicate 32 CHR ''a'')) 1 (sample_draws CHR ''b'')
     (sample_session [sample_cred], NewMemoryStore) = (Inr iss, x')
   \<and> refresh_credentials (data (fst x')) = [sample_cred\<lparr>rcStatus := CredentialStatusRotated\<rparr>, new]
   \<and> rcLineageID new = rcID sample_cred \<and> rcExpiresAt new = RefreshLineageLifetime
   \<and> iRefreshToken iss = formatRefreshToken (drawn (sample_draws CHR ''b'')) (replicate 32 CHR ''b'')"
proof -
  obtain iss new where run: "TokenService_Exchange sample_json MemoryStore_ops \<lparr>asKey = replicate 32 CHR ''k''\<rparr> False
     (formatRefreshToken (rcID sample_cred) (replicate 32 CHR ''a'')) 1 (sample_draws CHR ''b'')
     (sample_session [sample_cred], NewMemoryStore) = (Inr iss,
      ((sample_session [sample_cred])\<lparr>data := (data (sample_session [sample_cred]))\<lparr>refresh_credentials :=
          map (\<lambda>c. if c = sample_cred then sample_cred\<lparr>rcStatus := CredentialStatusRotated\<rparr> else c)
            (refresh_credentials (data (sample_session [sample_cred]))) @ [new]\<rparr>\<rparr>, NewMemoryStore))"
    and new: "rcID new = drawn (sample_draws CHR ''b'')" "rcLineageID new = rcLineageID sample_cred"
      "rcExpiresAt new = rcExpiresAt sample_cred"
      "iRefreshToken iss = formatRefreshToken (rcID new) (rndSecret (sample_draws CHR ''b''))"
    using exchange_succeeds [OF _ sample_parse sample_presentable, of 1 "sample_draws CHR ''b''"
        sample_json MemoryStore_ops "\<lparr>asKey = replicate 32 CHR ''k''\<rparr>" False NewMemoryStore] sample_exchangeable
    by auto
  have "refresh_credentials (data (sample_session [sample_cred])) = [sample_cred]" by (simp add: sample_session_def)
  moreover have "rcLineageID sample_cred = rcID sample_cred" using sample_id by simp
  moreover have "rndSecret (sample_draws CHR ''b'') = replicate 32 CHR ''b''" by (simp add: sample_draws_def)
  ultimately show ?thesis
    using run new sample_fields(4) by (intro exI [of _ iss] exI) (rule conjI, assumption, simp)
qed

text \<open>
  C14: presenting a spent token burns its lineage. The exchange is refused, every credential of the
  lineage is revoked, and from then on no access token that was issued with one of them verifies,
  although its signature is good and it has not expired.
\<close>

theorem reuse_burns_lineage:
  assumes "faults s = []" and "parseRefreshToken presented = Inr (rcID cred, secret)"
    and "presentable cred secret (data s)" and "rcStatus cred \<noteq> CredentialStatusActive"
    and "mem_invar st" and "lineage = {c \<in> set (refresh_credentials (data s)).
        rcOwnerID c = rcOwnerID cred \<and> rcLineageID c = rcLineageID cred}"
    and "\<forall>c \<in> lineage. rcID c \<noteq> [] \<and> rcIssuedAt c \<le> now \<and> fits now c (mem_count st now (credentialKey (rcID c)))"
    and "\<forall>k. 0 \<le> Value (mem_count st now k) \<and> Value (mem_count st now k) \<le> B"
    and "B + int (length (refresh_credentials (data s))) < 2 ^ 63"
  shows "\<exists>s' st'. TokenService_Exchange J MemoryStore_ops signer False presented now rnd (s, st) =
        (Inl ErrAuthFailed, (s', st'))
    \<and> (\<forall>c \<in> set (refresh_credentials (data s')). rcOwnerID c = rcOwnerID cred \<and> rcLineageID c = rcLineageID cred \<longrightarrow>
          rcStatus c = CredentialStatusRevoked)
    \<and> (\<forall>c \<in> lineage. \<forall>raw t tok. now \<le> t \<longrightarrow> AccessToken_Verify J signer raw t = Inr tok \<longrightarrow>
          atRefreshCredentialID tok = rcID c \<longrightarrow> atExpiresAt tok \<le> rcIssuedAt c + AccessTokenLifetime \<longrightarrow>
          fst (TokenService_Verify J MemoryStore_ops signer False raw t st') = Inl ErrAuthFailed)"
proof -
  define g where "g c = (if rcStatus c \<noteq> CredentialStatusRevoked
    then c\<lparr>rcStatus := CredentialStatusRevoked, rcRevokedAt := Some now\<rparr> else c)" for c :: RefreshCredential
  define P :: "RefreshCredential \<Rightarrow> bool" where "P = (\<lambda>c. rcOwnerID c = rcOwnerID cred \<and> rcLineageID c = rcLineageID cred)"
  define rows where "rows = update_where
      (\<lambda>r. rcOwnerID r = rcOwnerID cred \<and> rcLineageID r = rcLineageID cred \<and> rcStatus r \<noteq> CredentialStatusRevoked)
      (\<lambda>r. r\<lparr>rcStatus := CredentialStatusRevoked, rcRevokedAt := Some now\<rparr>) (refresh_credentials (data s))"
  define rv where "rv = sort_key rcID (filter P rows)"
  have g [simp]: "rcID (g c) = rcID c" "rcIssuedAt (g c) = rcIssuedAt c" "P (g c) = P c"
    "rcStatus (g c) = CredentialStatusRevoked" for c by (simp_all add: g_def P_def)
  have rows: "rows = map (\<lambda>c. if P c then g c else c) (refresh_credentials (data s))"
    by (auto simp: rows_def update_where_def g_def P_def)
  have lin: "lineage = {c \<in> set (refresh_credentials (data s)). P c}" by (simp add: assms(6) P_def)
  then have rv: "set rv = g ` lineage" by (auto simp: rv_def rows)
  have len: "length rv \<le> length (refresh_credentials (data s))"
    using length_filter_le [of P rows] by (simp add: rv_def rows)
  have "cred \<in> lineage" using assms(3,6) by (simp add: presentable_def)
  then have ne: "rv \<noteq> []" using rv by auto
  have "run_state (WithTx (exchange_tx J signer (rcID cred) secret now rnd)) s =
      (Inr (None, rv), s\<lparr>data := (data s)\<lparr>refresh_credentials := rows\<rparr>\<rparr>)"
    using exchange_tx_reaches [OF assms(1,3)] assms(1,4) revokeLineage_ok [OF assms(1)]
    by (simp add: working Let_def rv_def rows_def P_def)
  moreover obtain st' where st': "Denylist_RevokeLineage MemoryStore_ops False now rv st = (Inr (), st')" "mem_invar st'"
    "\<forall>c \<in> set rv. now - denylistEntryTTL < rcIssuedAt c \<longrightarrow> denies now c (mem_count st' now (credentialKey (rcID c)))"
    using mem.RevokeLineage_denies [OF assms(5) _ assms(8), of rv "set rv"] assms(7,9) len rv
    by (auto simp: fits_def)
  ultimately have run: "TokenService_Exchange J MemoryStore_ops signer False presented now rnd (s, st) =
      (Inl ErrAuthFailed, (s\<lparr>data := (data s)\<lparr>refresh_credentials := rows\<rparr>\<rparr>, st'))"
    using assms(2) ne by (simp add: TokenService_Exchange_def denyRevoked_def)
  have deny: "fst (TokenService_Verify J MemoryStore_ops signer False raw t st') = Inl ErrAuthFailed"
    if c: "c \<in> lineage" and t: "now \<le> t" and tok: "AccessToken_Verify J signer raw t = Inr tok"
      "atRefreshCredentialID tok = rcID c" "atExpiresAt tok \<le> rcIssuedAt c + AccessTokenLifetime" for c raw t tok
  proof -
    have "t < atExpiresAt tok" using AccessToken_Verify_Inr [OF tok(1)] by blast
    then have "now - denylistEntryTTL < rcIssuedAt (g c)"
      using t tok(3) by (simp add: denylistEntryTTL_def DenylistSkew_def)
    then have "denies now (g c) (mem_count st' now (credentialKey (rcID (g c))))" using st'(3) rv c by blast
    then show ?thesis
      using mem.denies_verify [OF st'(2) t tok(1), of "g c"] tok(2,3) assms(7) c by simp
  qed
  have "\<forall>c \<in> set rows. P c \<longrightarrow> rcStatus c = CredentialStatusRevoked" by (auto simp: rows)
  then show ?thesis using run deny by (auto simp: P_def)
qed

theorem reuse_burns_lineage_witness:
  "\<exists>s' st'. TokenService_Exchange sample_json MemoryStore_ops \<lparr>asKey = replicate 32 CHR ''k''\<rparr> False
       (formatRefreshToken (rcID sample_cred) (replicate 32 CHR ''a'')) 2 (sample_draws CHR ''c'')
       (sample_session [sample_cred\<lparr>rcStatus := CredentialStatusRotated\<rparr>, successor sample_cred 1 (sample_draws CHR ''b'')],
        NewMemoryStore) = (Inl ErrAuthFailed, (s', st'))"
proof -
  let ?old = "sample_cred\<lparr>rcStatus := CredentialStatusRotated\<rparr>"
  let ?new = "successor sample_cred 1 (sample_draws CHR ''b'')"
  let ?s = "sample_session [?old, ?new]"
  have new: "rcID ?new = drawn (sample_draws CHR ''b'')" "rcLineageID ?new = drawn (sample_draws CHR ''a'')"
    "rcOwnerID ?new = ''alice''" "rcStatus ?new = CredentialStatusActive" "rcScopes ?new = rcScopes sample_cred"
    "rcExpiresAt ?new = rcExpiresAt sample_cred" "rcIssuedAt ?new = 1"
    by (simp_all add: successor_def drawn_def sample_fields) (simp add: sample_id drawn_def)
  have wf: "creds_wf (data ?s)"
    by (simp add: creds_wf_def sample_session_def empty_db_def kin_def new sample_id sample_drawn sample_fields)
  have pres: "presentable ?old (replicate 32 CHR ''a'') (data ?s)"
    using wf by (simp add: presentable_def) (simp add: sample_session_def empty_db_def secretMatches_def sample_fields
        sample_id sample_owner_def owner_usable_def)
  have parse: "parseRefreshToken (formatRefreshToken (rcID sample_cred) (replicate 32 CHR ''a'')) =
      Inr (rcID ?old, replicate 32 CHR ''a'')"
    using sample_parse by simp
  have rows: "refresh_credentials (data ?s) = [?old, ?new]" by (simp add: sample_session_def empty_db_def)
  have zero: "mem_count NewMemoryStore t k = zero_count" for t k by (simp add: mem_count_def NewMemoryStore_def)
  have lin: "\<forall>c \<in> {c \<in> set (refresh_credentials (data ?s)). rcOwnerID c = rcOwnerID ?old \<and> rcLineageID c = rcLineageID ?old}.
      rcID c \<noteq> [] \<and> rcIssuedAt c \<le> 2 \<and> fits 2 c (mem_count NewMemoryStore 2 (credentialKey (rcID c)))"
    by (auto simp: rows zero zero_count_def fits_def new sample_id sample_fields)
  have bound: "\<forall>k. 0 \<le> Value (mem_count NewMemoryStore 2 k) \<and> Value (mem_count NewMemoryStore 2 k) \<le> 0"
    "0 + int (length (refresh_credentials (data ?s))) < 2 ^ 63"
    by (simp_all add: zero zero_count_def rows)
  have "rcStatus ?old \<noteq> CredentialStatusActive" by simp
  from reuse_burns_lineage [OF sample_exchangeable(1) parse pres this mem_invar_new refl lin bound, of sample_json
      "\<lparr>asKey = replicate 32 CHR ''k''\<rparr>" "sample_draws CHR ''c''"]
  show ?thesis by blast
qed

end
