(* ===== verification/Authorization.thy ===== *)
theory Authorization
  imports Token_Service
begin

text \<open>
  The authorization guard of \<^verbatim>\<open>internal/auth/authorization.go\<close>: what a request asks for (\<open>Access\<close>), what
  a scope set covers (\<open>permitsAccess\<close>), and the composition of token verification, denylist, owner
  boundary and scopes (\<open>Authorize\<close>).
\<close>

section \<open>Requests\<close>

type_synonym ResourceKind = string

definition ResourceNone :: ResourceKind where "ResourceNone = ''''"
definition ResourceKeySet :: ResourceKind where "ResourceKeySet = ''key-set''"
definition ResourceDevice :: ResourceKind where "ResourceDevice = ''device''"

lemmas resource_kinds = ResourceNone_def ResourceKeySet_def ResourceDevice_def

definition ResourceKind_isValid :: "ResourceKind \<Rightarrow> bool" where
  "ResourceKind_isValid k \<longleftrightarrow> k = ResourceNone \<or> k = ResourceKeySet \<or> k = ResourceDevice"

record Access =
  accOwner :: OwnerID
  accResource :: ResourceKind
  accResourceID :: string
  accMutating :: bool

definition Access_validate :: "Access \<Rightarrow> unit result" where
  "Access_validate a =
     (if \<not> ResourceKind_isValid (accResource a) then Inl ErrInvalidInput
      else if (accResource a = ResourceNone) \<noteq> (accResourceID a = []) then Inl ErrInvalidInput
      else Inr ())"

record Authorization =
  azOwner :: OwnerID
  azTokenID :: string
  azCredential :: RefreshCredentialID
  azScopes :: "Scope list"

section \<open>Scopes\<close>

definition boundScopePermits :: "Scope \<Rightarrow> Access \<Rightarrow> ResourceKind \<Rightarrow> bool" where
  "boundScopePermits s acc want \<longleftrightarrow>
     (if accResource acc \<noteq> want \<or> accResourceID acc = [] \<or> ResourceID s = [] then False
      else ResourceID s = accResourceID acc)"

definition scopePermits :: "Scope \<Rightarrow> Access \<Rightarrow> bool" where
  "scopePermits s acc =
     (if Kind s = ScopeFullOwner then True
      else if Kind s = ScopeSingleSet then boundScopePermits s acc ResourceKeySet
      else if Kind s = ScopeSingleDevice then boundScopePermits s acc ResourceDevice
      else False)"

definition permitsAccess :: "Scope list \<Rightarrow> Access \<Rightarrow> bool" where
  "permitsAccess scopes acc =
     (let readOnly = list_ex (\<lambda>s. Kind s = ScopeReadOnly) scopes;
          grants = length (filter (\<lambda>s. Kind s \<noteq> ScopeReadOnly) scopes)
      in
      if readOnly \<and> accMutating acc then False
      else if readOnly \<and> grants = 0 then True
      else list_ex (\<lambda>s. Kind s \<noteq> ScopeReadOnly \<and> scopePermits s acc) scopes)"

section \<open>The guard\<close>

definition Guard_decide ::
  "'s Store \<Rightarrow> bool \<Rightarrow> time \<Rightarrow> AccessToken \<Rightarrow> Access \<Rightarrow> 's \<Rightarrow> unit result \<times> 's" where
  "Guard_decide S cancelled now tok acc st =
     (if atOwnerID tok = [] then (Inl ErrAuthFailed, st)
      else
        (case Denylist_Check S cancelled now tok st of
           (Inl _, st') \<Rightarrow> (Inl ErrAuthFailed, st')
         | (Inr _, st') \<Rightarrow>
             if accOwner acc \<noteq> [] \<and> accOwner acc \<noteq> atOwnerID tok then (Inl ErrForbidden, st')
             else if \<not> permitsAccess (atScopes tok) acc then (Inl ErrForbidden, st')
             else (Inr (), st')))"

definition Guard_Authorize ::
  "accessClaims json \<Rightarrow> 's Store \<Rightarrow> AccessTokenSigner \<Rightarrow> bool \<Rightarrow> string \<Rightarrow> Access \<Rightarrow> time \<Rightarrow> 's \<Rightarrow>
     Authorization result \<times> 's" where
  "Guard_Authorize J S signer cancelled presented acc now st =
     (case Access_validate acc of
        Inl _ \<Rightarrow> (Inl ErrAuthFailed, st)
      | Inr _ \<Rightarrow>
     (case AccessToken_Verify J signer presented now of
        Inl _ \<Rightarrow> (Inl ErrAuthFailed, st)
      | Inr tok \<Rightarrow>
     (case Guard_decide S cancelled now tok acc st of
        (Inl e, st') \<Rightarrow> (Inl e, st')
      | (Inr _, st') \<Rightarrow>
          (Inr \<lparr>azOwner = atOwnerID tok, azTokenID = atID tok, azCredential = atRefreshCredentialID tok,
               azScopes = atScopes tok\<rparr>, st'))))"

section \<open>What a scope set covers\<close>

text \<open>
  The reference: the resource a binding names, and a set's authority as the intersection of its
  read-only modifier with what it grants.
\<close>

definition names :: "Scope \<Rightarrow> Access \<Rightarrow> bool" where
  "names b acc \<longleftrightarrow> ResourceID b = accResourceID acc
     \<and> ((Kind b = ScopeSingleSet \<and> accResource acc = ResourceKeySet)
        \<or> (Kind b = ScopeSingleDevice \<and> accResource acc = ResourceDevice))"

definition covers :: "Scope list \<Rightarrow> Access \<Rightarrow> bool" where
  "covers ss acc \<longleftrightarrow>
     (read_only \<in> set ss \<longrightarrow> \<not> accMutating acc)
     \<and> (ss = [full_owner] \<or> ss = [read_only] \<or> (\<exists>b \<in> set ss. bound_scope b \<and> names b acc))"

lemma bound_kind: "bound_scope b \<Longrightarrow> Kind b \<noteq> ScopeReadOnly \<and> Kind b \<noteq> ScopeFullOwner \<and> ResourceID b \<noteq> []
    \<and> (Kind b = ScopeSingleSet \<or> Kind b = ScopeSingleDevice)"
  using bound_scope_kind [of b] by (auto simp: bound_scope_def resourceBinding_def scope_kind_defs)

lemma kind_consts [simp]:
  "Kind full_owner = ScopeFullOwner" "Kind read_only = ScopeReadOnly"
  "ScopeFullOwner \<noteq> ScopeReadOnly" "ScopeReadOnly \<noteq> ScopeFullOwner"
  "ScopeSingleSet \<noteq> ScopeFullOwner" "ScopeSingleDevice \<noteq> ScopeFullOwner" "ScopeSingleSet \<noteq> ScopeSingleDevice"
  by (simp_all add: full_owner_def read_only_def scope_kind_defs)

lemma scopePermits_bound:
  "bound_scope b \<Longrightarrow> scopePermits b acc \<longleftrightarrow> names b acc"
  using bound_kind [of b] by (auto simp: scopePermits_def boundScopePermits_def names_def resource_kinds)

lemma not_bound [simp]: "\<not> bound_scope full_owner" "\<not> bound_scope read_only"
  using bound_kind by fastforce+

lemma permitsAccess_covers:
  assumes "ValidateScopes ss = Inr ()"
  shows "permitsAccess ss acc \<longleftrightarrow> covers ss acc"
proof -
  have full: "scopePermits full_owner acc" by (simp add: scopePermits_def)
  have "read_only \<noteq> full_owner" by (metis kind_consts(1,2,3))
  moreover have "bound_scope b \<Longrightarrow> b \<noteq> full_owner \<and> b \<noteq> read_only" for b by auto
  ultimately show ?thesis
    using assms scopePermits_bound bound_kind full
    unfolding scope_set_cases by (auto simp: permitsAccess_def covers_def)
qed

section \<open>Properties\<close>

text \<open>
  C16: the guard admits a request exactly when its token verifies and is not denied, the request names no
  other owner, and the token's scope set covers it; what it hands on is the owner and the scopes of the
  token, never of the request. It answers \<^verbatim>\<open>ErrForbidden\<close> only to the holder of a good token; every other
  refusal is the one \<^verbatim>\<open>ErrAuthFailed\<close>.
\<close>

theorem authorize_exactly:
  "fst (Guard_Authorize J S signer cancelled presented acc now st) =
     (case AccessToken_Verify J signer presented now of
        Inl _ \<Rightarrow> Inl ErrAuthFailed
      | Inr tok \<Rightarrow>
          if Access_validate acc = Inr () \<and> fst (Denylist_Check S cancelled now tok st) = Inr () then
            (if (accOwner acc = [] \<or> accOwner acc = atOwnerID tok) \<and> covers (atScopes tok) acc then
               Inr \<lparr>azOwner = atOwnerID tok, azTokenID = atID tok, azCredential = atRefreshCredentialID tok,
                    azScopes = atScopes tok\<rparr>
             else Inl ErrForbidden)
          else Inl ErrAuthFailed)"
proof (cases "AccessToken_Verify J signer presented now")
  case (Inl e)
  then show ?thesis by (simp add: Guard_Authorize_def split: sum.splits)
next
  case (Inr tok)
  then have "ValidateScopes (atScopes tok) = Inr ()" "atOwnerID tok \<noteq> []"
    using AccessToken_Verify_Inr by blast+
  then show ?thesis
    using Inr permitsAccess_covers [of "atScopes tok" acc]
    by (auto simp: Guard_Authorize_def Guard_decide_def split: sum.splits prod.splits)
qed

definition sample_access :: Access where
  "sample_access = \<lparr>accOwner = ''alice'', accResource = ResourceKeySet, accResourceID = ''ks1'', accMutating = True\<rparr>"

text \<open>
  C17: a scope set's authority is bounded by each of its parts: adding the read-only modifier to a binding
  allows only requests that the binding alone allows and that change nothing, and a binding never reaches
  a request that names another resource or none, of whatever kind.
\<close>

theorem scope_sets_only_narrow:
  assumes "bound_scope b"
  shows "(permitsAccess [read_only, b] acc \<longleftrightarrow> permitsAccess [b] acc \<and> \<not> accMutating acc)
    \<and> (permitsAccess [b, read_only] acc \<longleftrightarrow> permitsAccess [read_only, b] acc)
    \<and> (permitsAccess [b] acc \<longleftrightarrow> names b acc)"
proof -
  have "ValidateScopes [b] = Inr ()" "ValidateScopes [read_only, b] = Inr ()" "ValidateScopes [b, read_only] = Inr ()"
    using assms by (auto simp: scope_set_cases)
  moreover have "b \<noteq> read_only" "b \<noteq> full_owner" using assms by auto
  ultimately show ?thesis using assms by (auto simp: permitsAccess_covers covers_def)
qed

theorem scope_sets_only_narrow_witness:
  "permitsAccess [\<lparr>Kind = ScopeSingleSet, ResourceID = ''ks1''\<rparr>] sample_access
   \<and> \<not> permitsAccess [read_only, \<lparr>Kind = ScopeSingleSet, ResourceID = ''ks1''\<rparr>] sample_access"
  using scope_sets_only_narrow [of "\<lparr>Kind = ScopeSingleSet, ResourceID = ''ks1''\<rparr>" sample_access]
  by (simp add: bound_scope_def resourceBinding_def names_def sample_access_def)

end
