(* ===== verification/Enrollment.thy ===== *)
theory Enrollment
  imports Authorization
begin

text \<open>
  Enrollment of clients, \<^verbatim>\<open>internal/auth\<close>: identities and the provider registry (\<^verbatim>\<open>auth.go\<close>,
  \<^verbatim>\<open>registry.go\<close>), resolution of an identity to an owner (\<^verbatim>\<open>authenticator.go\<close>), the provider that
  authenticates device codes (\<^verbatim>\<open>apitoken.go\<close>) and the enrollment service (\<^verbatim>\<open>enrollment.go\<close>). Readings of
  the clock are arguments, one per call. Redeeming is not one transaction: its statements may
  interleave with those of other sessions, which the lemmas on sequences of statements cover.
\<close>

section \<open>Identities\<close>

definition MaxProviderIDLen :: nat where "MaxProviderIDLen = 32"
definition MaxPrincipalLen :: nat where "MaxPrincipalLen = 255"

definition ProviderID_Validate :: "string \<Rightarrow> unit result" where
  "ProviderID_Validate p =
     (if p = [] then Inl ErrInvalidInput
      else if MaxProviderIDLen < length p then Inl ErrInvalidInput
      else if \<not> slugRe p then Inl ErrInvalidInput
      else Inr ())"

definition Principal_Validate :: "string \<Rightarrow> unit result" where
  "Principal_Validate p =
     (if p = [] then Inl ErrInvalidInput
      else if MaxPrincipalLen < length p then Inl ErrInvalidInput
      else if \<not> ValidString p then Inl ErrInvalidInput
      else if nul \<in> set p then Inl ErrInvalidInput
      else Inr ())"

record Identity =
  idProvider :: string
  idPrincipal :: string

definition Identity_Validate :: "Identity \<Rightarrow> unit result" where
  "Identity_Validate i =
     (case ProviderID_Validate (idProvider i) of
        Inl e \<Rightarrow> Inl e
      | Inr _ \<Rightarrow> Principal_Validate (idPrincipal i))"

section \<open>Providers and their registry\<close>

text \<open>A provider is its name and what it makes of a presented secret.\<close>

record AuthProvider =
  apID :: string
  apAuthenticate :: "string \<Rightarrow> Identity conn"

type_synonym Registry = "(string \<times> AuthProvider) list"

fun registry_add :: "AuthProvider list \<Rightarrow> Registry \<Rightarrow> Registry result" where
  "registry_add [] m = Inr m"
| "registry_add (p # ps) m =
     (case ProviderID_Validate (apID p) of
        Inl e \<Rightarrow> Inl e
      | Inr _ \<Rightarrow>
          if map_of m (apID p) \<noteq> None then Inl ErrConflict
          else registry_add ps (m @ [(apID p, p)]))"

definition NewRegistry :: "AuthProvider list \<Rightarrow> Registry result" where
  "NewRegistry providers = registry_add providers []"

definition Registry_Lookup :: "Registry \<Rightarrow> string \<Rightarrow> AuthProvider result" where
  "Registry_Lookup r i =
     (case ProviderID_Validate i of
        Inl _ \<Rightarrow> Inl ErrAuthFailed
      | Inr _ \<Rightarrow> (case map_of r i of None \<Rightarrow> Inl ErrAuthFailed | Some p \<Rightarrow> Inr p))"

section \<open>Resolving an identity\<close>

definition Authenticator_resolve :: "Identity \<Rightarrow> OwnerID conn" where
  "Authenticator_resolve i = do {
     rl \<leftarrow> LinkedIdentities_GetByProviderSubject (idProvider i) (idPrincipal i);
     (case rl of
        Inl _ \<Rightarrow> throw ErrAuthFailed
      | Inr li \<Rightarrow>
          if liProvider li \<noteq> idProvider i \<or> liSubject li \<noteq> idPrincipal i then throw ErrAuthFailed
          else if liOwnerID li = [] then throw ErrAuthFailed
          else do {
            ro \<leftarrow> Owners_Get (liOwnerID li);
            (case ro of
               Inl _ \<Rightarrow> throw ErrAuthFailed
             | Inr ow \<Rightarrow>
                 if oID ow \<noteq> liOwnerID li then throw ErrAuthFailed
                 else if oStatus ow \<noteq> OwnerStatusActive \<or> oDeletedAt ow \<noteq> None then throw ErrAuthFailed
                 else ret (liOwnerID li))
          })
   }"

definition Authenticator_Authenticate :: "Registry \<Rightarrow> string \<Rightarrow> string \<Rightarrow> OwnerID conn" where
  "Authenticator_Authenticate reg providerID secret =
     (case Registry_Lookup reg providerID of
        Inl _ \<Rightarrow> throw ErrAuthFailed
      | Inr provider \<Rightarrow> do {
          r \<leftarrow> apAuthenticate provider secret;
          (case r of
             Inl _ \<Rightarrow> throw ErrAuthFailed
           | Inr i \<Rightarrow>
               if idProvider i \<noteq> apID provider then throw ErrAuthFailed
               else if Identity_Validate i \<noteq> Inr () then throw ErrAuthFailed
               else Authenticator_resolve i)
        })"

section \<open>The device code provider\<close>

definition APITokenProviderID :: string where "APITokenProviderID = ''api-token''"

definition APIToken_Authenticate :: "time \<Rightarrow> string \<Rightarrow> Identity conn" where
  "APIToken_Authenticate now presented =
     (case parseDeviceCode presented of
        Inl _ \<Rightarrow> throw ErrAuthFailed
      | Inr (pid, secret) \<Rightarrow> do {
          r \<leftarrow> DevicePairings_GetByID pid;
          (case r of
             Inl e \<Rightarrow> if e = ErrNotFound then throw ErrAuthFailed else throw e
           | Inr pairing \<Rightarrow>
               if dpID pairing \<noteq> pid then throw ErrAuthFailed
               else if \<not> deviceSecretMatches (dpDeviceCodeHash pairing) secret then throw ErrAuthFailed
               else if dpStatus pairing \<noteq> PairingStatusApproved then throw ErrAuthFailed
               else if dpOwnerID pairing = [] then throw ErrAuthFailed
               else if \<not> now < dpExpiresAt pairing then throw ErrAuthFailed
               else ret \<lparr>idProvider = APITokenProviderID, idPrincipal = dpID pairing\<rparr>)
        })"

definition APITokenProvider :: "time \<Rightarrow> AuthProvider" where
  "APITokenProvider now = \<lparr>apID = APITokenProviderID, apAuthenticate = APIToken_Authenticate now\<rparr>"

section \<open>Starting an enrollment\<close>

definition MaxApprovalAttempts :: int where "MaxApprovalAttempts = 20"
definition approvalLimitPrefix :: string where "approvalLimitPrefix = ''vallet.auth.approval.v1''"

record Grant =
  gPairingID :: PairingID
  gDeviceCode :: string
  gUserCode :: string
  gExpiresAt :: time
  gPollInterval :: duration

text \<open>The random bytes a pairing draws.\<close>

record pairing_draws =
  prID :: bytes
  prSecret :: bytes
  prCode :: bytes

definition new_pairing ::
  "OwnerID \<Rightarrow> bytes \<Rightarrow> Scope list \<Rightarrow> string \<Rightarrow> PairingStatus \<Rightarrow> time option \<Rightarrow> time \<Rightarrow> pairing_draws \<Rightarrow> DevicePairing" where
  "new_pairing ow userHash scopes label st approved now rnd =
     \<lparr>dpID = newPairingID (prID rnd), dpOwnerID = ow, dpDeviceCodeHash = hashDeviceSecret (prSecret rnd),
      dpUserCodeHash = userHash, dpClientLabel = label, dpScopes = scopes, dpStatus = st,
      dpLineageID = [], dpNextPollAt = now, dpCreatedAt = now, dpExpiresAt = now + PairingLifetime,
      dpApprovedAt = approved, dpRedeemedAt = None, dpRevokedAt = None\<rparr>"

definition create_pairing :: "DevicePairing \<Rightarrow> bytes \<Rightarrow> string \<Rightarrow> Grant conn" where
  "create_pairing p secret userCode =
     attempt (DevicePairings_Create p) (\<lambda>_.
       ret \<lparr>gPairingID = dpID p, gDeviceCode = formatDeviceCode (dpID p) secret, gUserCode = userCode,
            gExpiresAt = dpExpiresAt p, gPollInterval = PairingPollInterval\<rparr>)"

definition StartDeviceGrant :: "string \<Rightarrow> Scope list \<Rightarrow> time \<Rightarrow> pairing_draws \<Rightarrow> Grant conn" where
  "StartDeviceGrant label scopes now rnd =
     (case ValidateScopes scopes of
        Inl e \<Rightarrow> throw e
      | Inr _ \<Rightarrow>
     (case validateClientLabel label of
        Inl e \<Rightarrow> throw e
      | Inr _ \<Rightarrow>
          (case newUserCode (prCode rnd) of
             (shown, canonical) \<Rightarrow>
               create_pairing
                 (new_pairing [] (hashUserCode canonical) scopes label PairingStatusPending None now rnd)
                 (prSecret rnd) shown)))"

definition link :: "PairingID \<Rightarrow> OwnerID \<Rightarrow> time \<Rightarrow> unit conn" where
  "link pid ow now =
     LinkedIdentities_Create
       \<lparr>liID = pid, liOwnerID = ow, liProvider = APITokenProviderID, liSubject = pid, liEmail = None,
        liCreatedAt = now, liUpdatedAt = now\<rparr>"

definition mintInto ::
  "OwnerID \<Rightarrow> string \<Rightarrow> Scope list \<Rightarrow> time \<Rightarrow> time \<Rightarrow> pairing_draws \<Rightarrow> Grant conn" where
  "mintInto ow label scopes approved now rnd =
     (if ow = [] then throw ErrInvalidInput
      else
        (case ValidateScopes scopes of
           Inl e \<Rightarrow> throw e
         | Inr _ \<Rightarrow>
        (case validateClientLabel label of
           Inl e \<Rightarrow> throw e
         | Inr _ \<Rightarrow>
             (let p = new_pairing ow [] scopes label PairingStatusApproved (Some approved) now rnd in
              attempt (create_pairing p (prSecret rnd) []) (\<lambda>grant.
              attempt (link (dpID p) ow approved) (\<lambda>_. ret grant))))))"

section \<open>Approving\<close>

definition approvalKey :: "OwnerID \<Rightarrow> string" where
  "approvalKey ow = RawURL_Encode (Sum256 (approvalLimitPrefix @ [nul] @ ow))"

definition checkApprovalLimit :: "'s Store \<Rightarrow> bool \<Rightarrow> time \<Rightarrow> OwnerID \<Rightarrow> 's \<Rightarrow> unit result \<times> 's" where
  "checkApprovalLimit S cancelled now ow st =
     (case sIncrement S cancelled now (approvalKey ow) 1 PairingLifetime st of
        (Inl _, st') \<Rightarrow> (Inl ErrAuthFailed, st')
      | (Inr got, st') \<Rightarrow> if MaxApprovalAttempts < Value got then (Inl ErrAuthFailed, st') else (Inr (), st'))"

text \<open>The part of an approval that follows the limiter.\<close>

definition approve_code :: "OwnerID \<Rightarrow> string \<Rightarrow> time \<Rightarrow> unit conn" where
  "approve_code ow userCode now =
     (case normalizeUserCode userCode of
        Inl _ \<Rightarrow> throw ErrAuthFailed
      | Inr code \<Rightarrow> do {
          r \<leftarrow> DevicePairings_GetByUserCodeHash (hashUserCode code);
          (case r of
             Inl _ \<Rightarrow> throw ErrAuthFailed
           | Inr pairing \<Rightarrow>
               if dpStatus pairing \<noteq> PairingStatusPending then throw ErrAuthFailed
               else if \<not> now < dpExpiresAt pairing then throw ErrAuthFailed
               else do {
                 ra \<leftarrow> DevicePairings_Approve (dpID pairing) ow now;
                 (case ra of
                    Inl _ \<Rightarrow> throw ErrAuthFailed
                  | Inr _ \<Rightarrow> do {
                      rk \<leftarrow> link (dpID pairing) ow now;
                      (case rk of Inl _ \<Rightarrow> throw ErrAuthFailed | Inr _ \<Rightarrow> ret ())
                    })
               })
        })"

definition Approve ::
  "'s Store \<Rightarrow> bool \<Rightarrow> OwnerID \<Rightarrow> string \<Rightarrow> time \<Rightarrow> session \<times> 's \<Rightarrow> unit result \<times> (session \<times> 's)" where
  "Approve S cancelled ow userCode now = (\<lambda>(s, st).
     if ow = [] then (Inl ErrAuthFailed, (s, st))
     else
       (case checkApprovalLimit S cancelled now ow st of
          (Inl e, st') \<Rightarrow> (Inl e, (s, st'))
        | (Inr _, st') \<Rightarrow> (case run_state (approve_code ow userCode now) s of (r, s') \<Rightarrow> (r, (s', st')))))"

section \<open>Redeeming, revoking, polling\<close>

text \<open>Revokes the rows of a lineage and reads them back for the denylist; a failure is only logged.\<close>

definition revoke_rows :: "OwnerID \<Rightarrow> LineageID \<Rightarrow> time \<Rightarrow> RefreshCredential list conn" where
  "revoke_rows ow lineage now =
     attempt (RefreshCredentials_RevokeLineage ow lineage now)
       (\<lambda>_. RefreshCredentials_ListByLineage ow lineage)"

definition Enrollment_revokeLineage ::
  "'s Store \<Rightarrow> bool \<Rightarrow> OwnerID \<Rightarrow> LineageID \<Rightarrow> time \<Rightarrow> session \<times> 's \<Rightarrow> session \<times> 's" where
  "Enrollment_revokeLineage S cancelled ow lineage now = (\<lambda>(s, st).
     (case run_state (revoke_rows ow lineage now) s of
        (Inl _, s') \<Rightarrow> (s', st)
      | (Inr rows, s') \<Rightarrow> (s', snd (Denylist_RevokeLineage S cancelled now rows st))))"

text \<open>Redeeming up to the conditional write: the checks and the issuance.\<close>

definition redeem_issue ::
  "accessClaims json \<Rightarrow> AccessTokenSigner \<Rightarrow> Registry \<Rightarrow> PairingID \<Rightarrow> string \<Rightarrow> time \<Rightarrow> draws \<Rightarrow> (OwnerID \<times> Issued) conn" where
  "redeem_issue J signer reg pid deviceCode now rnd = do {
     ra \<leftarrow> Authenticator_Authenticate reg APITokenProviderID deviceCode;
     (case ra of
        Inl _ \<Rightarrow> throw ErrAuthFailed
      | Inr ow \<Rightarrow> do {
          rp \<leftarrow> DevicePairings_Get ow pid;
          (case rp of
             Inl _ \<Rightarrow> throw ErrAuthFailed
           | Inr pairing \<Rightarrow>
               if dpID pairing \<noteq> pid \<or> dpOwnerID pairing \<noteq> ow then throw ErrAuthFailed
               else if ValidateScopes (dpScopes pairing) \<noteq> Inr () then throw ErrAuthFailed
               else do {
                 ri \<leftarrow> TokenService_Issue J signer ow (dpScopes pairing) (dpClientLabel pairing) now rnd;
                 (case ri of Inl _ \<Rightarrow> throw ErrAuthFailed | Inr issued \<Rightarrow> ret (ow, issued))
               })
        })
   }"

definition Redeem ::
  "accessClaims json \<Rightarrow> 's Store \<Rightarrow> AccessTokenSigner \<Rightarrow> Registry \<Rightarrow> bool \<Rightarrow> string \<Rightarrow> time \<Rightarrow> draws \<Rightarrow>
     session \<times> 's \<Rightarrow> Issued result \<times> (session \<times> 's)" where
  "Redeem J S signer reg cancelled deviceCode now rnd = (\<lambda>(s, st).
     (case parseDeviceCode deviceCode of
        Inl _ \<Rightarrow> (Inl ErrAuthFailed, (s, st))
      | Inr (pid, _) \<Rightarrow>
          (case run_state (redeem_issue J signer reg pid deviceCode now rnd) s of
             (Inl _, s1) \<Rightarrow> (Inl ErrAuthFailed, (s1, st))
           | (Inr (ow, issued), s1) \<Rightarrow>
               (case run_state (DevicePairings_MarkRedeemed ow pid (iLineageID issued) now) s1 of
                  (Inl _, s2) \<Rightarrow>
                    (Inl ErrAuthFailed, Enrollment_revokeLineage S cancelled ow (iLineageID issued) now (s2, st))
                | (Inr _, s2) \<Rightarrow> (Inr issued, (s2, st))))))"

definition Enrollment_Revoke ::
  "'s Store \<Rightarrow> bool \<Rightarrow> OwnerID \<Rightarrow> PairingID \<Rightarrow> time \<Rightarrow> session \<times> 's \<Rightarrow> unit result \<times> (session \<times> 's)" where
  "Enrollment_Revoke S cancelled ow pid now = (\<lambda>(s, st).
     if ow = [] \<or> pid = [] then (Inl ErrInvalidInput, (s, st))
     else
       (case run_state (DevicePairings_Get ow pid) s of
          (Inl e, s1) \<Rightarrow> (Inl e, (s1, st))
        | (Inr pairing, s1) \<Rightarrow>
            if dpOwnerID pairing \<noteq> ow then (Inl ErrNotFound, (s1, st))
            else
              (case run_state (DevicePairings_Revoke ow pid now) s1 of
                 (Inl e, s2) \<Rightarrow> (Inl e, (s2, st))
               | (Inr _, s2) \<Rightarrow>
                   (Inr (), if dpLineageID pairing \<noteq> []
                            then Enrollment_revokeLineage S cancelled ow (dpLineageID pairing) now (s2, st)
                            else (s2, st)))))"

definition Poll :: "string \<Rightarrow> time \<Rightarrow> unit conn" where
  "Poll deviceCode now =
     (case parseDeviceCode deviceCode of
        Inl _ \<Rightarrow> throw ErrAuthFailed
      | Inr (pid, secret) \<Rightarrow> do {
          r \<leftarrow> DevicePairings_GetByID pid;
          (case r of
             Inl _ \<Rightarrow> throw ErrAuthFailed
           | Inr pairing \<Rightarrow>
               if dpID pairing \<noteq> pid then throw ErrAuthFailed
               else if \<not> deviceSecretMatches (dpDeviceCodeHash pairing) secret then throw ErrAuthFailed
               else if \<not> now < dpExpiresAt pairing then throw ErrAuthFailed
               else if now < dpNextPollAt pairing then do {
                 _ \<leftarrow> DevicePairings_Touch pid (now + PairingPollInterval);
                 throw ErrAuthFailed
               }
               else do {
                 rt \<leftarrow> DevicePairings_Touch pid (now + PairingPollInterval);
                 (case rt of
                    Inl _ \<Rightarrow> throw ErrAuthFailed
                  | Inr _ \<Rightarrow>
                      if dpStatus pairing = PairingStatusApproved then ret ()
                      else if dpStatus pairing = PairingStatusPending then throw ErrPollPending
                      else throw ErrAuthFailed)
               })
        })"

definition PollPending :: "unit result \<Rightarrow> bool" where
  "PollPending r \<longleftrightarrow> r = Inl ErrPollPending"

section \<open>The life of a pairing\<close>

text \<open>The transitions a row can make, apart from its creation and its deletion after expiry.\<close>

inductive lifecycle :: "DevicePairing \<Rightarrow> DevicePairing \<Rightarrow> bool" where
  poll: "lifecycle p (p\<lparr>dpNextPollAt := t\<rparr>)"
| approve: "dpStatus p = PairingStatusPending \<Longrightarrow>
    lifecycle p (p\<lparr>dpStatus := PairingStatusApproved, dpOwnerID := ow, dpApprovedAt := Some t\<rparr>)"
| redeem: "dpStatus p = PairingStatusApproved \<Longrightarrow> dpOwnerID p \<noteq> [] \<Longrightarrow>
    lifecycle p (p\<lparr>dpStatus := PairingStatusRedeemed, dpLineageID := lin, dpRedeemedAt := Some t\<rparr>)"
| revoke: "dpStatus p = PairingStatusPending \<or> dpStatus p = PairingStatusApproved \<Longrightarrow>
    lifecycle p (p\<lparr>dpStatus := PairingStatusRevoked, dpRevokedAt := Some t\<rparr>)"

text \<open>The statements on the table, which sessions interleave in any order.\<close>

datatype pairing_stmt =
    S_Create DevicePairing
  | S_Approve PairingID OwnerID time
  | S_MarkRedeemed OwnerID PairingID LineageID time
  | S_Revoke OwnerID PairingID time
  | S_Touch PairingID time
  | S_DeleteExpired time int

fun stmt :: "pairing_stmt \<Rightarrow> unit conn" where
  "stmt (S_Create p) = DevicePairings_Create p"
| "stmt (S_Approve i ow now) = DevicePairings_Approve i ow now"
| "stmt (S_MarkRedeemed ow i lin now) = DevicePairings_MarkRedeemed ow i lin now"
| "stmt (S_Revoke ow i now) = DevicePairings_Revoke ow i now"
| "stmt (S_Touch i t) = DevicePairings_Touch i t"
| "stmt (S_DeleteExpired cutoff limit) = attempt (DevicePairings_DeleteExpired cutoff limit) (\<lambda>_. ret ())"

fun run_stmts :: "pairing_stmt list \<Rightarrow> session \<Rightarrow> session" where
  "run_stmts [] s = s"
| "run_stmts (x # xs) s = run_stmts xs (snd (run_state (stmt x) s))"

text \<open>Every row after a statement is new, unchanged, or one transition further.\<close>

definition advances :: "db \<Rightarrow> db \<Rightarrow> pairing_stmt \<Rightarrow> bool" where
  "advances d d' x \<longleftrightarrow> pairings_wf d' \<and>
     (\<forall>q \<in> set (device_pairings d').
        (\<exists>p \<in> set (device_pairings d). dpID p = dpID q \<and> lifecycle\<^sup>=\<^sup>= p q) \<or> x = S_Create q)"

lemma advances_refl: "pairings_wf d \<Longrightarrow> advances d d x"
  by (auto simp: advances_def)

lemma advances_update:
  assumes "pairings_wf d" and "\<And>p. P p \<Longrightarrow> dpID (f p) = dpID p \<and> lifecycle p (f p)"
  shows "advances d (d\<lparr>device_pairings := update_where P f (device_pairings d)\<rparr>) x"
proof -
  have "map dpID (update_where P f (device_pairings d)) = map dpID (device_pairings d)"
    using assms(2) by (simp add: map_update_where)
  then have "pairings_wf (d\<lparr>device_pairings := update_where P f (device_pairings d)\<rparr>)"
    using assms(1) by (simp add: pairings_wf_def)
  then show ?thesis using assms(2) by (fastforce simp: advances_def)
qed

lemma advances_delete:
  "pairings_wf d \<Longrightarrow> advances d (d\<lparr>device_pairings := delete_where P (device_pairings d)\<rparr>) x"
  by (auto simp: advances_def pairings_wf_def distinct_map_delete_where)

lemma update_pairings_advances:
  assumes "\<And>p. P p \<Longrightarrow> dpID (f p) = dpID p \<and> lifecycle p (f p)"
  shows "hoare (\<lambda>d. d = d0 \<and> pairings_wf d) (update_pairings P f) (\<lambda>_ d. advances d0 d x)"
  unfolding update_pairings_def by (rule fwd_exec) (auto simp: advances_refl advances_update assms)

lemma classify_keeps:
  "hoare (\<lambda>d. advances d0 d x) (DevicePairings_classifyByID n i) (\<lambda>_ d. advances d0 d x)"
  "hoare (\<lambda>d. advances d0 d x) (DevicePairings_classifyByOwner n ow i) (\<lambda>_ d. advances d0 d x)"
  "hoare (\<lambda>d. advances d0 d x) (requireAffected n) (\<lambda>_ d. advances d0 d x)"
  unfolding DevicePairings_classifyByID_def DevicePairings_classifyByOwner_def requireAffected_def
  by (rule hoare_pre, (rule wp)+, simp split: sum.splits)+

lemma stmt_advances: "hoare (\<lambda>d. d = d0 \<and> pairings_wf d) (stmt x) (\<lambda>_ d. advances d0 d x)"
proof -
  have step: "hoare (\<lambda>d. d = d0 \<and> pairings_wf d) (attempt (update_pairings P f) k) (\<lambda>_ d. advances d0 d x)"
    if "\<And>p. P p \<Longrightarrow> dpID (f p) = dpID p \<and> lifecycle p (f p)"
      and "\<And>n. hoare (\<lambda>d. advances d0 d x) (k n) (\<lambda>_ d. advances d0 d x)" for P f and k :: "nat \<Rightarrow> unit conn"
    by (rule fwd_attempt [where R = "\<lambda>_ d. advances d0 d x"])
      (auto intro!: that(2) hoare_post [OF update_pairings_advances [OF that(1)]] split: sum.splits)
  show ?thesis
  proof (cases x)
    case (S_Create p)
    have "advances d (d\<lparr>device_pairings := device_pairings d @ [p]\<rparr>) x"
      if "pairings_wf d" "\<not> list_ex (\<lambda>r. dpID r = dpID p) (device_pairings d)" for d
      using that S_Create by (auto simp: advances_def pairings_wf_def list_ex_iff)
    then show ?thesis unfolding S_Create stmt.simps DevicePairings_Create_def
      by (intro fwd_exec) (auto simp: advances_refl S_Create)
  next
    case (S_Approve i ow now)
    show ?thesis unfolding S_Approve stmt.simps DevicePairings_Approve_def
      by (rule step [unfolded S_Approve]) (auto intro: lifecycle.approve classify_keeps)
  next
    case (S_MarkRedeemed ow i lin now)
    show ?thesis unfolding S_MarkRedeemed stmt.simps DevicePairings_MarkRedeemed_def
      by (rule step [unfolded S_MarkRedeemed]) (auto simp: owned_by_def intro: lifecycle.redeem classify_keeps)
  next
    case (S_Revoke ow i now)
    show ?thesis unfolding S_Revoke stmt.simps DevicePairings_Revoke_def
      by (rule step [unfolded S_Revoke]) (auto intro: lifecycle.revoke classify_keeps)
  next
    case (S_Touch i t)
    show ?thesis unfolding S_Touch stmt.simps DevicePairings_Touch_def
      by (rule step [unfolded S_Touch]) (auto intro: lifecycle.poll classify_keeps)
  next
    case (S_DeleteExpired cutoff limit)
    show ?thesis unfolding S_DeleteExpired stmt.simps DevicePairings_DeleteExpired_def Let_def
      by (rule hoare_pre, (rule wp)+) (auto simp: advances_refl advances_delete)
  qed
qed

lemma run_advances:
  assumes "pairings_wf (data s)" and "q \<in> set (device_pairings (data (run_stmts xs s)))"
    and "\<forall>r. S_Create r \<in> set xs \<longrightarrow> dpID r \<noteq> dpID q"
  shows "\<exists>p \<in> set (device_pairings (data s)). dpID p = dpID q \<and> lifecycle\<^sup>*\<^sup>* p q"
  using assms
proof (induction xs arbitrary: s)
  case Nil
  then show ?case by auto
next
  case (Cons x xs)
  let ?s = "snd (run_state (stmt x) s)"
  have adv: "advances (data s) (data ?s) x"
    using run_hoare [OF stmt_advances, of s "data s" x] Cons.prems(1) by simp
  then have "pairings_wf (data ?s)" by (simp add: advances_def)
  then obtain p1 where p1: "p1 \<in> set (device_pairings (data ?s))" "dpID p1 = dpID q" "lifecycle\<^sup>*\<^sup>* p1 q"
    using Cons.IH [of ?s] Cons.prems(2,3) by (auto simp del: stmt.simps)
  have "(\<exists>p \<in> set (device_pairings (data s)). dpID p = dpID p1 \<and> lifecycle\<^sup>=\<^sup>= p p1) \<or> x = S_Create p1"
    using adv p1(1) unfolding advances_def by blast
  moreover have "x \<noteq> S_Create p1" using Cons.prems(3) p1(2) by auto
  ultimately obtain p where p: "p \<in> set (device_pairings (data s))" "dpID p = dpID p1" "lifecycle\<^sup>=\<^sup>= p p1"
    by blast
  from p(3) have "lifecycle\<^sup>*\<^sup>* p p1" by auto
  then have "lifecycle\<^sup>*\<^sup>* p q" using p1(3) by (rule rtranclp_trans)
  then show ?case using p p1(2) by auto
qed

text \<open>What no transition undoes.\<close>

lemma lifecycle_settled:
  assumes "lifecycle\<^sup>*\<^sup>* p q"
  shows "(dpStatus p \<noteq> PairingStatusPending \<longrightarrow> dpStatus q \<noteq> PairingStatusPending \<and> dpOwnerID q = dpOwnerID p)
    \<and> (dpStatus p = PairingStatusRedeemed \<longrightarrow> dpStatus q = PairingStatusRedeemed \<and> dpLineageID q = dpLineageID p)
    \<and> (dpStatus p = PairingStatusRevoked \<longrightarrow> dpStatus q = PairingStatusRevoked)
    \<and> dpScopes q = dpScopes p \<and> dpExpiresAt q = dpExpiresAt p \<and> dpDeviceCodeHash q = dpDeviceCodeHash p"
  using assms
proof induction
  case (step y z)
  from step.hyps(2) show ?case using step.IH by cases auto
qed simp

section \<open>Redemption is single-use\<close>

lemma stmt_wf: "preserves pairings_wf (stmt x)"
  unfolding preserves_def
proof (rule hoare_fix)
  fix d0 assume "pairings_wf d0"
  then show "hoare (\<lambda>d. d = d0) (stmt x) (\<lambda>r. pairings_wf)"
    using hoare_post [OF stmt_advances [of d0 x], of "\<lambda>_. pairings_wf"]
    by (simp add: advances_def hoare_def del: stmt.simps)
qed

lemma stmt_past:
  assumes "\<forall>r. x = S_Create r \<longrightarrow> dpID r \<noteq> i" and "S \<subseteq> {PairingStatusRedeemed, PairingStatusRevoked}"
  shows "preserves (\<lambda>d. pairings_wf d \<and> pairing_past S i d) (stmt x)"
  unfolding preserves_def
proof (rule hoare_fix)
  fix d0 assume d0: "pairings_wf d0 \<and> pairing_past S i d0"
  have settled: "dpStatus q \<in> S" if "lifecycle\<^sup>=\<^sup>= p q" "dpStatus p \<in> S" for p q
  proof -
    have "lifecycle\<^sup>*\<^sup>* p q" using that(1) by auto
    then show ?thesis using that(2) assms(2) lifecycle_settled [of p q] by auto
  qed
  have "hoare (\<lambda>d. d = d0 \<and> pairings_wf d) (stmt x) (\<lambda>_ d. pairings_wf d \<and> pairing_past S i d)"
  proof (rule hoare_post [OF stmt_advances])
    fix r d assume adv: "advances d0 d x"
    have "dpStatus q \<in> S" if "q \<in> set (device_pairings d)" "dpID q = i" for q
    proof -
      have "(\<exists>p \<in> set (device_pairings d0). dpID p = dpID q \<and> lifecycle\<^sup>=\<^sup>= p q) \<or> x = S_Create q"
        using adv that(1) unfolding advances_def by blast
      moreover have "x \<noteq> S_Create q" using assms(1) that(2) by auto
      ultimately obtain p where "p \<in> set (device_pairings d0)" "dpID p = dpID q" "lifecycle\<^sup>=\<^sup>= p q" by blast
      then show ?thesis using settled d0 that(2) by (simp add: pairing_past_def)
    qed
    then show "pairings_wf d \<and> pairing_past S i d" using adv by (simp add: advances_def pairing_past_def)
  qed
  then show "hoare (\<lambda>d. d = d0) (stmt x) (\<lambda>r d. pairings_wf d \<and> pairing_past S i d)"
    using d0 by (simp add: hoare_def del: stmt.simps)
qed

abbreviation closed_pairing :: "PairingID \<Rightarrow> db \<Rightarrow> bool" where
  "closed_pairing i d \<equiv> pairings_wf d \<and> pairing_past {PairingStatusRedeemed, PairingStatusRevoked} i d"

interpretation redemption: single_use "\<lambda>(ow, lin, now). DevicePairings_MarkRedeemed ow i lin now" pairings_wf "closed_pairing i"
  for i
proof unfold_locales
  fix a :: "OwnerID \<times> LineageID \<times> time"
  obtain ow lin now where a: "a = (ow, lin, now)" by (cases a)
  have as_stmt: "DevicePairings_MarkRedeemed ow i lin now = stmt (S_MarkRedeemed ow i lin now)" by simp
  show "preserves pairings_wf (case a of (ow, lin, now) \<Rightarrow> DevicePairings_MarkRedeemed ow i lin now)"
    unfolding a prod.case as_stmt by (rule stmt_wf)
  have "hoare pairings_wf (DevicePairings_MarkRedeemed ow i lin now)
      (\<lambda>r d. r = Inr () \<longrightarrow> pairing_past {PairingStatusRedeemed, PairingStatusRevoked} i d)"
  proof -
    have past: "pairing_past {PairingStatusRedeemed, PairingStatusRevoked} i
        (d\<lparr>device_pairings := update_where (\<lambda>r. dpID r = i \<and> owned_by ow r \<and> dpStatus r = PairingStatusApproved)
           (\<lambda>r. r\<lparr>dpStatus := PairingStatusRedeemed, dpLineageID := lin, dpRedeemedAt := Some now\<rparr>) (device_pairings d)\<rparr>)"
      if wf: "pairings_wf d" and pos: "0 < count_where (\<lambda>r. dpID r = i \<and> owned_by ow r \<and> dpStatus r = PairingStatusApproved) (device_pairings d)"
      for d
    proof -
      obtain p where p: "p \<in> set (device_pairings d)" "dpID p = i" "owned_by ow p" "dpStatus p = PairingStatusApproved"
        using pos unfolding count_where_pos by blast
      then have "q = p" if "q \<in> set (device_pairings d)" "dpID q = i" for q
        using wf that key_unique [of dpID "device_pairings d" q p] by (simp add: pairings_wf_def)
      then show ?thesis using p(3,4) by (auto simp: pairing_past_def)
    qed
    show ?thesis
      unfolding DevicePairings_MarkRedeemed_def DevicePairings_classifyByOwner_def update_pairings_def
      by (rule hoare_pre, (rule wp)+) (auto simp: past split: sum.splits)
  qed
  then show "hoare pairings_wf (case a of (ow, lin, now) \<Rightarrow> DevicePairings_MarkRedeemed ow i lin now)
      (\<lambda>r d. r = Inr () \<longrightarrow> closed_pairing i d)"
    unfolding a prod.case
    using stmt_wf [of "S_MarkRedeemed ow i lin now"] by (simp add: preserves_def hoare_def split_beta)
  have none: "count_where (\<lambda>r. dpID r = i \<and> owned_by ow r \<and> dpStatus r = PairingStatusApproved) (device_pairings d) = 0"
    if "pairing_past {PairingStatusRedeemed, PairingStatusRevoked} i d" for d
  proof -
    have "\<not> (\<exists>p \<in> set (device_pairings d). dpID p = i \<and> owned_by ow p \<and> dpStatus p = PairingStatusApproved)"
      using that by (auto simp: pairing_past_def)
    then show ?thesis using count_where_pos [of _ "device_pairings d"] by blast
  qed
  have "hoare (closed_pairing i) (DevicePairings_MarkRedeemed ow i lin now) (\<lambda>r d. r \<noteq> Inr ())"
    unfolding DevicePairings_MarkRedeemed_def DevicePairings_classifyByOwner_def update_pairings_def
    by (rule hoare_pre, (rule wp)+) (simp add: none split: sum.splits)
  then show "hoare (closed_pairing i) (case a of (ow, lin, now) \<Rightarrow> DevicePairings_MarkRedeemed ow i lin now)
      (\<lambda>r d. r \<noteq> Inr () \<and> closed_pairing i d)"
    unfolding a prod.case
    using stmt_past [of "S_MarkRedeemed ow i lin now" i "{PairingStatusRedeemed, PairingStatusRevoked}"]
    by (simp add: preserves_def hoare_def split_beta)
qed

text \<open>The successful redemptions of one pairing in a sequence of statements.\<close>

fun redemptions :: "PairingID \<Rightarrow> pairing_stmt list \<Rightarrow> session \<Rightarrow> nat" where
  "redemptions i [] s = 0"
| "redemptions i (x # xs) s =
     (case run_state (stmt x) s of (r, s') \<Rightarrow>
        (case x of S_MarkRedeemed _ j _ _ \<Rightarrow> if j = i \<and> r = Inr () then 1 else 0 | _ \<Rightarrow> 0) + redemptions i xs s')"

fun as_event :: "PairingID \<Rightarrow> pairing_stmt \<Rightarrow> (OwnerID \<times> LineageID \<times> time) event" where
  "as_event i (S_MarkRedeemed ow j lin now) =
     (if j = i then Attempt (ow, lin, now) else Other (stmt (S_MarkRedeemed ow j lin now)))"
| "as_event i x = Other (stmt x)"

lemma redemptions_events:
  "redemptions i xs s = run_events (\<lambda>(ow, lin, now). DevicePairings_MarkRedeemed ow i lin now) (map (as_event i) xs) s"
proof (induction xs arbitrary: s)
  case (Cons x xs)
  then show ?case by (cases x) (simp_all add: split_beta)
qed simp

lemma as_event_harmless:
  assumes "\<forall>r. x = S_Create r \<longrightarrow> dpID r \<noteq> i"
  shows "redemption.harmless i (as_event i x)"
proof -
  have "redemption.harmless i (Other (stmt x))"
    using stmt_wf stmt_past [OF assms subset_refl] by (simp add: redemption.harmless_def del: stmt.simps)
  moreover have "as_event i x = Other (stmt x) \<or> (\<exists>a. as_event i x = Attempt a)" by (cases x) auto
  ultimately show ?thesis by (auto simp: redemption.harmless_def)
qed

section \<open>An enrollment on a working database\<close>

abbreviation pending :: "Scope list \<Rightarrow> string \<Rightarrow> time \<Rightarrow> pairing_draws \<Rightarrow> DevicePairing" where
  "pending scopes label t rnd \<equiv>
     new_pairing [] (hashUserCode (snd (newUserCode (prCode rnd)))) scopes label PairingStatusPending None t rnd"

abbreviation approved :: "OwnerID \<Rightarrow> time \<Rightarrow> DevicePairing \<Rightarrow> DevicePairing" where
  "approved ow t p \<equiv> p\<lparr>dpStatus := PairingStatusApproved, dpOwnerID := ow, dpApprovedAt := Some t\<rparr>"

abbreviation redeemed :: "LineageID \<Rightarrow> time \<Rightarrow> DevicePairing \<Rightarrow> DevicePairing" where
  "redeemed lin t p \<equiv> p\<lparr>dpStatus := PairingStatusRedeemed, dpLineageID := lin, dpRedeemedAt := Some t\<rparr>"

abbreviation linked :: "PairingID \<Rightarrow> OwnerID \<Rightarrow> time \<Rightarrow> LinkedIdentity" where
  "linked pid ow t \<equiv> \<lparr>liID = pid, liOwnerID = ow, liProvider = APITokenProviderID, liSubject = pid, liEmail = None,
     liCreatedAt = t, liUpdatedAt = t\<rparr>"

lemma new_pairing_sel [simp]:
  "dpID (new_pairing ow h scopes label st a t rnd) = newPairingID (prID rnd)"
  "dpOwnerID (new_pairing ow h scopes label st a t rnd) = ow"
  "dpDeviceCodeHash (new_pairing ow h scopes label st a t rnd) = hashDeviceSecret (prSecret rnd)"
  "dpUserCodeHash (new_pairing ow h scopes label st a t rnd) = h"
  "dpClientLabel (new_pairing ow h scopes label st a t rnd) = label"
  "dpScopes (new_pairing ow h scopes label st a t rnd) = scopes"
  "dpStatus (new_pairing ow h scopes label st a t rnd) = st"
  "dpExpiresAt (new_pairing ow h scopes label st a t rnd) = t + PairingLifetime"
  by (simp_all add: new_pairing_def)

lemma start_ok:
  assumes "faults s = []" and "ValidateScopes scopes = Inr ()" and "validateClientLabel label = Inr ()"
    and "\<forall>r \<in> set (device_pairings (data s)). dpID r \<noteq> newPairingID (prID rnd)"
  shows "run_state (StartDeviceGrant label scopes t rnd) s =
    (Inr \<lparr>gPairingID = newPairingID (prID rnd), gDeviceCode = formatDeviceCode (newPairingID (prID rnd)) (prSecret rnd),
          gUserCode = fst (newUserCode (prCode rnd)), gExpiresAt = t + PairingLifetime, gPollInterval = PairingPollInterval\<rparr>,
     s\<lparr>data := (data s)\<lparr>device_pairings := device_pairings (data s) @ [pending scopes label t rnd]\<rparr>\<rparr>)"
  using assms
  by (auto simp: StartDeviceGrant_def create_pairing_def DevicePairings_Create_def working list_ex_iff split_beta)

lemma hashUserCode_nonempty [simp]: "hashUserCode c \<noteq> []"
  unfolding hashUserCode_def using length_Sum256 by (metis list.size(3) zero_neq_numeral)

lemma approve_ok:
  assumes "faults s = []" and "device_pairings (data s) = rows @ [p]"
    and "\<forall>r \<in> set rows. dpID r \<noteq> dpID p" and "\<forall>r \<in> set rows. dpUserCodeHash r \<noteq> dpUserCodeHash p"
    and "normalizeUserCode code = Inr c" and "dpUserCodeHash p = hashUserCode c"
    and "dpStatus p = PairingStatusPending" and "t < dpExpiresAt p"
    and "owner_exists ow (data s)" and "\<forall>r \<in> set (linked_identities (data s)). liID r \<noteq> dpID p \<and> liSubject r \<noteq> dpID p"
  shows "run_state (approve_code ow code t) s = (Inr (),
    s\<lparr>data := (data s)\<lparr>device_pairings := rows @ [approved ow t p],
        linked_identities := linked_identities (data s) @ [linked (dpID p) ow t]\<rparr>\<rparr>)"
proof -
  have "find (\<lambda>r. dpUserCodeHash r = hashUserCode c) (rows @ [p]) = Some p"
    using assms(4,6) by (simp add: find_snoc)
  moreover have "count_where (\<lambda>r. dpID r = dpID p \<and> dpStatus r = PairingStatusPending) rows = 0"
    "update_where (\<lambda>r. dpID r = dpID p \<and> dpStatus r = PairingStatusPending) f rows = rows" for f
    using assms(3) by (simp_all add: update_where_none)
  moreover have "\<not> list_ex (\<lambda>r. liID r = dpID p \<or> liProvider r = APITokenProviderID \<and> liSubject r = dpID p)
      (linked_identities (data s))" using assms(10) by (auto simp: list_ex_iff)
  moreover have "owner_exists ow (data s\<lparr>device_pairings := x\<rparr>)" for x using assms(9) by (simp add: owner_exists_def)
  ultimately show ?thesis using assms(1,2,5,7,8)
    by (simp add: approve_code_def DevicePairings_GetByUserCodeHash_def DevicePairings_Approve_def update_pairings_def
        DevicePairings_classifyByID_def link_def LinkedIdentities_Create_def found_def working)
qed

lemma issued_principal:
  assumes "length rnd = credentialIDBytes"
  shows "Principal_Validate (RawURL_Encode rnd) = Inr ()"
proof -
  have "\<forall>c \<in> set url_alphabet. byte c < 128 \<and> c \<noteq> nul" by code_simp
  then have ascii: "\<forall>c \<in> set (RawURL_Encode rnd). byte c < 128" and "nul \<notin> set (RawURL_Encode rnd)"
    using set_RawURL_Encode by blast+
  moreover have "length (RawURL_Encode rnd) = 22"
    using issued_id_chars [OF assms] by (simp add: credentialIDChars_def)
  moreover from this have "RawURL_Encode rnd \<noteq> []" by fastforce
  moreover have "ValidString (RawURL_Encode rnd)" by (rule ValidString_ascii [OF ascii])
  ultimately show ?thesis by (simp add: Principal_Validate_def MaxPrincipalLen_def)
qed

lemma api_token_id: "ProviderID_Validate APITokenProviderID = Inr ()"
  by code_simp

lemma api_token_registry: "NewRegistry [APITokenProvider t] = Inr [(APITokenProviderID, APITokenProvider t)]"
  by (simp add: NewRegistry_def APITokenProvider_def api_token_id)

text \<open>What a device code must find to authenticate its pairing for an owner.\<close>

definition redeemable :: "PairingID \<Rightarrow> bytes \<Rightarrow> time \<Rightarrow> DevicePairing \<Rightarrow> OwnerID \<Rightarrow> db \<Rightarrow> bool" where
  "redeemable pid secret now p ow d \<longleftrightarrow>
     find (\<lambda>r. dpID r = pid) (device_pairings d) = Some p \<and> deviceSecretMatches (dpDeviceCodeHash p) secret
     \<and> dpStatus p = PairingStatusApproved \<and> dpOwnerID p = ow \<and> ow \<noteq> [] \<and> now < dpExpiresAt p
     \<and> Principal_Validate pid = Inr ()
     \<and> (\<exists>li. find (\<lambda>r. liProvider r = APITokenProviderID \<and> liSubject r = pid) (linked_identities d) = Some li \<and> liOwnerID li = ow)
     \<and> (\<exists>o'. find (\<lambda>r. oID r = ow) (owners d) = Some o' \<and> oStatus o' = OwnerStatusActive \<and> oDeletedAt o' = None)"

lemma authenticate_ok:
  assumes "faults s = []" and "parseDeviceCode code = Inr (pid, secret)" and "redeemable pid secret now p ow (data s)"
  shows "run_state (Authenticator_Authenticate [(APITokenProviderID, APITokenProvider now)] APITokenProviderID code) s = (Inr ow, s)"
proof -
  have p: "find (\<lambda>r. dpID r = pid) (device_pairings (data s)) = Some p" "deviceSecretMatches (dpDeviceCodeHash p) secret"
    "dpStatus p = PairingStatusApproved" "dpOwnerID p = ow" "ow \<noteq> []" "now < dpExpiresAt p" "Principal_Validate pid = Inr ()"
    using assms(3) by (simp_all add: redeemable_def)
  then have pid: "dpID p = pid" by (simp add: find_Some_iff) metis
  have "run_state (APIToken_Authenticate now code) s = (Inr \<lparr>idProvider = APITokenProviderID, idPrincipal = pid\<rparr>, s)"
    using p pid assms(1,2) by (simp add: APIToken_Authenticate_def DevicePairings_GetByID_def found_def working)
  moreover have "run_state (Authenticator_resolve \<lparr>idProvider = APITokenProviderID, idPrincipal = pid\<rparr>) s = (Inr ow, s)"
  proof -
    obtain li where li: "find (\<lambda>r. liProvider r = APITokenProviderID \<and> liSubject r = pid) (linked_identities (data s)) = Some li"
      "liOwnerID li = ow" using assms(3) by (auto simp: redeemable_def)
    then have "liProvider li = APITokenProviderID" "liSubject li = pid" by (auto simp: find_Some_iff)
    moreover obtain o' where o': "find (\<lambda>r. oID r = ow) (owners (data s)) = Some o'" "oStatus o' = OwnerStatusActive" "oDeletedAt o' = None"
      using assms(3) by (auto simp: redeemable_def)
    moreover from o'(1) have "oID o' = ow" by (auto simp: find_Some_iff)
    ultimately show ?thesis using li p(5) assms(1)
      by (simp add: Authenticator_resolve_def LinkedIdentities_GetByProviderSubject_def Owners_Get_def found_def working)
  qed
  ultimately show ?thesis
    using p(7) by (simp add: Authenticator_Authenticate_def Registry_Lookup_def api_token_id APITokenProvider_def Identity_Validate_def)
qed

lemma redeem_ok:
  assumes "faults s = []" and "parseDeviceCode code = Inr (pid, secret)" and "redeemable pid secret now p ow (data s)"
    and "device_pairings (data s) = rows @ [p]" and "\<forall>r \<in> set rows. dpID r \<noteq> dpID p"
    and "ValidateScopes (dpScopes p) = Inr ()" and "validateClientLabel (dpClientLabel p) = Inr ()"
    and "drawn rnd \<notin> rcID ` set (refresh_credentials (data s))" and "rndID rnd \<noteq> []" and "rndJTI rnd \<noteq> []"
  shows "\<exists>iss. Redeem J S signer [(APITokenProviderID, APITokenProvider now)] cancelled code now rnd (s, st) =
      (Inr iss, (s\<lparr>data := (data s)
        \<lparr>refresh_credentials := refresh_credentials (data s) @ [first_credential ow (dpScopes p) (dpClientLabel p) now rnd],
         device_pairings := rows @ [redeemed (drawn rnd) now p]\<rparr>\<rparr>, st))
    \<and> iOwnerID iss = ow \<and> iScopes iss = dpScopes p \<and> iLineageID iss = drawn rnd"
proof -
  let ?cred = "first_credential ow (dpScopes p) (dpClientLabel p) now rnd"
  let ?s = "s\<lparr>data := (data s)\<lparr>refresh_credentials := refresh_credentials (data s) @ [?cred]\<rparr>\<rparr>"
  have p: "find (\<lambda>r. dpID r = pid) (device_pairings (data s)) = Some p" "dpStatus p = PairingStatusApproved"
    "dpOwnerID p = ow" "ow \<noteq> []" using assms(3) by (simp_all add: redeemable_def)
  from p(1) have pid: "dpID p = pid" by (auto simp: find_Some_iff)
  have own: "owner_exists ow (data s)"
    using assms(3) by (auto simp: redeemable_def owner_exists_def list_ex_iff find_Some_iff)
  have owned: "find (\<lambda>r. dpID r = pid \<and> owned_by ow r) (rows @ [p]) = Some p"
    using assms(5) p(3,4) pid by (simp add: find_snoc owned_by_def)
  obtain iss where iss: "mint J signer ?cred (rndSecret rnd) (rndJTI rnd) now = Inr iss"
    using mint_ok [of ?cred "rndJTI rnd" J signer "rndSecret rnd" now] assms(6,9,10) p(4)
    by (auto simp: first_credential_def newCredentialID_def RawURL_Encode_nonempty)
  have fresh: "\<not> list_ex (\<lambda>r. rcID r = rcID ?cred) (refresh_credentials (data s))"
    using assms(8) by (auto simp: list_ex_iff first_credential_def drawn_def image_iff)
  have "run_state (TokenService_Issue J signer ow (dpScopes p) (dpClientLabel p) now rnd) s = (Inr iss, ?s)"
    using assms(1,6,7) p(4) own fresh iss
    by (simp add: TokenService_Issue_def RefreshCredentials_Create_def Let_def working) (simp add: first_credential_def)
  then have issue: "run_state (redeem_issue J signer [(APITokenProviderID, APITokenProvider now)] pid code now rnd) s = (Inr (ow, iss), ?s)"
    using authenticate_ok [OF assms(1-3)] owned p(3) pid assms(1,4,6)
    by (simp add: redeem_issue_def DevicePairings_Get_def found_def working)
  have iss_sel: "iOwnerID iss = ow" "iScopes iss = dpScopes p" "iLineageID iss = drawn rnd"
    using mint_Inr [OF iss] by (simp_all add: first_credential_def drawn_def)
  have "run_state (DevicePairings_MarkRedeemed ow pid (drawn rnd) now) ?s = (Inr (),
      s\<lparr>data := (data s)\<lparr>refresh_credentials := refresh_credentials (data s) @ [?cred],
        device_pairings := rows @ [redeemed (drawn rnd) now p]\<rparr>\<rparr>)"
    using assms(1,4,5) p pid
    by (simp add: DevicePairings_MarkRedeemed_def update_pairings_def DevicePairings_classifyByOwner_def working
        update_where_none owned_by_def)
  then show ?thesis using issue assms(2) iss_sel by (simp add: Redeem_def)
qed

lemma enrollment_runs:
  assumes "faults s = []" and "ValidateScopes scopes = Inr ()" and "validateClientLabel label = Inr ()"
    and "length (prID rnd) = credentialIDBytes" and "length (prSecret rnd) = 32" and "length (prCode rnd) = userCodeLen"
    and "\<forall>r \<in> set (device_pairings (data s)). dpID r \<noteq> newPairingID (prID rnd)
          \<and> dpUserCodeHash r \<noteq> hashUserCode (snd (newUserCode (prCode rnd)))"
    and "\<forall>r \<in> set (linked_identities (data s)). liID r \<noteq> newPairingID (prID rnd) \<and> liSubject r \<noteq> newPairingID (prID rnd)"
    and "find (\<lambda>r. oID r = ow) (owners (data s)) = Some own" and "oStatus own = OwnerStatusActive" and "oDeletedAt own = None"
    and "ow \<noteq> []" and "t1 < t0 + PairingLifetime" and "t2 < t0 + PairingLifetime"
    and "checkApprovalLimit S c1 t1 ow st = (Inr (), st1)"
    and "drawn tok \<notin> rcID ` set (refresh_credentials (data s))" and "rndID tok \<noteq> []" and "rndJTI tok \<noteq> []"
    and "NewRegistry [APITokenProvider t2] = Inr reg"
  shows "\<exists>grant s1 s2 iss s3. run_state (StartDeviceGrant label scopes t0 rnd) s = (Inr grant, s1)
    \<and> Approve S c1 ow (gUserCode grant) t1 (s1, st) = (Inr (), (s2, st1))
    \<and> Redeem J S signer reg c2 (gDeviceCode grant) t2 tok (s2, st1) = (Inr iss, (s3, st1))
    \<and> iOwnerID iss = ow \<and> iScopes iss = scopes
    \<and> refresh_credentials (data s3) = refresh_credentials (data s) @ [first_credential ow scopes label t2 tok]
    \<and> map dpStatus (device_pairings (data s3)) = map dpStatus (device_pairings (data s)) @ [PairingStatusRedeemed]"
proof -
  let ?pid = "newPairingID (prID rnd)" and ?p = "pending scopes label t0 rnd" and ?d = "data s"
  let ?q = "approved ow t1 ?p"
  let ?s1 = "s\<lparr>data := ?d\<lparr>device_pairings := device_pairings ?d @ [?p]\<rparr>\<rparr>"
  let ?s2 = "s\<lparr>data := ?d\<lparr>device_pairings := device_pairings ?d @ [?q],
      linked_identities := linked_identities ?d @ [linked ?pid ow t1]\<rparr>\<rparr>"
  note start = start_ok [OF assms(1,2,3), of rnd t0]
  have own: "owner_exists ow (data ?s1)"
    using assms(9) by (auto simp: owner_exists_def list_ex_iff find_Some_iff)
  have "run_state (approve_code ow (fst (newUserCode (prCode rnd))) t1) ?s1 = (Inr (), ?s2)"
    using approve_ok [of ?s1 "device_pairings ?d" ?p _ _ t1 ow, OF _ _ _ _ normalize_newUserCode [OF assms(6)] _ _ _ own]
      assms(1,7,8,13) by simp
  then have appr: "Approve S c1 ow (fst (newUserCode (prCode rnd))) t1 (?s1, st) = (Inr (), (?s2, st1))"
    using assms(12,15) by (simp add: Approve_def)
  have parse: "parseDeviceCode (formatDeviceCode ?pid (prSecret rnd)) = Inr (?pid, prSecret rnd)"
    using device.parse_fmt [OF assms(4,5)] by (simp add: newPairingID_def)
  have able: "redeemable ?pid (prSecret rnd) t2 ?q ow (data ?s2)"
    unfolding redeemable_def using assms(7-12,14) issued_principal [OF assms(4)]
    by (simp add: find_snoc deviceSecretMatches_def newPairingID_def)
  have "\<exists>iss. Redeem J S signer [(APITokenProviderID, APITokenProvider t2)] c2 (formatDeviceCode ?pid (prSecret rnd)) t2 tok (?s2, st1) =
      (Inr iss, (?s2\<lparr>data := (data ?s2)
        \<lparr>refresh_credentials := refresh_credentials (data ?s2) @ [first_credential ow (dpScopes ?q) (dpClientLabel ?q) t2 tok],
         device_pairings := device_pairings ?d @ [redeemed (drawn tok) t2 ?q]\<rparr>\<rparr>, st1))
    \<and> iOwnerID iss = ow \<and> iScopes iss = dpScopes ?q \<and> iLineageID iss = drawn tok"
    by (rule redeem_ok [OF _ parse able]) (use assms(1,2,3,7,16-18) in simp_all)
  then obtain iss where "Redeem J S signer reg c2 (formatDeviceCode ?pid (prSecret rnd)) t2 tok (?s2, st1) =
      (Inr iss, (?s2\<lparr>data := (data ?s2)
        \<lparr>refresh_credentials := refresh_credentials ?d @ [first_credential ow scopes label t2 tok],
         device_pairings := device_pairings ?d @ [redeemed (drawn tok) t2 ?q]\<rparr>\<rparr>, st1))"
    "iOwnerID iss = ow" "iScopes iss = scopes"
    using assms(19) by (auto simp: api_token_registry)
  then show ?thesis using start appr assms(7) by simp
qed

lemma revoke_redeemed_refused:
  assumes "faults s = []" and "pairings_wf (data s)" and "p \<in> set (device_pairings (data s))"
    and "dpStatus p = PairingStatusRedeemed" and "dpID p \<noteq> []" and "dpOwnerID p \<noteq> []"
  shows "Enrollment_Revoke S cancelled (dpOwnerID p) (dpID p) now (s, st) = (Inl ErrConflict, (s, st))"
proof -
  have only: "q = p" if "q \<in> set (device_pairings (data s))" "dpID q = dpID p" for q
    using that assms(2,3) key_unique [of dpID "device_pairings (data s)" q p] by (simp add: pairings_wf_def)
  have "find (\<lambda>r. dpID r = dpID p \<and> owned_by (dpOwnerID p) r) (device_pairings (data s)) \<noteq> None"
    using assms(3,6) by (auto simp: find_None_iff owned_by_def)
  then obtain q where q: "find (\<lambda>r. dpID r = dpID p \<and> owned_by (dpOwnerID p) r) (device_pairings (data s)) = Some q" by auto
  then have "q \<in> set (device_pairings (data s))" "dpID q = dpID p"
    by (metis (mono_tags, lifting) find_Some_iff nth_mem)+
  with only have "q = p" by simp
  moreover have none: "\<forall>r \<in> set (device_pairings (data s)). \<not> (dpID r = dpID p \<and> owned_by (dpOwnerID p) r
      \<and> dpStatus r \<in> {PairingStatusPending, PairingStatusApproved})"
  proof (intro ballI notI)
    fix r assume "r \<in> set (device_pairings (data s))"
      and r: "dpID r = dpID p \<and> owned_by (dpOwnerID p) r \<and> dpStatus r \<in> {PairingStatusPending, PairingStatusApproved}"
    then have "r = p" using only by blast
    with r show False using assms(4) by simp
  qed
  ultimately show ?thesis using assms(1,5,6) q
    update_where_none [OF none, of "\<lambda>r. r\<lparr>dpStatus := PairingStatusRevoked, dpRevokedAt := Some now\<rparr>"]
    by (simp add: Enrollment_Revoke_def DevicePairings_Get_def DevicePairings_Revoke_def update_pairings_def
        DevicePairings_classifyByOwner_def found_def working count_where_def filter_False [OF none])
qed

section \<open>Properties\<close>

text \<open>
  C18: enrollment works end to end. On a working database, a grant started with valid scopes can be
  approved by a usable owner with the code on the screen and then redeemed with the device code, both
  before it expires: the redemption issues a credential for the approving owner with exactly the scopes
  that were requested, adds that one credential and closes the pairing.
\<close>

theorem enrollment_completes:
  assumes "faults s = []" and "ValidateScopes scopes = Inr ()" and "validateClientLabel label = Inr ()"
    and "length (prID rnd) = credentialIDBytes" and "length (prSecret rnd) = 32" and "length (prCode rnd) = userCodeLen"
    and "\<forall>r \<in> set (device_pairings (data s)). dpID r \<noteq> newPairingID (prID rnd)
          \<and> dpUserCodeHash r \<noteq> hashUserCode (snd (newUserCode (prCode rnd)))"
    and "\<forall>r \<in> set (linked_identities (data s)). liID r \<noteq> newPairingID (prID rnd) \<and> liSubject r \<noteq> newPairingID (prID rnd)"
    and "find (\<lambda>r. oID r = ow) (owners (data s)) = Some own" and "oStatus own = OwnerStatusActive" and "oDeletedAt own = None"
    and "ow \<noteq> []" and "t1 < t0 + PairingLifetime" and "t2 < t0 + PairingLifetime"
    and "checkApprovalLimit S c1 t1 ow st = (Inr (), st1)"
    and "drawn tok \<notin> rcID ` set (refresh_credentials (data s))" and "rndID tok \<noteq> []" and "rndJTI tok \<noteq> []"
    and "NewRegistry [APITokenProvider t2] = Inr reg"
  shows "\<exists>grant s1 s2 iss s3. run_state (StartDeviceGrant label scopes t0 rnd) s = (Inr grant, s1)
    \<and> Approve S c1 ow (gUserCode grant) t1 (s1, st) = (Inr (), (s2, st1))
    \<and> Redeem J S signer reg c2 (gDeviceCode grant) t2 tok (s2, st1) = (Inr iss, (s3, st1))
    \<and> iOwnerID iss = ow \<and> iScopes iss = scopes
    \<and> refresh_credentials (data s3) = refresh_credentials (data s) @ [first_credential ow scopes label t2 tok]
    \<and> map dpStatus (device_pairings (data s3)) = map dpStatus (device_pairings (data s)) @ [PairingStatusRedeemed]"
  using assms by (rule enrollment_runs)

definition sample_pairing_draws :: pairing_draws where
  "sample_pairing_draws = \<lparr>prID = replicate 16 CHR ''p'', prSecret = replicate 32 CHR ''s'', prCode = replicate 8 CHR ''c''\<rparr>"

theorem enrollment_completes_witness:
  "\<exists>grant s1 x2 iss x3. run_state (StartDeviceGrant ''laptop'' [full_owner] 0 sample_pairing_draws) (sample_session []) = (Inr grant, s1)
    \<and> Approve MemoryStore_ops False ''alice'' (gUserCode grant) 1 (s1, NewMemoryStore) = (Inr (), x2)
    \<and> Redeem sample_json MemoryStore_ops \<lparr>asKey = replicate 32 CHR ''k''\<rparr> [(APITokenProviderID, APITokenProvider 2)] False
        (gDeviceCode grant) 2 (sample_draws CHR ''a'') x2 = (Inr iss, x3)
    \<and> iOwnerID iss = ''alice'' \<and> iScopes iss = [full_owner]"
proof -
  have scopes: "ValidateScopes [full_owner] = Inr ()" and label: "validateClientLabel ''laptop'' = Inr ()" by code_simp+
  have "length (approvalKey ''alice'') \<noteq> 0" by (simp add: approvalKey_def length_RawURL_Encode)
  then have "approvalKey ''alice'' \<noteq> []" by auto
  then obtain c st1 where "sIncrement MemoryStore_ops False 1 (approvalKey ''alice'') 1 PairingLifetime NewMemoryStore = (Inr c, st1)"
    "Value c = 1"
    using mem.increment [OF mem_invar_new, of "approvalKey ''alice''" 1 PairingLifetime 1]
    by (auto simp: PairingLifetime_def  zero_count_def wrap64_def)
  then have limit: "checkApprovalLimit MemoryStore_ops False 1 ''alice'' NewMemoryStore = (Inr (), st1)"
    by (simp add: checkApprovalLimit_def MaxApprovalAttempts_def)
  show ?thesis
    using enrollment_completes [OF _ scopes label, of "sample_session []" sample_pairing_draws "''alice''" sample_owner 1 0 2
        MemoryStore_ops False NewMemoryStore st1 "sample_draws CHR ''a''" "[(APITokenProviderID, APITokenProvider 2)]"
        sample_json "\<lparr>asKey = replicate 32 CHR ''k''\<rparr>" False] limit
    by (auto simp: sample_session_def empty_db_def sample_owner_def sample_draws_def sample_pairing_draws_def api_token_registry
        credentialIDBytes_def userCodeLen_def PairingLifetime_def)
qed

text \<open>
  C19: the life of a pairing. Whatever statements run on the table, in any order and with any failures, a
  row only moves forward along the transitions pending to approved or revoked and approved to redeemed
  or revoked: the owner bound by the approval and the scopes, the expiry and the secret never change, and
  a redeemed or revoked pairing stays so, with its lineage.
\<close>

theorem pairing_lifecycle:
  assumes "pairings_wf (data s)" and "p \<in> set (device_pairings (data s))"
    and "q \<in> set (device_pairings (data (run_stmts xs s)))" and "dpID q = dpID p"
    and "\<forall>r. S_Create r \<in> set xs \<longrightarrow> dpID r \<noteq> dpID p"
  shows "lifecycle\<^sup>*\<^sup>* p q
    \<and> (dpStatus p \<noteq> PairingStatusPending \<longrightarrow> dpStatus q \<noteq> PairingStatusPending \<and> dpOwnerID q = dpOwnerID p)
    \<and> (dpStatus p = PairingStatusRedeemed \<longrightarrow> dpStatus q = PairingStatusRedeemed \<and> dpLineageID q = dpLineageID p)
    \<and> (dpStatus p = PairingStatusRevoked \<longrightarrow> dpStatus q = PairingStatusRevoked)
    \<and> dpScopes q = dpScopes p \<and> dpExpiresAt q = dpExpiresAt p \<and> dpDeviceCodeHash q = dpDeviceCodeHash p"
proof -
  obtain p' where p': "p' \<in> set (device_pairings (data s))" "dpID p' = dpID q" "lifecycle\<^sup>*\<^sup>* p' q"
    using run_advances [OF assms(1,3)] assms(4,5) by auto
  then have "p' = p" using assms(1,2,4) key_unique [of dpID "device_pairings (data s)" p' p] by (simp add: pairings_wf_def)
  then show ?thesis using p'(3) lifecycle_settled [OF p'(3)] by simp
qed

abbreviation sample_pairing :: DevicePairing where
  "sample_pairing \<equiv> \<lparr>dpID = ''p'', dpOwnerID = [], dpDeviceCodeHash = ''h'', dpUserCodeHash = ''u'', dpClientLabel = ''laptop'',
     dpScopes = [full_owner], dpStatus = PairingStatusPending, dpLineageID = [], dpNextPollAt = 0, dpCreatedAt = 0,
     dpExpiresAt = 100, dpApprovedAt = None, dpRedeemedAt = None, dpRevokedAt = None\<rparr>"

abbreviation sample_pairings :: "DevicePairing list \<Rightarrow> session" where
  "sample_pairings ps \<equiv> \<lparr>data = empty_db\<lparr>owners := [sample_owner], device_pairings := ps\<rparr>, faults = []\<rparr>"

lemmas pairing_ops = DevicePairings_Approve_def DevicePairings_MarkRedeemed_def DevicePairings_Revoke_def update_pairings_def
  DevicePairings_classifyByID_def DevicePairings_classifyByOwner_def owned_by_def found_def empty_db_def

theorem pairing_lifecycle_witness:
  "device_pairings (data (run_stmts
       [S_MarkRedeemed ''alice'' ''p'' ''lin'' 6, S_Approve ''p'' ''mallory'' 7, S_Revoke ''alice'' ''p'' 8]
       (sample_pairings [sample_pairing\<lparr>dpStatus := PairingStatusApproved, dpOwnerID := ''alice''\<rparr>]))) =
     [redeemed ''lin'' 6 (sample_pairing\<lparr>dpStatus := PairingStatusApproved, dpOwnerID := ''alice''\<rparr>)]
   \<and> lifecycle\<^sup>*\<^sup>* (sample_pairing\<lparr>dpStatus := PairingStatusApproved, dpOwnerID := ''alice''\<rparr>)
     (redeemed ''lin'' 6 (sample_pairing\<lparr>dpStatus := PairingStatusApproved, dpOwnerID := ''alice''\<rparr>))"
  using pairing_lifecycle [of "sample_pairings [sample_pairing\<lparr>dpStatus := PairingStatusApproved, dpOwnerID := ''alice''\<rparr>]"
      "sample_pairing\<lparr>dpStatus := PairingStatusApproved, dpOwnerID := ''alice''\<rparr>"
      "redeemed ''lin'' 6 (sample_pairing\<lparr>dpStatus := PairingStatusApproved, dpOwnerID := ''alice''\<rparr>)"
      "[S_MarkRedeemed ''alice'' ''p'' ''lin'' 6, S_Approve ''p'' ''mallory'' 7, S_Revoke ''alice'' ''p'' 8]"]
  by (simp add: pairing_ops working pairings_wf_def count_where_def)

text \<open>
  C20: a pairing is redeemed at most once. Among the statements that any number of sessions run on the
  table, in any order and with any failures, at most one redemption of a pairing succeeds, whoever
  attempts it and whatever lineage it would record.
\<close>

theorem pairing_redeemed_once:
  assumes "pairings_wf (data s)" and "\<forall>r. S_Create r \<in> set xs \<longrightarrow> dpID r \<noteq> i"
  shows "redemptions i xs s \<le> 1"
proof -
  have "\<forall>e \<in> set (map (as_event i) xs). redemption.harmless i e"
  proof
    fix e assume "e \<in> set (map (as_event i) xs)"
    then obtain x where x: "x \<in> set xs" "e = as_event i x" by auto
    then have "\<forall>r. x = S_Create r \<longrightarrow> dpID r \<noteq> i" using assms(2) by blast
    then show "redemption.harmless i e" unfolding x(2) by (rule as_event_harmless)
  qed
  from redemption.at_most_one [OF this assms(1)] show ?thesis by (simp add: redemptions_events)
qed

theorem pairing_redeemed_once_witness:
  "redemptions ''p'' [S_Approve ''p'' ''alice'' 5, S_MarkRedeemed ''alice'' ''p'' ''l1'' 6, S_MarkRedeemed ''alice'' ''p'' ''l2'' 6]
     (sample_pairings [sample_pairing]) = 1"
proof -
  have "redemptions ''p'' [S_Approve ''p'' ''alice'' 5, S_MarkRedeemed ''alice'' ''p'' ''l1'' 6, S_MarkRedeemed ''alice'' ''p'' ''l2'' 6]
     (sample_pairings [sample_pairing]) \<le> 1"
    by (rule pairing_redeemed_once) (simp_all add: pairings_wf_def empty_db_def)
  moreover have "0 < redemptions ''p'' [S_Approve ''p'' ''alice'' 5, S_MarkRedeemed ''alice'' ''p'' ''l1'' 6, S_MarkRedeemed ''alice'' ''p'' ''l2'' 6]
     (sample_pairings [sample_pairing])"
    by (simp add: pairing_ops working count_where_def)
  ultimately show ?thesis by simp
qed

text \<open>
  C21: revoking a redeemed pairing does not revoke what it issued. For a pairing that was redeemed, the
  owner's revocation is refused as a conflict and changes nothing: the lineage of credentials the pairing
  issued, which the documentation of the operation says it kills, stays as it is.
\<close>

theorem revoke_spares_redeemed:
  assumes "faults s = []" and "pairings_wf (data s)" and "p \<in> set (device_pairings (data s))"
    and "dpStatus p = PairingStatusRedeemed" and "dpID p \<noteq> []" and "dpOwnerID p \<noteq> []"
  shows "Enrollment_Revoke S cancelled (dpOwnerID p) (dpID p) now (s, st) = (Inl ErrConflict, (s, st))"
  using assms by (rule revoke_redeemed_refused)

theorem revoke_spares_redeemed_witness:
  "Enrollment_Revoke MemoryStore_ops False ''alice'' ''p'' 9
     (sample_pairings [sample_pairing\<lparr>dpStatus := PairingStatusRedeemed, dpOwnerID := ''alice'', dpLineageID := ''l1''\<rparr>], NewMemoryStore) =
   (Inl ErrConflict,
     (sample_pairings [sample_pairing\<lparr>dpStatus := PairingStatusRedeemed, dpOwnerID := ''alice'', dpLineageID := ''l1''\<rparr>], NewMemoryStore))"
  using revoke_spares_redeemed [of "sample_pairings [sample_pairing\<lparr>dpStatus := PairingStatusRedeemed, dpOwnerID := ''alice'', dpLineageID := ''l1''\<rparr>]"
      "sample_pairing\<lparr>dpStatus := PairingStatusRedeemed, dpOwnerID := ''alice'', dpLineageID := ''l1''\<rparr>" MemoryStore_ops False 9 NewMemoryStore]
  by (simp add: pairings_wf_def empty_db_def)

end
