(* ===== verification/Key_Repos.thy ===== *)
theory Key_Repos
  imports Auth_Repos
begin

text \<open>
  The repositories of \<^verbatim>\<open>internal/storage/sqlite\<close> behind publishing: devices, public keys, key sets with
  their memberships, and access keys. A statement whose foreign key finds no row, or whose deletion
  would leave a referencing row behind, fails with a driver error; a violated unique index is
  \<open>ErrConflict\<close>. The schema's indexes are partial where the code says so: one default set per owner.
\<close>

section \<open>Devices\<close>

definition Devices_Create :: "Device \<Rightarrow> unit conn" where
  "Devices_Create x = exec (\<lambda>d.
     if list_ex (\<lambda>r. dID r = dID x) (devices d) then Inl ErrConflict
     else if \<not> owner_exists (dOwnerID x) d then Inl ErrStorage
     else Inr ((), d\<lparr>devices := devices d @ [x]\<rparr>))"

definition Devices_Get :: "OwnerID \<Rightarrow> DeviceID \<Rightarrow> Device conn" where
  "Devices_Get ow i = query (\<lambda>d. found (find (\<lambda>r. dID r = i \<and> dOwnerID r = ow) (devices d)))"

definition Devices_ListByOwner :: "OwnerID \<Rightarrow> Device list conn" where
  "Devices_ListByOwner ow = query (\<lambda>d. Inr (sort_key dID (filter (\<lambda>r. dOwnerID r = ow) (devices d))))"

definition update_devices :: "(Device \<Rightarrow> bool) \<Rightarrow> (Device \<Rightarrow> Device) \<Rightarrow> nat conn" where
  "update_devices P f = exec (\<lambda>d.
     Inr (count_where P (devices d), d\<lparr>devices := update_where P f (devices d)\<rparr>))"

definition Devices_Rename :: "OwnerID \<Rightarrow> DeviceID \<Rightarrow> string \<Rightarrow> time \<Rightarrow> unit conn" where
  "Devices_Rename ow i name now =
     attempt (update_devices (\<lambda>r. dID r = i \<and> dOwnerID r = ow) (\<lambda>r. r\<lparr>dName := name, dUpdatedAt := now\<rparr>))
       requireAffected"

definition Devices_Revoke :: "OwnerID \<Rightarrow> DeviceID \<Rightarrow> time \<Rightarrow> unit conn" where
  "Devices_Revoke ow i now =
     attempt
       (update_devices (\<lambda>r. dID r = i \<and> dOwnerID r = ow)
          (\<lambda>r. r\<lparr>dStatus := DeviceStatusRevoked, dRevokedAt := Some now, dUpdatedAt := now\<rparr>))
       requireAffected"

section \<open>Public keys\<close>

definition PublicKeys_Create :: "PublicKey \<Rightarrow> unit conn" where
  "PublicKeys_Create k = exec (\<lambda>d.
     if list_ex (\<lambda>r. pkID r = pkID k \<or> (pkOwnerID r = pkOwnerID k \<and> pkFingerprint r = pkFingerprint k)) (public_keys d)
     then Inl ErrConflict
     else if \<not> owner_exists (pkOwnerID k) d then Inl ErrStorage
     else if \<not> list_ex (\<lambda>r. dID r = pkDeviceID k \<and> dOwnerID r = pkOwnerID k) (devices d) then Inl ErrStorage
     else Inr ((), d\<lparr>public_keys := public_keys d @ [k]\<rparr>))"

definition PublicKeys_Get :: "OwnerID \<Rightarrow> PublicKeyID \<Rightarrow> PublicKey conn" where
  "PublicKeys_Get ow i = query (\<lambda>d. found (find (\<lambda>r. pkID r = i \<and> pkOwnerID r = ow) (public_keys d)))"

definition PublicKeys_ListByOwner :: "OwnerID \<Rightarrow> PublicKey list conn" where
  "PublicKeys_ListByOwner ow =
     query (\<lambda>d. Inr (sort_key pkID (filter (\<lambda>r. pkOwnerID r = ow) (public_keys d))))"

definition PublicKeys_ListByDevice :: "OwnerID \<Rightarrow> DeviceID \<Rightarrow> PublicKey list conn" where
  "PublicKeys_ListByDevice ow dev =
     query (\<lambda>d. Inr (sort_key pkID (filter (\<lambda>r. pkOwnerID r = ow \<and> pkDeviceID r = dev) (public_keys d))))"

definition PublicKeys_GetByFingerprint :: "OwnerID \<Rightarrow> string \<Rightarrow> PublicKey conn" where
  "PublicKeys_GetByFingerprint ow fp =
     query (\<lambda>d. found (find (\<lambda>r. pkOwnerID r = ow \<and> pkFingerprint r = fp) (public_keys d)))"

definition update_keys :: "(PublicKey \<Rightarrow> bool) \<Rightarrow> (PublicKey \<Rightarrow> PublicKey) \<Rightarrow> nat conn" where
  "update_keys P f = exec (\<lambda>d.
     Inr (count_where P (public_keys d), d\<lparr>public_keys := update_where P f (public_keys d)\<rparr>))"

definition PublicKeys_Revoke :: "OwnerID \<Rightarrow> PublicKeyID \<Rightarrow> time \<Rightarrow> unit conn" where
  "PublicKeys_Revoke ow i now =
     attempt
       (update_keys (\<lambda>r. pkID r = i \<and> pkOwnerID r = ow)
          (\<lambda>r. r\<lparr>pkStatus := KeyStatusRevoked, pkRevokedAt := Some now, pkUpdatedAt := now\<rparr>))
       requireAffected"

definition PublicKeys_RevokeByDevice :: "OwnerID \<Rightarrow> DeviceID \<Rightarrow> time \<Rightarrow> nat conn" where
  "PublicKeys_RevokeByDevice ow dev now =
     update_keys (\<lambda>r. pkOwnerID r = ow \<and> pkDeviceID r = dev \<and> pkStatus r = KeyStatusActive)
       (\<lambda>r. r\<lparr>pkStatus := KeyStatusRevoked, pkRevokedAt := Some now, pkUpdatedAt := now\<rparr>)"

text \<open>The join with the memberships of the set; a set and a key have at most one membership.\<close>

definition is_member :: "db \<Rightarrow> KeySetID \<Rightarrow> PublicKeyID \<Rightarrow> bool" where
  "is_member d sid kid \<longleftrightarrow> list_ex (\<lambda>m. mKeySetID m = sid \<and> mPublicKeyID m = kid) (key_set_members d)"

definition PublicKeys_ListActiveByKeySet :: "OwnerID \<Rightarrow> KeySetID \<Rightarrow> PublicKey list conn" where
  "PublicKeys_ListActiveByKeySet ow sid =
     query (\<lambda>d. Inr (sort_key pkID
       (filter (\<lambda>k. pkOwnerID k = ow \<and> is_member d sid (pkID k) \<and> pkStatus k = KeyStatusActive) (public_keys d))))"

section \<open>Key sets\<close>

definition KeySets_Create :: "KeySet \<Rightarrow> unit conn" where
  "KeySets_Create x = exec (\<lambda>d.
     if list_ex (\<lambda>r. ksID r = ksID x \<or> (ksOwnerID r = ksOwnerID x \<and> ksName r = ksName x)
          \<or> (ksOwnerID r = ksOwnerID x \<and> ksIsDefault r \<and> ksIsDefault x)) (key_sets d)
     then Inl ErrConflict
     else if \<not> owner_exists (ksOwnerID x) d then Inl ErrStorage
     else Inr ((), d\<lparr>key_sets := key_sets d @ [x]\<rparr>))"

definition KeySets_Get :: "OwnerID \<Rightarrow> KeySetID \<Rightarrow> KeySet conn" where
  "KeySets_Get ow i = query (\<lambda>d. found (find (\<lambda>r. ksID r = i \<and> ksOwnerID r = ow) (key_sets d)))"

definition KeySets_GetByName :: "OwnerID \<Rightarrow> string \<Rightarrow> KeySet conn" where
  "KeySets_GetByName ow name = query (\<lambda>d. found (find (\<lambda>r. ksOwnerID r = ow \<and> ksName r = name) (key_sets d)))"

definition KeySets_GetDefault :: "OwnerID \<Rightarrow> KeySet conn" where
  "KeySets_GetDefault ow = query (\<lambda>d. found (find (\<lambda>r. ksOwnerID r = ow \<and> ksIsDefault r) (key_sets d)))"

definition KeySets_ListByOwner :: "OwnerID \<Rightarrow> KeySet list conn" where
  "KeySets_ListByOwner ow = query (\<lambda>d. Inr (sort_key ksID (filter (\<lambda>r. ksOwnerID r = ow) (key_sets d))))"

definition KeySets_CountByOwner :: "OwnerID \<Rightarrow> nat conn" where
  "KeySets_CountByOwner ow = query (\<lambda>d. Inr (count_where (\<lambda>r. ksOwnerID r = ow) (key_sets d)))"

definition KeySets_LockOwnerForCreate :: "OwnerID \<Rightarrow> unit conn" where
  "KeySets_LockOwnerForCreate ow = ret ()"

text \<open>An update of the table is refused when it would leave an owner two defaults.\<close>

definition update_sets :: "(KeySet \<Rightarrow> bool) \<Rightarrow> (KeySet \<Rightarrow> KeySet) \<Rightarrow> nat conn" where
  "update_sets P f = exec (\<lambda>d.
     let rows = update_where P f (key_sets d) in
     if \<not> distinct (map ksOwnerID (filter ksIsDefault rows)) then Inl ErrConflict
     else Inr (count_where P (key_sets d), d\<lparr>key_sets := rows\<rparr>))"

definition KeySets_Update :: "KeySet \<Rightarrow> unit conn" where
  "KeySets_Update x =
     attempt
       (update_sets (\<lambda>r. ksID r = ksID x \<and> ksOwnerID r = ksOwnerID x)
          (\<lambda>r. r\<lparr>ksVisibility := ksVisibility x, ksState := ksState x, ksQuarantineUntil := ksQuarantineUntil x,
             ksFlaggedForReview := ksFlaggedForReview x, ksQuarantineOnRelease := ksQuarantineOnRelease x,
             ksUpdatedAt := ksUpdatedAt x\<rparr>))
       requireAffected"

definition KeySets_SetDefault :: "bool \<Rightarrow> OwnerID \<Rightarrow> KeySetID \<Rightarrow> unit conn" where
  "KeySets_SetDefault inTx ow i = withLocalTx inTx
     (attempt (update_sets (\<lambda>r. ksOwnerID r = ow \<and> ksIsDefault r) (\<lambda>r. r\<lparr>ksIsDefault := False\<rparr>)) (\<lambda>_.
      attempt (update_sets (\<lambda>r. ksID r = i \<and> ksOwnerID r = ow) (\<lambda>r. r\<lparr>ksIsDefault := True\<rparr>)) requireAffected))"

definition delete_members :: "KeySetID \<Rightarrow> unit conn" where
  "delete_members i = exec (\<lambda>d.
     Inr ((), d\<lparr>key_set_members := delete_where (\<lambda>m. mKeySetID m = i) (key_set_members d)\<rparr>))"

definition delete_sets :: "(KeySet \<Rightarrow> bool) \<Rightarrow> nat conn" where
  "delete_sets P = exec (\<lambda>d.
     if list_ex (\<lambda>x. P x \<and> (list_ex (\<lambda>m. mKeySetID m = ksID x) (key_set_members d)
          \<or> list_ex (\<lambda>a. akKeySetID a = ksID x) (access_keys d))) (key_sets d)
     then Inl ErrStorage
     else Inr (count_where P (key_sets d), d\<lparr>key_sets := delete_where P (key_sets d)\<rparr>))"

definition KeySets_Delete :: "bool \<Rightarrow> OwnerID \<Rightarrow> KeySetID \<Rightarrow> unit conn" where
  "KeySets_Delete inTx ow i = withLocalTx inTx
     (attempt (query (\<lambda>d. found (find (\<lambda>r. ksID r = i \<and> ksOwnerID r = ow) (key_sets d)))) (\<lambda>x.
        if ksIsDefault x then throw ErrDefaultKeySet
        else
          attempt (delete_members i) (\<lambda>_.
          attempt (delete_sets (\<lambda>r. ksID r = i \<and> ksOwnerID r = ow)) requireAffected)))"

text \<open>An \<^verbatim>\<open>INSERT ... SELECT\<close> guarded by two owner-scoped \<^verbatim>\<open>EXISTS\<close>.\<close>

definition KeySets_AddMember :: "OwnerID \<Rightarrow> KeySetID \<Rightarrow> PublicKeyID \<Rightarrow> time \<Rightarrow> unit conn" where
  "KeySets_AddMember ow sid kid now =
     attempt
       (exec (\<lambda>d.
          if \<not> (list_ex (\<lambda>r. ksID r = sid \<and> ksOwnerID r = ow) (key_sets d)
               \<and> list_ex (\<lambda>r. pkID r = kid \<and> pkOwnerID r = ow) (public_keys d))
          then Inr (0, d)
          else if is_member d sid kid then Inl ErrConflict
          else Inr (1, d\<lparr>key_set_members := key_set_members d
                   @ [\<lparr>mKeySetID = sid, mPublicKeyID = kid, mAddedAt = now\<rparr>]\<rparr>)))
       requireAffected"

definition KeySets_RemoveMember :: "OwnerID \<Rightarrow> KeySetID \<Rightarrow> PublicKeyID \<Rightarrow> unit conn" where
  "KeySets_RemoveMember ow sid kid =
     attempt
       (exec (\<lambda>d.
          let hit = (\<lambda>m. mKeySetID m = sid \<and> mPublicKeyID m = kid
                \<and> list_ex (\<lambda>r. ksID r = sid \<and> ksOwnerID r = ow) (key_sets d)
                \<and> list_ex (\<lambda>r. pkID r = kid \<and> pkOwnerID r = ow) (public_keys d)) in
          Inr (count_where hit (key_set_members d),
               d\<lparr>key_set_members := delete_where hit (key_set_members d)\<rparr>)))
       requireAffected"

definition KeySets_ListMembers :: "OwnerID \<Rightarrow> KeySetID \<Rightarrow> KeySetMembership list conn" where
  "KeySets_ListMembers ow sid =
     query (\<lambda>d. Inr (sort_key mPublicKeyID
       (filter (\<lambda>m. mKeySetID m = sid \<and> list_ex (\<lambda>r. ksID r = sid \<and> ksOwnerID r = ow) (key_sets d))
          (key_set_members d))))"

definition KeySets_ListSetsForKey :: "OwnerID \<Rightarrow> PublicKeyID \<Rightarrow> KeySet list conn" where
  "KeySets_ListSetsForKey ow kid =
     query (\<lambda>d. Inr (sort_key ksID
       (filter (\<lambda>r. ksOwnerID r = ow \<and> is_member d (ksID r) kid
            \<and> list_ex (\<lambda>k. pkID k = kid \<and> pkOwnerID k = ow) (public_keys d)) (key_sets d))))"

definition expired_hold :: "NameState \<Rightarrow> time option \<Rightarrow> time \<Rightarrow> bool" where
  "expired_hold st until now \<longleftrightarrow>
     st = NameStateQuarantined \<and> (case until of None \<Rightarrow> False | Some t \<Rightarrow> t \<le> now)"

definition KeySets_ListExpiredQuarantine :: "time \<Rightarrow> int \<Rightarrow> KeySet list conn" where
  "KeySets_ListExpiredQuarantine now limit =
     (if limit \<le> 0 then throw ErrInvalidInput
      else query (\<lambda>d. Inr (take (nat limit) (order_by (\<lambda>r. the (ksQuarantineUntil r)) ksID
        (filter (\<lambda>r. expired_hold (ksState r) (ksQuarantineUntil r) now) (key_sets d))))))"

section \<open>Access keys\<close>

definition AccessKeys_Create :: "AccessKey \<Rightarrow> unit conn" where
  "AccessKeys_Create k = exec (\<lambda>d.
     if list_ex (\<lambda>r. akID r = akID k) (access_keys d) then Inl ErrConflict
     else if \<not> owner_exists (akOwnerID k) d \<or> \<not> list_ex (\<lambda>r. ksID r = akKeySetID k) (key_sets d) then Inl ErrStorage
     else Inr ((), d\<lparr>access_keys := access_keys d @ [k]\<rparr>))"

definition AccessKeys_Get :: "OwnerID \<Rightarrow> AccessKeyID \<Rightarrow> AccessKey conn" where
  "AccessKeys_Get ow i = query (\<lambda>d. found (find (\<lambda>r. akID r = i \<and> akOwnerID r = ow) (access_keys d)))"

definition AccessKeys_ListByKeySet :: "OwnerID \<Rightarrow> KeySetID \<Rightarrow> AccessKey list conn" where
  "AccessKeys_ListByKeySet ow sid =
     query (\<lambda>d. Inr (sort_key akID (filter (\<lambda>r. akOwnerID r = ow \<and> akKeySetID r = sid) (access_keys d))))"

definition AccessKeys_ListByOwner :: "OwnerID \<Rightarrow> AccessKey list conn" where
  "AccessKeys_ListByOwner ow = query (\<lambda>d. Inr (sort_key akID (filter (\<lambda>r. akOwnerID r = ow) (access_keys d))))"

definition update_access :: "(AccessKey \<Rightarrow> bool) \<Rightarrow> (AccessKey \<Rightarrow> AccessKey) \<Rightarrow> nat conn" where
  "update_access P f = exec (\<lambda>d.
     Inr (count_where P (access_keys d), d\<lparr>access_keys := update_where P f (access_keys d)\<rparr>))"

definition AccessKeys_MarkRotated :: "OwnerID \<Rightarrow> AccessKeyID \<Rightarrow> AccessKeyID \<Rightarrow> time \<Rightarrow> unit conn" where
  "AccessKeys_MarkRotated ow i replacedBy graceUntil =
     attempt
       (update_access (\<lambda>r. akID r = i \<and> akOwnerID r = ow \<and> akStatus r \<noteq> AccessKeyStatusRevoked)
          (\<lambda>r. r\<lparr>akStatus := AccessKeyStatusGrace, akReplacedByID := Some replacedBy, akGraceUntil := Some graceUntil\<rparr>))
       requireAffected"

definition AccessKeys_Revoke :: "OwnerID \<Rightarrow> AccessKeyID \<Rightarrow> time \<Rightarrow> unit conn" where
  "AccessKeys_Revoke ow i now =
     attempt
       (update_access (\<lambda>r. akID r = i \<and> akOwnerID r = ow)
          (\<lambda>r. r\<lparr>akStatus := AccessKeyStatusRevoked,
             akRevokedAt := (case akRevokedAt r of None \<Rightarrow> Some now | Some t \<Rightarrow> Some t),
             akGraceUntil := None, akReplacedByID := None\<rparr>))
       requireAffected"

definition AccessKeys_ListExpiredGrace :: "time \<Rightarrow> int \<Rightarrow> AccessKey list conn" where
  "AccessKeys_ListExpiredGrace now limit =
     (if limit \<le> 0 then throw ErrInvalidInput
      else query (\<lambda>d. Inr (take (nat limit) (order_by (\<lambda>r. the (akGraceUntil r)) akID
        (filter (\<lambda>r. akStatus r = AccessKeyStatusGrace
             \<and> (case akGraceUntil r of None \<Rightarrow> False | Some t \<Rightarrow> t \<le> now)) (access_keys d))))))"

end
