(* ===== verification/Audit_Log.thy ===== *)
theory Audit_Log
  imports Key_Repos Utf8 "HOL-Library.AList"
begin

text \<open>
  The audit log: the screened details and the emitter of \<^verbatim>\<open>internal/audit\<close>, the log's repository and the
  erasure salts of \<^verbatim>\<open>internal/storage/sqlite\<close>, and the retention job of \<^verbatim>\<open>internal/erasure\<close>
  (\<^verbatim>\<open>retention.go\<close>, \<^verbatim>\<open>scheduler.go\<close>). The tables behind \<^verbatim>\<open>unicode.IsPrint\<close> move with the toolchain: the
  predicate is a parameter. Identifiers of records and readings of the clock are arguments. The actions
  are the constants of \<^verbatim>\<open>internal/domain\<close>, which all have the dotted form the emitter asks for.
\<close>

section \<open>Details\<close>

type_synonym DetailKey = string

definition DetailFingerprint :: DetailKey where "DetailFingerprint = ''fingerprint''"
definition DetailAlgorithm :: DetailKey where "DetailAlgorithm = ''algorithm''"
definition DetailDeviceName :: DetailKey where "DetailDeviceName = ''device_name''"
definition DetailHandle :: DetailKey where "DetailHandle = ''handle''"
definition DetailKeySetName :: DetailKey where "DetailKeySetName = ''key_set_name''"
definition DetailFrom :: DetailKey where "DetailFrom = ''from''"
definition DetailTo :: DetailKey where "DetailTo = ''to''"
definition DetailVisibility :: DetailKey where "DetailVisibility = ''visibility''"
definition DetailScope :: DetailKey where "DetailScope = ''scope''"
definition DetailReason :: DetailKey where "DetailReason = ''reason''"
definition DetailResult :: DetailKey where "DetailResult = ''result''"
definition DetailRequestID :: DetailKey where "DetailRequestID = ''request_id''"
definition DetailClientLabel :: DetailKey where "DetailClientLabel = ''client_label''"
definition DetailCount :: DetailKey where "DetailCount = ''count''"

definition allowedDetailKeys :: "DetailKey list" where
  "allowedDetailKeys =
     [DetailFingerprint, DetailAlgorithm, DetailDeviceName, DetailHandle, DetailKeySetName, DetailFrom,
      DetailTo, DetailVisibility, DetailScope, DetailReason, DetailResult, DetailRequestID,
      DetailClientLabel, DetailCount]"

definition keptDetailKeys :: "DetailKey list" where
  "keptDetailKeys =
     [DetailAlgorithm, DetailVisibility, DetailScope, DetailReason, DetailResult, DetailRequestID, DetailCount]"

definition IsErasableDetail :: "DetailKey \<Rightarrow> bool" where
  "IsErasableDetail key \<longleftrightarrow> key \<notin> set keptDetailKeys"

definition maxDetailValueLen :: nat where "maxDetailValueLen = 256"
definition redactionMarker :: string where "redactionMarker = ''[REDACTED]''"

definition credentialMarkers :: "string list" where
  "credentialMarkers =
     [''-----begin'', ''private key'', ''bearer '', ''authorization:'', ''proxy-authorization:'', ''basic '',
      ''aws_secret'', ''begin openssh'', ''putty-user-key'', ''x-api-key'', ''set-cookie:'']"

definition looksLikeJWT :: "string \<Rightarrow> bool" where
  "looksLikeJWT v =
     (let parts = Split v CHR ''.'' in
      length parts = 3 \<and> HasPrefix (hd parts) ''eyJ'' \<and> \<not> list_ex (\<lambda>p. p = []) parts)"

definition screenPrintable :: "(nat \<Rightarrow> bool) \<Rightarrow> string \<Rightarrow> unit result" where
  "screenPrintable isPrint v =
     (if list_ex (\<lambda>r. r = RuneError \<or> \<not> isPrint r) (runes v) then Inl ErrInvalidInput else Inr ())"

definition screenValue :: "(nat \<Rightarrow> bool) \<Rightarrow> string \<Rightarrow> unit result" where
  "screenValue isPrint v =
     (if v = [] then Inr ()
      else if Contains v redactionMarker then Inl ErrInvalidInput
      else if list_ex (\<lambda>m. contains_run (map lower_rune (runes v)) (map byte m)) credentialMarkers then Inl ErrInvalidInput
      else if looksLikeJWT v then Inl ErrInvalidInput
      else screenPrintable isPrint v)"

definition screenDetailValue :: "(nat \<Rightarrow> bool) \<Rightarrow> DetailKey \<Rightarrow> string \<Rightarrow> unit result" where
  "screenDetailValue isPrint key v =
     (if v = [] then Inl ErrInvalidInput
      else if maxDetailValueLen < length v then Inl ErrInvalidInput
      else
        (case screenValue isPrint v of
           Inl e \<Rightarrow> Inl e
         | Inr _ \<Rightarrow>
             if key = DetailFingerprint \<and> ValidateFingerprint v \<noteq> Inr () then Inl ErrInvalidInput else Inr ()))"

text \<open>The pairs, or the first error met while building them.\<close>

type_synonym Details = "(string \<times> string) list result"

abbreviation no_details :: Details where "no_details \<equiv> Inr []"

definition Details_Set :: "(nat \<Rightarrow> bool) \<Rightarrow> DetailKey \<Rightarrow> string \<Rightarrow> Details \<Rightarrow> Details" where
  "Details_Set isPrint key v d =
     (case d of
        Inl e \<Rightarrow> Inl e
      | Inr pairs \<Rightarrow>
          if key \<notin> set allowedDetailKeys then Inl ErrInvalidInput
          else
            (case screenDetailValue isPrint key v of
               Inl e \<Rightarrow> Inl e
             | Inr _ \<Rightarrow> Inr (AList.update key v pairs)))"

section \<open>The emitter\<close>

definition maxIDLen :: nat where "maxIDLen = 256"

record Event =
  evActorType :: ActorType
  evActorID :: string
  evAction :: AuditAction
  evTargetType :: TargetType
  evTargetID :: string
  evDetails :: Details

definition Event_validate :: "(nat \<Rightarrow> bool) \<Rightarrow> Event \<Rightarrow> unit result" where
  "Event_validate isPrint ev =
     (if evActorType ev \<noteq> ActorTypeSystem \<and> evActorID ev = [] then Inl ErrInvalidInput
      else if maxIDLen < length (evActorID ev) then Inl ErrInvalidInput
      else if evTargetID ev = [] then Inl ErrInvalidInput
      else if maxIDLen < length (evTargetID ev) then Inl ErrInvalidInput
      else
        (case screenValue isPrint (evActorID ev) of
           Inl e \<Rightarrow> Inl e
         | Inr _ \<Rightarrow> screenValue isPrint (evTargetID ev)))"

definition Emitter_record :: "(nat \<Rightarrow> bool) \<Rightarrow> Event \<Rightarrow> string \<Rightarrow> time \<Rightarrow> AuditRecord result" where
  "Emitter_record isPrint ev newID now =
     (case Event_validate isPrint ev of
        Inl e \<Rightarrow> Inl e
      | Inr _ \<Rightarrow>
          (case evDetails ev of
             Inl e \<Rightarrow> Inl e
           | Inr metadata \<Rightarrow>
               Inr \<lparr>arID = newID, arActorType = evActorType ev, arActorID = evActorID ev, arAction = evAction ev,
                    arTargetType = evTargetType ev, arTargetID = evTargetID ev, arOccurredAt = now,
                    arMetadata = metadata, arPseudonymized = False\<rparr>))"

section \<open>The log's repository\<close>

text \<open>The values the schema's \<^verbatim>\<open>CHECK\<close> on \<^verbatim>\<open>target_type\<close> lists.\<close>

definition audit_target_check :: "TargetType \<Rightarrow> bool" where
  "audit_target_check t \<longleftrightarrow>
     t \<in> {TargetTypeOwner, TargetTypeHandle, TargetTypeDevice, TargetTypePublicKey, TargetTypeKeySet,
          TargetTypeAccessKey, TargetTypeRefreshCredential, TargetTypeBlocklistEntry, TargetTypeAllowlistEntry}"

definition Audit_Append :: "AuditRecord \<Rightarrow> unit conn" where
  "Audit_Append r = exec (\<lambda>d.
     if \<not> audit_target_check (arTargetType r) then Inl ErrStorage
     else if list_ex (\<lambda>x. arID x = arID r) (audit_records d) then Inl ErrConflict
     else Inr ((), d\<lparr>audit_records := audit_records d @ [r]\<rparr>))"

definition Audit_Get :: "string \<Rightarrow> AuditRecord conn" where
  "Audit_Get i = query (\<lambda>d. found (find (\<lambda>r. arID r = i) (audit_records d)))"

definition Audit_PurgeOlderThan :: "time \<Rightarrow> int \<Rightarrow> nat conn" where
  "Audit_PurgeOlderThan cutoff limit =
     (if limit \<le> 0 then throw ErrInvalidInput
      else exec (\<lambda>d.
        let ids = map arID (take (nat limit)
              (order_by arOccurredAt arID (filter (\<lambda>r. arOccurredAt r \<le> cutoff) (audit_records d))))
        in Inr (count_where (\<lambda>r. arID r \<in> set ids) (audit_records d),
                d\<lparr>audit_records := delete_where (\<lambda>r. arID r \<in> set ids) (audit_records d)\<rparr>)))"

definition maxPseudonymizeBatch :: nat where "maxPseudonymizeBatch = 400"

fun batches :: "nat \<Rightarrow> 'a list \<Rightarrow> 'a list list" where
  "batches n [] = []"
| "batches n (x # xs) = (x # take (n - 1) xs) # batches n (drop (n - 1) xs)"

definition names_any :: "string list \<Rightarrow> AuditRecord \<Rightarrow> bool" where
  "names_any ids r \<longleftrightarrow> arActorID r \<in> set ids \<or> arTargetID r \<in> set ids"

definition pseudonymizeBatch :: "string list \<Rightarrow> string \<Rightarrow> nat conn" where
  "pseudonymizeBatch ids pseudonym = exec (\<lambda>d.
     Inr (count_where (names_any ids) (audit_records d),
          d\<lparr>audit_records := update_where (names_any ids)
             (\<lambda>r. r\<lparr>arActorID := (if arActorID r \<in> set ids then pseudonym else arActorID r),
                arTargetID := (if arTargetID r \<in> set ids then pseudonym else arTargetID r),
                arPseudonymized := True\<rparr>) (audit_records d)\<rparr>))"

fun pseudonymize_all :: "string list list \<Rightarrow> string \<Rightarrow> nat \<Rightarrow> nat conn" where
  "pseudonymize_all [] pseudonym acc = ret acc"
| "pseudonymize_all (b # bs) pseudonym acc =
     attempt (pseudonymizeBatch b pseudonym) (\<lambda>n. pseudonymize_all bs pseudonym (acc + n))"

definition Audit_Pseudonymize :: "string list \<Rightarrow> string \<Rightarrow> nat conn" where
  "Audit_Pseudonymize ids pseudonym =
     (if pseudonym = [] then throw ErrInvalidInput
      else if list_ex (\<lambda>i. i = []) ids then throw ErrInvalidInput
      else if ids = [] then ret 0
      else WithTx (pseudonymize_all (batches maxPseudonymizeBatch ids) pseudonym 0))"

fun records_for :: "string list list \<Rightarrow> AuditRecord list \<Rightarrow> AuditRecord list conn" where
  "records_for [] out = ret out"
| "records_for (b # bs) out =
     attempt (query (\<lambda>d. Inr (filter (names_any b) (audit_records d)))) (\<lambda>recs.
       records_for bs (out @ filter (\<lambda>r. arID r \<notin> set (map arID out)) recs))"

definition Audit_RecordsForErasure :: "string list \<Rightarrow> AuditRecord list conn" where
  "Audit_RecordsForErasure ids =
     (if ids = [] then ret [] else records_for (batches maxPseudonymizeBatch ids) [])"

fun scrub_all :: "(string \<times> (string \<times> string) list) list \<Rightarrow> nat \<Rightarrow> nat conn" where
  "scrub_all [] acc = ret acc"
| "scrub_all ((i, m) # us) acc =
     (if i = [] then throw ErrInvalidInput
      else
        attempt (exec (\<lambda>d. Inr (count_where (\<lambda>r. arID r = i) (audit_records d),
            d\<lparr>audit_records := update_where (\<lambda>r. arID r = i) (\<lambda>r. r\<lparr>arMetadata := m\<rparr>) (audit_records d)\<rparr>)))
          (\<lambda>n. scrub_all us (acc + n)))"

definition Audit_ScrubMetadata :: "(string \<times> (string \<times> string) list) list \<Rightarrow> nat conn" where
  "Audit_ScrubMetadata updates = (if updates = [] then ret 0 else WithTx (scrub_all updates 0))"

definition Emit :: "(nat \<Rightarrow> bool) \<Rightarrow> Event \<Rightarrow> string \<Rightarrow> time \<Rightarrow> unit conn" where
  "Emit isPrint ev newID now =
     (case Emitter_record isPrint ev newID now of
        Inl e \<Rightarrow> throw e
      | Inr r \<Rightarrow> Audit_Append r)"

section \<open>Erasure salts\<close>

definition OwnerSalts_Get :: "string \<Rightarrow> bytes conn" where
  "OwnerSalts_Get ow = query (\<lambda>d. found (map_option osSalt (find (\<lambda>r. osOwnerID r = ow) (owner_erasure_salts d))))"

definition insert_salt :: "string \<Rightarrow> bytes \<Rightarrow> time \<Rightarrow> unit conn" where
  "insert_salt ow salt now = exec (\<lambda>d.
     if list_ex (\<lambda>r. osOwnerID r = ow) (owner_erasure_salts d) then Inl ErrConflict
     else Inr ((), d\<lparr>owner_erasure_salts := owner_erasure_salts d
            @ [\<lparr>osOwnerID = ow, osSalt = salt, osCreatedAt = now\<rparr>]\<rparr>))"

definition ensureOwnerSalt :: "string \<Rightarrow> bytes \<Rightarrow> time \<Rightarrow> bytes conn" where
  "ensureOwnerSalt ow fresh now = do {
     r \<leftarrow> OwnerSalts_Get ow;
     (case r of
        Inr existing \<Rightarrow> ret existing
      | Inl e \<Rightarrow>
          if e \<noteq> ErrNotFound then throw e
          else do {
            ri \<leftarrow> insert_salt ow fresh now;
            (case ri of
               Inl ie \<Rightarrow> if ie = ErrConflict then OwnerSalts_Get ow else throw ie
             | Inr _ \<Rightarrow> ret fresh)
          })
   }"

definition OwnerSalts_Ensure :: "bool \<Rightarrow> string \<Rightarrow> bytes \<Rightarrow> time \<Rightarrow> bytes conn" where
  "OwnerSalts_Ensure inTx ow fresh now =
     (if ow = [] then throw ErrInvalidInput else withLocalTx inTx (ensureOwnerSalt ow fresh now))"

definition OwnerSalts_Destroy :: "string \<Rightarrow> unit conn" where
  "OwnerSalts_Destroy ow = exec (\<lambda>d.
     Inr ((), d\<lparr>owner_erasure_salts := delete_where (\<lambda>r. osOwnerID r = ow) (owner_erasure_salts d)\<rparr>))"

section \<open>Retention\<close>

record Purger =
  pRetention :: duration
  pBatch :: int
  pMaxPerRun :: int

definition NewPurger :: "Purger \<Rightarrow> Purger result" where
  "NewPurger p =
     (if pRetention p \<le> 0 then Inl ErrInvalidInput
      else if pBatch p \<le> 0 then Inl ErrInvalidInput
      else if pMaxPerRun p \<le> 0 then Inl ErrInvalidInput
      else Inr p)"

definition Cutoff :: "Purger \<Rightarrow> time \<Rightarrow> time" where
  "Cutoff p now = now - pRetention p"

lemma purge_limit_pos:
  "(Inr n, s') = run_state (Audit_PurgeOlderThan cutoff limit) s \<Longrightarrow> 0 < limit"
  by (auto simp: Audit_PurgeOlderThan_def split: if_splits)

text \<open>
  The loop of \<^verbatim>\<open>PurgeOnce\<close>: \<open>stop k\<close> says whether the context is cancelled before batch \<open>k\<close>. It ends because
  a batch that does not end it has deleted at least one record, and the deletions of a run are capped.
\<close>

function purge_loop ::
  "Purger \<Rightarrow> time \<Rightarrow> (nat \<Rightarrow> bool) \<Rightarrow> nat \<Rightarrow> int \<Rightarrow> session \<Rightarrow> (int \<times> err option) \<times> session" where
  "purge_loop p cutoff stop k acc s =
     (if \<not> acc < pMaxPerRun p then ((acc, None), s)
      else if stop k then ((acc, Some ErrCanceled), s)
      else
        (let limit = (if pMaxPerRun p - acc < pBatch p then pMaxPerRun p - acc else pBatch p) in
         (case run_state (Audit_PurgeOlderThan cutoff limit) s of
            (Inl e, s') \<Rightarrow> ((acc, Some e), s')
          | (Inr n, s') \<Rightarrow>
              if int n < limit then ((acc + int n, None), s')
              else purge_loop p cutoff stop (Suc k) (acc + int n) s')))"
  by pat_completeness auto

termination
proof (relation "measure (\<lambda>(p, _, _, _, acc, _). nat (pMaxPerRun p - acc))", goal_cases)
  case 1
  then show ?case by simp
next
  case 2
  then show ?case by (auto dest: purge_limit_pos split: if_splits)
qed

declare purge_loop.simps [simp del]

definition PurgeOnce :: "Purger \<Rightarrow> (nat \<Rightarrow> bool) \<Rightarrow> time \<Rightarrow> session \<Rightarrow> (int \<times> err option) \<times> session" where
  "PurgeOnce p stop now s = purge_loop p (Cutoff p now) stop 0 0 s"

section \<open>The retention scheduler\<close>

fun decimal :: "nat \<Rightarrow> string" where
  "decimal n = (if n < 10 then [char_of (48 + n)] else decimal (n div 10) @ [char_of (48 + n mod 10)])"

declare decimal.simps [simp del]

text \<open>\<^verbatim>\<open>time.Time.Format\<close> with \<^verbatim>\<open>time.RFC3339\<close> is the argument \<open>rfc3339\<close>.\<close>

definition recordPass ::
  "(nat \<Rightarrow> bool) \<Rightarrow> (time \<Rightarrow> string) \<Rightarrow> bool \<Rightarrow> time \<Rightarrow> int \<Rightarrow> string \<Rightarrow> time \<Rightarrow> unit conn" where
  "recordPass isPrint rfc3339 audited cutoff deleted newID now =
     (if \<not> audited then ret ()
      else
        Emit isPrint
          \<lparr>evActorType = ActorTypeSystem, evActorID = [], evAction = AuditActionAuditPurged,
           evTargetType = TargetTypeAuditLog, evTargetID = ''audit_log'',
           evDetails = Details_Set isPrint DetailTo (rfc3339 cutoff)
             (Details_Set isPrint DetailCount (decimal (nat deleted)) no_details)\<rparr> newID now)"

text \<open>
  The clock is read once for the purge, again for the cutoff that is reported (\<open>at\<close>) and by the emitter
  for the record (\<open>stamped\<close>).
\<close>

definition report ::
  "(nat \<Rightarrow> bool) \<Rightarrow> (time \<Rightarrow> string) \<Rightarrow> bool \<Rightarrow> Purger \<Rightarrow> int \<Rightarrow> string \<Rightarrow> time \<Rightarrow> time \<Rightarrow> session \<Rightarrow> session" where
  "report isPrint rfc3339 audited p deleted newID at stamped s =
     (if deleted = 0 then s
      else snd (run_state (recordPass isPrint rfc3339 audited (Cutoff p at) deleted newID stamped) s))"

definition Scheduler_pass ::
  "(nat \<Rightarrow> bool) \<Rightarrow> (time \<Rightarrow> string) \<Rightarrow> bool \<Rightarrow> Purger \<Rightarrow> (nat \<Rightarrow> bool) \<Rightarrow> string \<Rightarrow> time \<Rightarrow> time \<Rightarrow> time \<Rightarrow> session \<Rightarrow>
     (int \<times> err option) \<times> session" where
  "Scheduler_pass isPrint rfc3339 audited p stop newID now at stamped s =
     (case PurgeOnce p stop now s of
        ((deleted, e), s') \<Rightarrow>
          ((deleted, e),
           if e = None \<or> e = Some ErrCanceled \<or> 0 < deleted
           then report isPrint rfc3339 audited p deleted newID at stamped s' else s'))"

section \<open>One batch, many batches\<close>

abbreviation eligible :: "time \<Rightarrow> db \<Rightarrow> AuditRecord list" where
  "eligible cutoff d \<equiv> order_by arOccurredAt arID (filter (\<lambda>r. arOccurredAt r \<le> cutoff) (audit_records d))"

text \<open>The log without the \<open>k\<close> oldest eligible records.\<close>

definition purged :: "time \<Rightarrow> nat \<Rightarrow> db \<Rightarrow> db" where
  "purged cutoff k d =
     d\<lparr>audit_records := delete_where (\<lambda>r. arID r \<in> set (map arID (take k (eligible cutoff d)))) (audit_records d)\<rparr>"

lemma filter_order_by: "filter P (order_by a b xs) = order_by a b (filter P xs)"
  by (simp add: order_by_def filter_sort)

lemma filter_notin_take:
  assumes "distinct (map f xs)"
  shows "filter (\<lambda>x. f x \<notin> set (map f (take k xs))) xs = drop k xs"
proof -
  have "filter (\<lambda>x. f x \<notin> set (map f (take k xs))) (take k xs @ drop k xs) = drop k xs"
    unfolding filter_append
  proof -
    have "filter (\<lambda>x. f x \<notin> set (map f (take k xs))) (take k xs) = []" by (simp add: filter_empty_conv)
    moreover have "\<forall>x \<in> set (drop k xs). f x \<notin> set (map f (take k xs))"
    proof -
      have "distinct (map f (take k xs) @ map f (drop k xs))"
        using assms by (metis append_take_drop_id map_append)
      then show ?thesis by auto
    qed
    ultimately show "filter (\<lambda>x. f x \<notin> set (map f (take k xs))) (take k xs)
        @ filter (\<lambda>x. f x \<notin> set (map f (take k xs))) (drop k xs) = drop k xs"
      by (simp add: filter_id_conv del: set_map)
  qed
  then show ?thesis by simp
qed

lemma distinct_order_by: "distinct (map f xs) \<Longrightarrow> distinct (map f (order_by a b xs))"
proof -
  assume "distinct (map f xs)"
  then have "distinct xs" "inj_on f (set xs)" by (auto simp: distinct_map)
  then show ?thesis by (simp add: distinct_map order_by_def)
qed

abbreviation log_wf :: "db \<Rightarrow> bool" where
  "log_wf d \<equiv> distinct (map arID (audit_records d))"

lemma distinct_eligible: "log_wf d \<Longrightarrow> distinct (map arID (eligible cutoff d))"
  by (intro distinct_order_by distinct_map_filter)

lemma eligible_purged:
  assumes "log_wf d"
  shows "eligible cutoff (purged cutoff k d) = drop k (eligible cutoff d)"
proof -
  have "eligible cutoff (purged cutoff k d)
      = filter (\<lambda>r. arID r \<notin> set (map arID (take k (eligible cutoff d)))) (eligible cutoff d)"
    unfolding filter_order_by by (simp add: purged_def delete_where_def conj_commute del: set_map)
  then show ?thesis by (simp only: filter_notin_take [OF distinct_eligible [OF assms]])
qed

lemma purged_wf: "log_wf d \<Longrightarrow> log_wf (purged cutoff k d)"
  by (simp add: purged_def distinct_map_delete_where)

lemma purged_purged:
  assumes "log_wf d"
  shows "purged cutoff l (purged cutoff k d) = purged cutoff (k + l) d"
proof -
  have "audit_records (purged cutoff l (purged cutoff k d)) = audit_records (purged cutoff (k + l) d)"
    unfolding purged_def [of _ l] purged_def [of _ "k + l"] eligible_purged [OF assms]
    by (simp add: purged_def delete_where_def take_add conj_commute del: set_map)
  then show ?thesis by (simp add: purged_def)
qed

lemma count_ids:
  assumes "distinct (map f rows)" and "set xs \<subseteq> set rows" and "distinct (map f xs)"
  shows "count_where (\<lambda>r. f r \<in> set (map f xs)) rows = length xs"
proof -
  have inj: "inj_on f (set rows)" and "distinct rows" "distinct xs" using assms(1,3) by (simp_all add: distinct_map)
  have "{r \<in> set rows. f r \<in> f ` set xs} = set xs" using assms(2) inj by (auto dest: inj_onD)
  then have "set (filter (\<lambda>r. f r \<in> set (map f xs)) rows) = set xs" by simp
  then have "length (filter (\<lambda>r. f r \<in> set (map f xs)) rows) = card (set xs)"
    using distinct_card [OF distinct_filter [OF \<open>distinct rows\<close>], of "\<lambda>r. f r \<in> set (map f xs)"] by simp
  then show ?thesis using distinct_card [OF \<open>distinct xs\<close>] by (simp add: count_where_def)
qed

lemma purge_batch:
  assumes "faults s = []" and "0 < limit" and "log_wf (data s)"
  shows "run_state (Audit_PurgeOlderThan cutoff limit) s =
    (Inr (min (length (eligible cutoff (data s))) (nat limit)), s\<lparr>data := purged cutoff (nat limit) (data s)\<rparr>)"
proof -
  let ?xs = "take (nat limit) (eligible cutoff (data s))"
  have "set ?xs \<subseteq> set (audit_records (data s))" by (auto dest!: in_set_takeD)
  moreover have "distinct (map arID ?xs)" using distinct_eligible [OF assms(3)] by (simp add: take_map [symmetric])
  ultimately have "count_where (\<lambda>r. arID r \<in> set (map arID ?xs)) (audit_records (data s)) = length ?xs"
    by (rule count_ids [OF assms(3)])
  then show ?thesis using assms(1,2) by (simp add: Audit_PurgeOlderThan_def working Let_def purged_def)
qed

lemma purge_loop_drains:
  assumes "faults s = []" and "0 < pBatch p" and "\<forall>k. \<not> stop k" and "log_wf (data s)" and "acc \<le> pMaxPerRun p"
  shows "purge_loop p cutoff stop k acc s =
    ((acc + min (int (length (eligible cutoff (data s)))) (pMaxPerRun p - acc), None),
     s\<lparr>data := purged cutoff (nat (pMaxPerRun p - acc)) (data s)\<rparr>)"
  using assms
proof (induction "nat (pMaxPerRun p - acc)" arbitrary: k acc s rule: less_induct)
  case less
  note 1 = less.prems
  let ?E = "eligible cutoff (data s)" and ?m = "pMaxPerRun p"
  show ?case
  proof (cases "acc < ?m")
    case False
    then show ?thesis using 1 by (subst purge_loop.simps) (simp add: purged_def delete_where_def)
  next
    case True
    define limit where "limit = (if ?m - acc < pBatch p then ?m - acc else pBatch p)"
    have lim: "0 < limit" "limit \<le> ?m - acc" using True 1 by (auto simp: limit_def)
    let ?n = "min (length ?E) (nat limit)" and ?s = "s\<lparr>data := purged cutoff (nat limit) (data s)\<rparr>"
    have batch: "run_state (Audit_PurgeOlderThan cutoff limit) s = (Inr ?n, ?s)"
      using purge_batch [OF _ lim(1)] 1 by blast
    show ?thesis
    proof (cases "int ?n < limit")
      case True
      then have "length ?E < nat limit" using lim by linarith
      then have "take (nat (?m - acc)) ?E = take (nat limit) ?E" using lim by simp
      then have "purged cutoff (nat (?m - acc)) (data s) = purged cutoff (nat limit) (data s)" by (simp add: purged_def)
      then show ?thesis
        using True \<open>acc < ?m\<close> \<open>length ?E < nat limit\<close> lim 1(3) batch
        by (subst purge_loop.simps) (simp add: limit_def [symmetric] Let_def)
    next
      case False
      then have n: "?n = nat limit" by linarith
      have "purge_loop p cutoff stop (Suc k) (acc + limit) ?s =
        ((acc + limit + min (int (length (eligible cutoff (data ?s)))) (?m - (acc + limit)), None),
         ?s\<lparr>data := purged cutoff (nat (?m - (acc + limit))) (data ?s)\<rparr>)"
        by (rule less.hyps) (use 1 lim in \<open>simp_all add: purged_wf\<close>)
      moreover have "nat limit + nat (?m - (acc + limit)) = nat (?m - acc)" using lim by linarith
      moreover have "limit \<le> int (length ?E)" using n lim by linarith
      ultimately show ?thesis
        using False \<open>acc < ?m\<close> lim n 1(3) batch purged_purged [OF 1(4)]
        by (subst purge_loop.simps) (simp add: limit_def [symmetric] Let_def eligible_purged [OF 1(4)] min_def)
    qed
  qed
qed

lemma purge_batch_subset:
  assumes "run_state (Audit_PurgeOlderThan cutoff limit) s = (r, s')"
  shows "set (audit_records (data s')) \<subseteq> set (audit_records (data s))"
proof -
  have "hoare (\<lambda>d. d = data s) (Audit_PurgeOlderThan cutoff limit) (\<lambda>_ d. set (audit_records d) \<subseteq> set (audit_records (data s)))"
    unfolding Audit_PurgeOlderThan_def Let_def by (rule hoare_pre, (rule wp)+) auto
  from hoareD [OF this _ assms] show ?thesis by simp
qed

lemma purge_loop_subset:
  assumes "purge_loop p cutoff stop k acc s = (r, s')"
  shows "set (audit_records (data s')) \<subseteq> set (audit_records (data s))"
  using assms
proof (induction p cutoff stop k acc s rule: purge_loop.induct)
  case (1 p cutoff stop k acc s)
  let ?limit = "if pMaxPerRun p - acc < pBatch p then pMaxPerRun p - acc else pBatch p"
  show ?case
  proof (cases "acc < pMaxPerRun p \<and> \<not> stop k")
    case False
    then have "s' = s" using 1(2) by (subst (asm) purge_loop.simps) (auto split: if_splits)
    then show ?thesis by simp
  next
    case True
    obtain x s1 where run: "run_state (Audit_PurgeOlderThan cutoff ?limit) s = (x, s1)" by fastforce
    show ?thesis
    proof (cases "\<exists>n. x = Inr n \<and> \<not> int n < ?limit")
      case False
      then have "s' = s1" using 1(2) True run by (subst (asm) purge_loop.simps) (auto simp: Let_def split: sum.splits if_splits)
      then show ?thesis using purge_batch_subset [OF run] by simp
    next
      case go: True
      then obtain n where n: "x = Inr n" "\<not> int n < ?limit" by blast
      then have "purge_loop p cutoff stop (Suc k) (acc + int n) s1 = (r, s')"
        using 1(2) True run by (subst (asm) purge_loop.simps) (simp add: Let_def)
      then have "set (audit_records (data s')) \<subseteq> set (audit_records (data s1))"
        by (intro 1(1) [OF _ _ refl run [symmetric] n]) (use True in auto)
      then show ?thesis using purge_batch_subset [OF run] by simp
    qed
  qed
qed

lemma recordPass_refused:
  "audit_records (data (snd (run_state (recordPass isPrint rfc3339 audited cutoff deleted newID now) s))) = audit_records (data s)"
proof -
  have "hoare (\<lambda>d. d = data s) (recordPass isPrint rfc3339 audited cutoff deleted newID now) (\<lambda>_ d. d = data s)"
    unfolding recordPass_def Emit_def Audit_Append_def
    by (rule hoare_pre, (rule wp)+)
      (auto simp: Emitter_record_def audit_target_check_def split: sum.splits)
  from run_hoare [OF this] show ?thesis by simp
qed

lemma pass_adds_nothing:
  assumes "Scheduler_pass isPrint rfc3339 audited p stop newID now at stamped s = (r, s')"
  shows "set (audit_records (data s')) \<subseteq> set (audit_records (data s))"
proof -
  obtain x s1 where run: "PurgeOnce p stop now s = (x, s1)" by fastforce
  have "set (audit_records (data s1)) \<subseteq> set (audit_records (data s))"
    using purge_loop_subset run by (simp add: PurgeOnce_def)
  moreover have "audit_records (data s') = audit_records (data s1)"
    using assms run by (auto simp: Scheduler_pass_def report_def recordPass_refused split: prod.splits if_splits)
  ultimately show ?thesis by simp
qed

section \<open>Properties\<close>

text \<open>
  C28: a retention run ends and drains what it may. On a working database a run of a valid purger that is
  not interrupted returns without error, has deleted the smaller of the backlog and the cap, always the
  oldest records at or before the cutoff, and leaves every other record of the log as it was, in order.
\<close>

theorem purge_once_drains:
  assumes "NewPurger p = Inr p'" and "faults s = []" and "\<forall>k. \<not> stop k" and "log_wf (data s)"
  shows "PurgeOnce p' stop now s =
    ((min (int (length (eligible (now - pRetention p) (data s)))) (pMaxPerRun p), None),
     s\<lparr>data := (data s)\<lparr>audit_records := filter
        (\<lambda>r. arID r \<notin> arID ` set (take (nat (pMaxPerRun p)) (eligible (now - pRetention p) (data s)))) (audit_records (data s))\<rparr>\<rparr>)"
proof -
  have "p' = p" "0 < pBatch p" "0 < pMaxPerRun p" using assms(1) by (auto simp: NewPurger_def split: if_splits)
  then show ?thesis
    using purge_loop_drains [OF assms(2) _ assms(3,4), of p 0 "now - pRetention p" 0]
    by (simp add: PurgeOnce_def Cutoff_def purged_def delete_where_def)
qed

definition sample_record :: "string \<Rightarrow> time \<Rightarrow> AuditRecord" where
  "sample_record i t = \<lparr>arID = i, arActorType = ActorTypeOwner, arActorID = ''alice'', arAction = AuditActionKeyAdded,
     arTargetType = TargetTypePublicKey, arTargetID = ''k'', arOccurredAt = t, arMetadata = [], arPseudonymized = False\<rparr>"

definition sample_log :: session where
  "sample_log = \<lparr>data = empty_db\<lparr>audit_records := [sample_record ''b'' 30, sample_record ''a'' 20, sample_record ''c'' 90]\<rparr>,
     faults = []\<rparr>"

definition sample_purger :: Purger where
  "sample_purger = \<lparr>pRetention = 50, pBatch = 1, pMaxPerRun = 10\<rparr>"

theorem purge_once_drains_witness:
  "PurgeOnce sample_purger (\<lambda>_. False) 100 sample_log =
     ((2, None), sample_log\<lparr>data := empty_db\<lparr>audit_records := [sample_record ''c'' 90]\<rparr>\<rparr>)"
proof -
  have "NewPurger sample_purger = Inr sample_purger" by (simp add: NewPurger_def sample_purger_def)
  from purge_once_drains [OF this, of sample_log "\<lambda>_. False" 100] show ?thesis
    by (simp add: sample_log_def sample_record_def sample_purger_def empty_db_def order_by_def)
qed

text \<open>
  C29: a retention pass is never recorded. Whatever the log holds, whatever statements fail and although an
  audit sink is configured, no record is added to the log by a pass: the schema does not accept the target
  type the pass writes, so the record that accounts for the deletions is always refused.
\<close>

theorem purge_never_recorded:
  assumes "Scheduler_pass isPrint rfc3339 True p stop newID now at stamped s = ((deleted, e), s')"
  shows "set (audit_records (data s')) \<subseteq> set (audit_records (data s))"
  using assms by (rule pass_adds_nothing)

theorem purge_never_recorded_witness:
  "\<exists>s'. Scheduler_pass (\<lambda>r. 32 \<le> r \<and> r \<le> 126) (\<lambda>_. ''2026-01-01T00:00:00Z'') True sample_purger
       (\<lambda>_. False) ''new'' 1000 1001 1002 sample_log = ((3, None), s') \<and> ''new'' \<notin> arID ` set (audit_records (data s'))"
proof -
  have "PurgeOnce sample_purger (\<lambda>_. False) 1000 sample_log = ((3, None), sample_log\<lparr>data := purged 950 10 (data sample_log)\<rparr>)"
    using purge_loop_drains [of sample_log sample_purger "\<lambda>_. False" 0 950 0]
    by (simp add: PurgeOnce_def Cutoff_def sample_log_def sample_record_def sample_purger_def empty_db_def order_by_def)
  then obtain s' where run: "Scheduler_pass (\<lambda>r. 32 \<le> r \<and> r \<le> 126) (\<lambda>_. ''2026-01-01T00:00:00Z'') True sample_purger
       (\<lambda>_. False) ''new'' 1000 1001 1002 sample_log = ((3, None), s')"
    by (simp add: Scheduler_pass_def)
  moreover have "''new'' \<notin> arID ` set (audit_records (data sample_log))" by (simp add: sample_log_def sample_record_def)
  ultimately show ?thesis using purge_never_recorded [OF run] by blast
qed

end
