(* ===== verification/Blocklist.thy ===== *)
theory Blocklist
  imports Utf8 Domain
begin

text \<open>
  \<^verbatim>\<open>internal/blocklist\<close> and \<^verbatim>\<open>internal/nameguard\<close>: the skeleton of a name, the matcher over the word
  lists with its expansion of ambiguous letters, the runtime allowlist and extra terms, and the guard the
  services call. The normal form NFKD (\<^verbatim>\<open>golang.org/x/text/unicode/norm\<close>) and the Unicode tables of the
  toolchain are one argument of type \<open>unicode\<close>; the word lists are arguments of \<^verbatim>\<open>NewMatcher\<close>.
\<close>

section \<open>Skeletons\<close>

record unicode =
  nfkd :: "string \<Rightarrow> string"
  in_Mn :: "nat \<Rightarrow> bool"
  in_Pd :: "nat \<Rightarrow> bool"
  in_Pc :: "nat \<Rightarrow> bool"
  ToLower :: "nat \<Rightarrow> nat"

definition TableVersion :: int where "TableVersion = 6"

definition confusables :: "(nat \<times> string) list" where
  "confusables =
    [(0x430, ''a''), (0x432, ''b''), (0x441, ''c''), (0x501, ''d''), (0x435, ''e''), (0x455, ''s''),
     (0x43D, ''h''), (0x456, ''i''), (0x457, ''i''), (0x458, ''j''), (0x4BB, ''h''), (0x43A, ''k''),
     (0x43C, ''m''), (0x43E, ''o''), (0x440, ''p''), (0x442, ''t''), (0x443, ''y''), (0x445, ''x''),
     (0x461, ''w''), (0x3B1, ''a''), (0x3B5, ''e''), (0x3B7, ''n''), (0x3B9, ''i''), (0x3BA, ''k''),
     (0x3BC, ''m''), (0x3BD, ''v''), (0x3BF, ''o''), (0x3C1, ''p''), (0x3C4, ''t''), (0x3C5, ''u''),
     (0x3C7, ''x''), (0x3C9, ''w''), (0x3F2, ''c''), (0x3C2, ''c''), (0x131, ''i''), (0x237, ''j''),
     (0x142, ''l''), (0x111, ''d''), (0xF8, ''o''), (0xDF, ''ss''), (0xE6, ''ae''), (0x153, ''oe'')]"

definition leetspeak :: "(nat \<times> char) list" where
  "leetspeak =
    [(byte CHR ''0'', CHR ''o''), (byte CHR ''1'', CHR ''i''), (byte CHR ''3'', CHR ''e''), (byte CHR ''4'', CHR ''a''),
     (byte CHR ''5'', CHR ''s''), (byte CHR ''7'', CHR ''t''), (byte CHR ''@'', CHR ''a''), (byte CHR ''$'', CHR ''s'')]"

definition isSeparator :: "unicode \<Rightarrow> nat \<Rightarrow> bool" where
  "isSeparator u r \<longleftrightarrow>
     r \<in> set (map byte [CHR ''_'', CHR ''.'', CHR ''-'']) \<or> IsSpace r \<or> in_Pd u r \<or> in_Pc u r"

definition writeFolded :: "unicode \<Rightarrow> nat \<Rightarrow> string" where
  "writeFolded u r =
     (case map_of leetspeak r of
        Some mapped \<Rightarrow> [mapped]
      | None \<Rightarrow> if isSeparator u r then [] else EncodeRune r)"

definition sanitize :: "unicode \<Rightarrow> string \<Rightarrow> string" where
  "sanitize u s = concat (map (\<lambda>r.
     if r = RuneError then []
     else (case map_of confusables (ToLower u r) of Some mapped \<Rightarrow> mapped | None \<Rightarrow> EncodeRune r)) (runes s))"

definition canonical_byte :: "char \<Rightarrow> bool" where
  "canonical_byte c \<longleftrightarrow> is_lower c \<or> c \<in> set ''2689''"

definition Skeleton :: "unicode \<Rightarrow> string \<Rightarrow> string" where
  "Skeleton u s =
     (if list_all canonical_byte s \<and> 0 < length s then s
      else concat (map (\<lambda>r.
        if in_Mn u r \<or> is_Cf r then []
        else
          (let r = ToLower u r in
           case map_of confusables r of
             Some mapped \<Rightarrow> concat (map (writeFolded u) (runes mapped))
           | None \<Rightarrow> writeFolded u r)) (runes (nfkd u (sanitize u s)))))"

section \<open>Readings of a skeleton\<close>

definition ambiguousReadings :: "(char \<times> string) list" where
  "ambiguousReadings = [(CHR ''i'', ''l'')]"

definition maxAmbiguousRunes :: nat where "maxAmbiguousRunes = 12"
definition maxCandidateSkeletons :: nat where "maxCandidateSkeletons = 2 ^ maxAmbiguousRunes"

definition readings :: "(char \<times> string) list \<Rightarrow> char \<Rightarrow> string" where
  "readings table c = (case map_of table c of None \<Rightarrow> [] | Some rs \<Rightarrow> rs)"

fun scan_positions :: "(char \<times> string) list \<Rightarrow> nat \<Rightarrow> string \<Rightarrow> nat list \<Rightarrow> nat list option" where
  "scan_positions table i [] ps = Some ps"
| "scan_positions table i (c # cs) ps =
     (if map_of table c = None then scan_positions table (Suc i) cs ps
      else if length ps = maxAmbiguousRunes then None
      else scan_positions table (Suc i) cs (ps @ [i]))"

fun within_ceiling :: "(char \<times> string) list \<Rightarrow> string \<Rightarrow> nat list \<Rightarrow> nat \<Rightarrow> bool" where
  "within_ceiling table sk [] acc = True"
| "within_ceiling table sk (p # ps) acc =
     (let acc = acc * (1 + length (readings table (sk ! p))) in
      if acc > maxCandidateSkeletons then False else within_ceiling table sk ps acc)"

definition grow :: "(char \<times> string) list \<Rightarrow> string \<Rightarrow> string list \<Rightarrow> nat \<Rightarrow> string list" where
  "grow table sk candidates pos =
     candidates @ concat (map (\<lambda>reading. map (\<lambda>c. c[pos := reading]) candidates) (readings table (sk ! pos)))"

definition expandCandidates :: "string \<Rightarrow> (char \<times> string) list \<Rightarrow> string list option" where
  "expandCandidates sk table =
     (case scan_positions table 0 sk [] of
        None \<Rightarrow> None
      | Some positions \<Rightarrow>
          if \<not> within_ceiling table sk positions 1 then None
          else Some (foldl (grow table sk) [sk] positions))"

definition candidateSkeletons :: "string \<Rightarrow> string list option" where
  "candidateSkeletons sk = expandCandidates sk ambiguousReadings"

section \<open>The matcher\<close>

definition MaxInputBytes :: nat where "MaxInputBytes = 256"

datatype MatchMode = MatchModeInvalid | MatchWholeSkeleton | MatchSubstring

datatype Reason =
    ReasonEngineUnavailable
  | ReasonAllowed
  | ReasonEmptySkeleton
  | ReasonTooLong
  | ReasonBlockedTerm
  | ReasonTooAmbiguous
  | ReasonAllowlisted

record Result =
  Allowed :: bool
  rReason :: Reason
  rList :: string
  rTerm :: string
  rMode :: MatchMode

abbreviation refusal :: "Reason \<Rightarrow> Result" where
  "refusal why \<equiv> \<lparr>Allowed = False, rReason = why, rList = [], rTerm = [], rMode = MatchModeInvalid\<rparr>"

definition Blocked :: "Result \<Rightarrow> bool" where
  "Blocked r \<longleftrightarrow> \<not> Allowed r"

definition PublicMessage :: "Result \<Rightarrow> string" where
  "PublicMessage r =
     (if Allowed r then ''identifier is available''
      else ''this identifier is not available; please choose another'')"

record WordList =
  lName :: string
  lMode :: MatchMode
  lTerms :: "string list"

record compiledTerm =
  tSkeleton :: string
  tRaw :: string

record compiledList =
  cName :: string
  cMode :: MatchMode
  cWhole :: "(string \<times> compiledTerm) list"
  cSubstrings :: "compiledTerm list"

record Matcher =
  mReady :: bool
  mLists :: "compiledList list"
  mAllow :: "(string \<times> string) list option"
  mExtra :: "compiledList option"

datatype matcher_error =
    NoListName
  | DuplicateListName string
  | InvalidMode string
  | EmptySkeletonOf string
  | SharedSkeleton string string
  | Unbuilt

text \<open>The terms of one list, compiled in order; the accumulator holds what was compiled, by skeleton.\<close>

fun compile_terms :: "unicode \<Rightarrow> string list \<Rightarrow> (string \<times> compiledTerm) list \<Rightarrow> matcher_error + (string \<times> compiledTerm) list" where
  "compile_terms u [] acc = Inr acc"
| "compile_terms u (raw # rs) acc =
     (let sk = Skeleton u raw in
      if sk = [] then Inl (EmptySkeletonOf raw)
      else (case map_of acc sk of
              Some prev \<Rightarrow> Inl (SharedSkeleton (tRaw prev) raw)
            | None \<Rightarrow> compile_terms u rs (acc @ [(sk, \<lparr>tSkeleton = sk, tRaw = raw\<rparr>)])))"

fun compile_lists :: "unicode \<Rightarrow> WordList list \<Rightarrow> string list \<Rightarrow> compiledList list \<Rightarrow> matcher_error + compiledList list" where
  "compile_lists u [] seen acc = Inr acc"
| "compile_lists u (l # ls) seen acc =
     (if lName l = [] then Inl NoListName
      else if lName l \<in> set seen then Inl (DuplicateListName (lName l))
      else if lMode l \<noteq> MatchWholeSkeleton \<and> lMode l \<noteq> MatchSubstring then Inl (InvalidMode (lName l))
      else (case compile_terms u (lTerms l) [] of
              Inl e \<Rightarrow> Inl e
            | Inr terms \<Rightarrow>
                compile_lists u ls (lName l # seen)
                  (acc @ [\<lparr>cName = lName l, cMode = lMode l,
                     cWhole = (if lMode l = MatchWholeSkeleton then terms else []),
                     cSubstrings = (if lMode l = MatchWholeSkeleton then [] else map snd terms)\<rparr>])))"

definition NewMatcher :: "unicode \<Rightarrow> WordList list \<Rightarrow> matcher_error + Matcher" where
  "NewMatcher u ls =
     (case compile_lists u ls [] [] of
        Inl e \<Rightarrow> Inl e
      | Inr compiled \<Rightarrow>
          Inr \<lparr>mReady = True,
               mLists = filter (\<lambda>cl. cMode cl = MatchWholeSkeleton) compiled
                 @ filter (\<lambda>cl. cMode cl = MatchSubstring) compiled,
               mAllow = None, mExtra = None\<rparr>)"

definition AllowlistName :: string where "AllowlistName = ''allowlist''"
definition ExtraListName :: string where "ExtraListName = ''administrator''"

text \<open>A nil matcher is \<open>None\<close>. The setters return the matcher with the new set, or the error and no change.\<close>

definition unbuilt :: "Matcher option \<Rightarrow> bool" where
  "unbuilt m \<longleftrightarrow> (case m of None \<Rightarrow> True | Some m \<Rightarrow> \<not> mReady m)"

definition SetAllowlist :: "unicode \<Rightarrow> string list \<Rightarrow> Matcher option \<Rightarrow> matcher_error + Matcher" where
  "SetAllowlist u entries m =
     (if unbuilt m then Inl Unbuilt
      else (case compile_terms u entries [] of
              Inl e \<Rightarrow> Inl e
            | Inr compiled \<Rightarrow> Inr ((the m)\<lparr>mAllow := Some (map (\<lambda>(sk, t). (sk, tRaw t)) compiled)\<rparr>)))"

definition Matcher_Allowlist :: "Matcher option \<Rightarrow> string list" where
  "Matcher_Allowlist m =
     (if unbuilt m then []
      else (case mAllow (the m) of None \<Rightarrow> [] | Some entries \<Rightarrow> sort (map snd entries)))"

definition SetExtraTerms :: "unicode \<Rightarrow> string list \<Rightarrow> Matcher option \<Rightarrow> matcher_error + Matcher" where
  "SetExtraTerms u terms m =
     (if unbuilt m then Inl Unbuilt
      else (case compile_terms u terms [] of
              Inl e \<Rightarrow> Inl e
            | Inr compiled \<Rightarrow>
                Inr ((the m)\<lparr>mExtra := Some \<lparr>cName = ExtraListName, cMode = MatchWholeSkeleton,
                   cWhole = compiled, cSubstrings = []\<rparr>\<rparr>)))"

definition ExtraTerms :: "Matcher option \<Rightarrow> string list" where
  "ExtraTerms m =
     (if unbuilt m then []
      else (case mExtra (the m) of None \<Rightarrow> [] | Some cl \<Rightarrow> sort (map (tRaw \<circ> snd) (cWhole cl))))"

definition allowlisted :: "Matcher \<Rightarrow> string \<Rightarrow> string option" where
  "allowlisted m skeleton = (case mAllow m of None \<Rightarrow> None | Some entries \<Rightarrow> map_of entries skeleton)"

definition blockedBy :: "compiledList \<Rightarrow> compiledTerm \<Rightarrow> Result" where
  "blockedBy cl term =
     \<lparr>Allowed = False, rReason = ReasonBlockedTerm, rList = cName cl, rTerm = tRaw term, rMode = cMode cl\<rparr>"

fun first_some :: "('a \<Rightarrow> 'b option) \<Rightarrow> 'a list \<Rightarrow> 'b option" where
  "first_some f [] = None"
| "first_some f (x # xs) = (case f x of None \<Rightarrow> first_some f xs | Some y \<Rightarrow> Some y)"

definition hit_in :: "string list \<Rightarrow> compiledList \<Rightarrow> Result option" where
  "hit_in candidates cl =
     (if cMode cl = MatchWholeSkeleton
      then first_some (\<lambda>c. map_option (blockedBy cl) (map_of (cWhole cl) c)) candidates
      else first_some (\<lambda>c. map_option (blockedBy cl)
             (find (\<lambda>t. Contains c (tSkeleton t)) (cSubstrings cl))) candidates)"

definition Matcher_Check :: "unicode \<Rightarrow> Matcher option \<Rightarrow> string \<Rightarrow> Result" where
  "Matcher_Check u m input =
     (if unbuilt m then refusal ReasonEngineUnavailable
      else if MaxInputBytes < length input then refusal ReasonTooLong
      else
        (let skeleton = Skeleton u input in
         if skeleton = [] then refusal ReasonEmptySkeleton
         else
           (case allowlisted (the m) skeleton of
              Some entry \<Rightarrow> \<lparr>Allowed = True, rReason = ReasonAllowlisted, rList = AllowlistName, rTerm = entry,
                  rMode = MatchModeInvalid\<rparr>
            | None \<Rightarrow>
                (case candidateSkeletons skeleton of
                   None \<Rightarrow> refusal ReasonTooAmbiguous
                 | Some candidates \<Rightarrow>
                     (case first_some (hit_in candidates)
                              ((case mExtra (the m) of None \<Rightarrow> [] | Some extra \<Rightarrow> [extra]) @ mLists (the m)) of
                        Some r \<Rightarrow> r
                      | None \<Rightarrow> \<lparr>Allowed = True, rReason = ReasonAllowed, rList = [], rTerm = [],
                            rMode = MatchModeInvalid\<rparr>)))))"

section \<open>The guard of the services\<close>

datatype Kind = KindInvalid | KindHandle | KindKeySetName | KindDeviceName
datatype Op = OpInvalid | OpCreate | OpRename

definition validateSyntax :: "Kind \<Rightarrow> string \<Rightarrow> unit result" where
  "validateSyntax k name =
     (case k of
        KindHandle \<Rightarrow> ValidateHandle name
      | KindKeySetName \<Rightarrow> ValidateSetName name
      | KindDeviceName \<Rightarrow> ValidateDeviceName name
      | KindInvalid \<Rightarrow> Inl ErrInvalidInput)"

record Guard =
  matcher :: "Matcher option"

definition Guard_Check :: "unicode \<Rightarrow> Guard option \<Rightarrow> Kind \<Rightarrow> Op \<Rightarrow> string \<Rightarrow> unit result" where
  "Guard_Check u g k oper name =
     (case g of
        None \<Rightarrow> Inl ErrBlockedName
      | Some g \<Rightarrow>
          if oper \<noteq> OpCreate \<and> oper \<noteq> OpRename then Inl ErrInvalidInput
          else (case validateSyntax k name of
                  Inl e \<Rightarrow> Inl e
                | Inr _ \<Rightarrow> if Blocked (Matcher_Check u (matcher g) name) then Inl ErrBlockedName else Inr ()))"

section \<open>The candidates are the readings\<close>

text \<open>A reading of a skeleton replaces any of its letters i by the letter l.\<close>

definition reads :: "string \<Rightarrow> string \<Rightarrow> bool" where
  "reads sk c \<longleftrightarrow> list_all2 (\<lambda>a b. b = a \<or> a = CHR ''i'' \<and> b = CHR ''l'') sk c"

lemma readings_ambiguous: "readings ambiguousReadings c = (if c = CHR ''i'' then ''l'' else [])"
  by (simp add: readings_def ambiguousReadings_def)

lemma scan_positions_eq:
  "scan_positions ambiguousReadings i sk ps =
     (if maxAmbiguousRunes < length ps + count_list sk (CHR ''i'') then None
      else Some (ps @ filter (\<lambda>j. sk ! (j - i) = CHR ''i'') [i..<i + length sk]))"
  if "length ps \<le> maxAmbiguousRunes"
  using that
proof (induction sk arbitrary: i ps)
  case Nil
  then show ?case by simp
next
  case (Cons c sk)
  have "filter (\<lambda>j. (c # sk) ! (j - i) = CHR ''i'') [Suc i..<Suc (i + length sk)]
      = filter (\<lambda>j. sk ! (j - Suc i) = CHR ''i'') [Suc i..<Suc (i + length sk)]"
    by (rule filter_cong) (auto simp: nth_Cons' Suc_diff_le)
  moreover have "[i..<Suc (i + length sk)] = i # [Suc i..<Suc (i + length sk)]"
    by (simp add: upt_conv_Cons del: upt_Suc)
  ultimately have tail: "filter (\<lambda>j. (c # sk) ! (j - i) = CHR ''i'') [i..<Suc (i + length sk)]
      = (if c = CHR ''i'' then [i] else []) @ filter (\<lambda>j. sk ! (j - Suc i) = CHR ''i'') [Suc i..<Suc (i + length sk)]"
    by (cases "c = CHR ''i''") (simp_all del: upt_Suc)
  show ?case
    using Cons.prems Cons.IH [of ps "Suc i"] Cons.IH [of "ps @ [i]" "Suc i"]
    by (simp add: tail ambiguousReadings_def del: upt_Suc)
qed

lemma within_ceiling_ok:
  assumes "acc * 2 ^ length ps \<le> maxCandidateSkeletons"
  shows "within_ceiling ambiguousReadings sk ps acc"
  using assms
proof (induction ps arbitrary: acc)
  case Nil
  then show ?case by simp
next
  case (Cons p ps)
  have "acc * (1 + length (readings ambiguousReadings (sk ! p))) \<le> acc * 2" by (simp add: readings_ambiguous)
  then have "acc * (1 + length (readings ambiguousReadings (sk ! p))) * 2 ^ length ps \<le> acc * 2 * 2 ^ length ps"
    by (rule mult_le_mono1)
  then have le: "acc * (1 + length (readings ambiguousReadings (sk ! p))) * 2 ^ length ps \<le> maxCandidateSkeletons"
    using Cons.prems by (simp only: length_Cons power_Suc mult.assoc)
  then have "acc * (1 + length (readings ambiguousReadings (sk ! p))) \<le> maxCandidateSkeletons"
    by (metis le_trans mult_le_mono2 nat_mult_1_right one_le_numeral one_le_power)
  then show ?case using Cons.IH [OF le] by (simp add: Let_def)
qed

lemma set_grow:
  "set (grow table sk cs p) = set cs \<union> (\<lambda>(r, c). c[p := r]) ` (set (readings table (sk ! p)) \<times> set cs)"
  by (auto simp: grow_def)

text \<open>After a set of positions is processed, the candidates differ from the skeleton there only, by a reading.\<close>

lemma set_foldl_grow:
  assumes "distinct ps" and "set ps \<subseteq> {..<length sk}"
  shows "set (foldl (grow table sk) [sk] ps) =
    {c. length c = length sk \<and> (\<forall>j < length sk. c ! j = sk ! j \<or> j \<in> set ps \<and> c ! j \<in> set (readings table (sk ! j)))}"
  using assms
proof (induction ps rule: rev_induct)
  case Nil
  then show ?case by (auto intro: nth_equalityI)
next
  case (snoc p ps)
  let ?R = "\<lambda>ps. {c. length c = length sk \<and>
     (\<forall>j < length sk. c ! j = sk ! j \<or> j \<in> set ps \<and> c ! j \<in> set (readings table (sk ! j)))}"
  have IH: "set (foldl (grow table sk) [sk] ps) = ?R ps" using snoc by simp
  have p: "p < length sk" "p \<notin> set ps" using snoc.prems by auto
  have "?R (ps @ [p]) \<subseteq> ?R ps \<union> (\<lambda>(r, c). c[p := r]) ` (set (readings table (sk ! p)) \<times> ?R ps)"
  proof
    fix c assume c: "c \<in> ?R (ps @ [p])"
    show "c \<in> ?R ps \<union> (\<lambda>(r, c). c[p := r]) ` (set (readings table (sk ! p)) \<times> ?R ps)"
    proof (cases "c ! p = sk ! p")
      case True
      with c show ?thesis by fastforce
    next
      case False
      with c p have "c ! p \<in> set (readings table (sk ! p))" by auto
      moreover have "c[p := sk ! p] \<in> ?R ps" using c p by (auto simp: nth_list_update)
      moreover have "c = (c[p := sk ! p])[p := c ! p]" by simp
      ultimately show ?thesis by (intro UnI2) (rule image_eqI [where x = "(c ! p, c[p := sk ! p])"], auto)
    qed
  qed
  moreover have "?R ps \<union> (\<lambda>(r, c). c[p := r]) ` (set (readings table (sk ! p)) \<times> ?R ps) \<subseteq> ?R (ps @ [p])"
    using p by (auto simp: nth_list_update split: if_splits)
  ultimately have "?R ps \<union> (\<lambda>(r, c). c[p := r]) ` (set (readings table (sk ! p)) \<times> ?R ps) = ?R (ps @ [p])"
    by (rule subset_antisym [rotated])
  then show ?case by (simp only: foldl_append foldl.simps set_grow IH)
qed

lemma length_positions: "length (filter (\<lambda>j. sk ! j = x) [0..<length sk]) = count_list sk x"
proof (induction sk rule: rev_induct)
  case (snoc c sk)
  have "filter (\<lambda>j. (sk @ [c]) ! j = x) [0..<length sk] = filter (\<lambda>j. sk ! j = x) [0..<length sk]"
    by (rule filter_cong) (auto simp: nth_append)
  then show ?case using snoc by simp
qed simp

lemma candidateSkeletons_eq:
  "candidateSkeletons sk =
     (if maxAmbiguousRunes < count_list sk (CHR ''i'') then None
      else Some (foldl (grow ambiguousReadings sk) [sk] (filter (\<lambda>j. sk ! j = CHR ''i'') [0..<length sk])))"
proof -
  have "within_ceiling ambiguousReadings sk (filter (\<lambda>j. sk ! j = CHR ''i'') [0..<length sk]) 1"
    if "count_list sk (CHR ''i'') \<le> maxAmbiguousRunes"
    using that by (intro within_ceiling_ok) (simp add: length_positions maxCandidateSkeletons_def)
  then show ?thesis
    by (auto simp: candidateSkeletons_def expandCandidates_def scan_positions_eq not_less)
qed

lemma set_candidateSkeletons:
  assumes "candidateSkeletons sk = Some cs"
  shows "set cs = {c. reads sk c}"
proof -
  let ?ps = "filter (\<lambda>j. sk ! j = CHR ''i'') [0..<length sk]"
  have "cs = foldl (grow ambiguousReadings sk) [sk] ?ps"
    using assms by (simp add: candidateSkeletons_eq split: if_splits)
  moreover have "distinct ?ps" "set ?ps \<subseteq> {..<length sk}" by auto
  ultimately show ?thesis
    by (auto simp: set_foldl_grow readings_ambiguous reads_def list_all2_conv_all_nth split: if_splits)
qed

section \<open>What the matcher decides\<close>

lemma first_some_None: "first_some f xs = None \<longleftrightarrow> (\<forall>x \<in> set xs. f x = None)"
  by (induction xs) (auto split: option.splits)

lemma first_some_Some: "first_some f xs = Some y \<Longrightarrow> \<exists>x \<in> set xs. f x = Some y"
  by (induction xs) (auto split: option.splits)

lemma hit_in_refuses: "hit_in cs cl = Some r \<Longrightarrow> \<not> Allowed r"
  by (auto simp: hit_in_def blockedBy_def dest!: first_some_Some split: if_splits)

lemma compile_terms_Inr:
  assumes "compile_terms u rs acc = Inr out"
  shows "out = acc @ map (\<lambda>raw. (Skeleton u raw, \<lparr>tSkeleton = Skeleton u raw, tRaw = raw\<rparr>)) rs"
  using assms by (induction u rs acc rule: compile_terms.induct) (auto simp: Let_def split: if_splits option.splits)

text \<open>The lists of a matcher, as the word lists they were compiled from.\<close>

definition compiled :: "unicode \<Rightarrow> WordList \<Rightarrow> compiledList" where
  "compiled u l =
     (let terms = map (\<lambda>raw. (Skeleton u raw, \<lparr>tSkeleton = Skeleton u raw, tRaw = raw\<rparr>)) (lTerms l) in
      \<lparr>cName = lName l, cMode = lMode l, cWhole = (if lMode l = MatchWholeSkeleton then terms else []),
       cSubstrings = (if lMode l = MatchWholeSkeleton then [] else map snd terms)\<rparr>)"

lemma compile_lists_Inr:
  assumes "compile_lists u ls seen acc = Inr out"
  shows "out = acc @ map (compiled u) ls \<and> (\<forall>l \<in> set ls. lMode l = MatchWholeSkeleton \<or> lMode l = MatchSubstring)"
  using assms
proof (induction u ls seen acc rule: compile_lists.induct)
  case (2 u l ls seen acc)
  then obtain terms where terms: "compile_terms u (lTerms l) [] = Inr terms"
    by (auto split: if_splits sum.splits)
  from 2 show ?case using compile_terms_Inr [OF terms] by (auto simp: terms compiled_def split: if_splits)
qed simp

lemma NewMatcher_lists:
  assumes "NewMatcher u ls = Inr m"
  shows "mReady m" "set (mLists m) = compiled u ` set ls" "mAllow m = None" "mExtra m = None"
    "\<forall>l \<in> set ls. lMode l = MatchWholeSkeleton \<or> lMode l = MatchSubstring"
proof -
  obtain out where out: "compile_lists u ls [] [] = Inr out" using assms by (auto simp: NewMatcher_def split: sum.splits)
  have modes: "\<forall>l \<in> set ls. lMode l = MatchWholeSkeleton \<or> lMode l = MatchSubstring" and eq: "out = map (compiled u) ls"
    using compile_lists_Inr [OF out] by auto
  have m: "m = \<lparr>mReady = True, mLists = filter (\<lambda>cl. cMode cl = MatchWholeSkeleton) out
      @ filter (\<lambda>cl. cMode cl = MatchSubstring) out, mAllow = None, mExtra = None\<rparr>"
    using assms by (simp add: NewMatcher_def out)
  show "mReady m" "mAllow m = None" "mExtra m = None" by (simp_all add: m)
  show "set (mLists m) = compiled u ` set ls" using modes by (auto simp: m eq compiled_def Let_def)
  show "\<forall>l \<in> set ls. lMode l = MatchWholeSkeleton \<or> lMode l = MatchSubstring" by (fact modes)
qed

text \<open>When a list says nothing about a reading.\<close>

definition silent :: "unicode \<Rightarrow> WordList \<Rightarrow> string \<Rightarrow> bool" where
  "silent u l c \<longleftrightarrow> (\<forall>t \<in> set (lTerms l).
     if lMode l = MatchWholeSkeleton then c \<noteq> Skeleton u t else \<not> Contains c (Skeleton u t))"

lemma hit_in_compiled: "hit_in cs (compiled u l) = None \<longleftrightarrow> (\<forall>c \<in> set cs. silent u l c)"
  by (auto simp: hit_in_def compiled_def Let_def first_some_None silent_def map_of_eq_None_iff image_image find_None_iff)

lemma SetAllowlist_Inr:
  "SetAllowlist u al (Some m) = Inr m' \<Longrightarrow>
     mReady m \<and> m' = m\<lparr>mAllow := Some (map (\<lambda>raw. (Skeleton u raw, raw)) al)\<rparr>"
  by (auto simp: SetAllowlist_def unbuilt_def dest: compile_terms_Inr split: if_splits sum.splits)

lemma SetExtraTerms_Inr:
  "SetExtraTerms u ex (Some m) = Inr m' \<Longrightarrow>
     mReady m \<and> m' = m\<lparr>mExtra := Some (compiled u \<lparr>lName = ExtraListName, lMode = MatchWholeSkeleton, lTerms = ex\<rparr>)\<rparr>"
  by (auto simp: SetExtraTerms_def unbuilt_def compiled_def dest: compile_terms_Inr split: if_splits sum.splits)

lemma Check_Allowed:
  assumes "mReady m"
    and "set ((case mExtra m of None \<Rightarrow> [] | Some extra \<Rightarrow> [extra]) @ mLists m) = compiled u ` L"
  shows "Allowed (Matcher_Check u (Some m) name) \<longleftrightarrow>
    length name \<le> MaxInputBytes \<and> Skeleton u name \<noteq> [] \<and>
    (allowlisted m (Skeleton u name) \<noteq> None \<or>
     count_list (Skeleton u name) (CHR ''i'') \<le> maxAmbiguousRunes \<and>
     (\<forall>c. reads (Skeleton u name) c \<longrightarrow> (\<forall>l \<in> L. silent u l c)))"
proof (cases "candidateSkeletons (Skeleton u name)")
  case None
  then have "maxAmbiguousRunes < count_list (Skeleton u name) (CHR ''i'')"
    by (simp add: candidateSkeletons_eq split: if_splits)
  with None assms(1) show ?thesis by (auto simp: Matcher_Check_def unbuilt_def Let_def split: option.splits)
next
  case (Some cs)
  let ?hits = "first_some (hit_in cs) ((case mExtra m of None \<Rightarrow> [] | Some extra \<Rightarrow> [extra]) @ mLists m)"
  have few: "count_list (Skeleton u name) (CHR ''i'') \<le> maxAmbiguousRunes"
    using Some by (simp add: candidateSkeletons_eq split: if_splits)
  have "?hits = None \<longleftrightarrow> (\<forall>c. reads (Skeleton u name) c \<longrightarrow> (\<forall>l \<in> L. silent u l c))"
    unfolding first_some_None assms(2) using set_candidateSkeletons [OF Some] by (auto simp: hit_in_compiled)
  moreover have "?hits = Some r \<Longrightarrow> \<not> Allowed r" for r
    using first_some_Some [of "hit_in cs"] hit_in_refuses by blast
  ultimately show ?thesis
    using assms(1) Some few
    by (cases ?hits; cases "allowlisted m (Skeleton u name)") (simp_all add: Matcher_Check_def unbuilt_def Let_def not_le)
qed

text \<open>
  C31: what the matcher refuses, exactly. Take a matcher built from any word lists, with any allowlist and any
  administrator terms installed. It allows a name exactly when the name is at most 256 bytes, has a skeleton,
  and either the skeleton is that of an allowlisted entry, or the skeleton has at most twelve letters i and none
  of its readings, each i read as i or as l, is the skeleton of a whole-word or administrator term or contains
  the skeleton of a substring term. So no spelling that folds to a reserved word is let through by the order of
  the lists, the early exits or the bounded expansion.
\<close>

theorem check_exactly:
  assumes "NewMatcher u ls = Inr m0" and "SetAllowlist u al (Some m0) = Inr m1" and "SetExtraTerms u ex (Some m1) = Inr m"
  shows "Allowed (Matcher_Check u (Some m) name) \<longleftrightarrow>
    length name \<le> 256 \<and> Skeleton u name \<noteq> [] \<and>
    (Skeleton u name \<in> Skeleton u ` set al \<or>
     count_list (Skeleton u name) (CHR ''i'') \<le> 12 \<and>
     (\<forall>c. reads (Skeleton u name) c \<longrightarrow>
        c \<notin> Skeleton u ` set ex \<and>
        (\<forall>l \<in> set ls. \<forall>t \<in> set (lTerms l).
           if lMode l = MatchWholeSkeleton then c \<noteq> Skeleton u t else \<not> Contains c (Skeleton u t))))"
proof -
  let ?extra = "\<lparr>lName = ExtraListName, lMode = MatchWholeSkeleton, lTerms = ex\<rparr>"
  note built = NewMatcher_lists [OF assms(1)]
  from SetAllowlist_Inr [OF assms(2)] SetExtraTerms_Inr [OF assms(3)]
  have m: "m = m0\<lparr>mAllow := Some (map (\<lambda>raw. (Skeleton u raw, raw)) al), mExtra := Some (compiled u ?extra)\<rparr>" by simp
  have "allowlisted m (Skeleton u name) \<noteq> None \<longleftrightarrow> Skeleton u name \<in> Skeleton u ` set al"
    by (simp add: m allowlisted_def map_of_eq_None_iff image_image)
  moreover have "silent u ?extra c \<longleftrightarrow> c \<notin> Skeleton u ` set ex" for c by (auto simp: silent_def)
  ultimately show ?thesis
    using Check_Allowed [of m u "insert ?extra (set ls)" name] built
    by (simp add: m MaxInputBytes_def maxAmbiguousRunes_def silent_def)
qed

definition plain :: unicode where
  "plain = \<lparr>nfkd = (\<lambda>s. s), in_Mn = (\<lambda>_. False), in_Pd = (\<lambda>r. r = 45), in_Pc = (\<lambda>r. r = 95), ToLower = lower_rune\<rparr>"

definition sample_lists :: "WordList list" where
  "sample_lists = [\<lparr>lName = ''routing'', lMode = MatchWholeSkeleton, lTerms = [''help'', ''admin'']\<rparr>,
     \<lparr>lName = ''other'', lMode = MatchSubstring, lTerms = [''spam'']\<rparr>]"

definition sample_matcher :: Matcher where
  "sample_matcher = projr (SetExtraTerms plain [''wallet''] (Some (projr
     (SetAllowlist plain [''spamalot''] (Some (projr (NewMatcher plain sample_lists)))))))"

theorem check_exactly_witness:
  "\<not> Allowed (Matcher_Check plain (Some sample_matcher) ''he1p'') \<and>
   \<not> Allowed (Matcher_Check plain (Some sample_matcher) ''nospam'') \<and>
   Allowed (Matcher_Check plain (Some sample_matcher) ''spamalot'') \<and>
   Allowed (Matcher_Check plain (Some sample_matcher) ''keily'')"
proof -
  define m0 where "m0 = projr (NewMatcher plain sample_lists)"
  define m1 where "m1 = projr (SetAllowlist plain [''spamalot''] (Some m0))"
  have canonical: "list_all canonical_byte s \<Longrightarrow> s \<noteq> [] \<Longrightarrow> Skeleton plain s = s" for s by (simp add: Skeleton_def)
  have sk: "Skeleton plain ''nospam'' = ''nospam''" "Skeleton plain ''keily'' = ''keily''"
    "Skeleton plain ''wallet'' = ''wallet''" "Skeleton plain ''spamalot'' = ''spamalot''"
    "Skeleton plain ''help'' = ''help''" "Skeleton plain ''admin'' = ''admin''" "Skeleton plain ''spam'' = ''spam''"
    by (simp_all add: canonical canonical_byte_def is_lower_def byte_def)
  have "EncodeRune 104 = ''h''" "EncodeRune 101 = ''e''" "EncodeRune 49 = ''1''" "EncodeRune 112 = ''p''"
    using EncodeRune_byte [of "CHR ''h''"] EncodeRune_byte [of "CHR ''e''"] EncodeRune_byte [of "CHR ''1''"]
      EncodeRune_byte [of "CHR ''p''"] by (simp_all add: byte_def)
  then have folded: "Skeleton plain ''he1p'' = ''heip''"
    by (simp add: Skeleton_def canonical_byte_def is_lower_def sanitize_def runes_ascii plain_def lower_rune_def
        confusables_def leetspeak_def writeFolded_def isSeparator_def is_Cf_def Cf_ranges_def
        IsSpace_def RuneError_def byte_def)
  have 0: "NewMatcher plain sample_lists = Inr m0"
    by (simp add: m0_def NewMatcher_def sample_lists_def sk Let_def)
  then have ready: "mReady m0" by (rule NewMatcher_lists)
  have 1: "SetAllowlist plain [''spamalot''] (Some m0) = Inr m1"
    using ready by (simp add: m1_def SetAllowlist_def unbuilt_def sk Let_def)
  then have "mReady m1" using SetAllowlist_Inr by fastforce
  then have "SetExtraTerms plain [''wallet''] (Some m1) = Inr (projr (SetExtraTerms plain [''wallet''] (Some m1)))"
    by (simp add: SetExtraTerms_def unbuilt_def sk Let_def)
  then have 2: "SetExtraTerms plain [''wallet''] (Some m1) = Inr sample_matcher"
    by (simp only: sample_matcher_def m1_def m0_def)
  note exact = check_exactly [OF 0 1 2]
  have rd: "reads ''heip'' ''help''" "reads ''nospam'' ''nospam''" by (simp_all add: reads_def)
  have refused: "\<not> Allowed (Matcher_Check plain (Some sample_matcher) name)"
    if "Skeleton plain name \<noteq> ''spamalot''" "reads (Skeleton plain name) c" "l \<in> set sample_lists" "t \<in> set (lTerms l)"
      "if lMode l = MatchWholeSkeleton then c = Skeleton plain t else Contains c (Skeleton plain t)" for name c l t
  proof
    assume "Allowed (Matcher_Check plain (Some sample_matcher) name)"
    then have "\<forall>l \<in> set sample_lists. \<forall>t \<in> set (lTerms l).
        if lMode l = MatchWholeSkeleton then c \<noteq> Skeleton plain t else \<not> Contains c (Skeleton plain t)"
      using that(1,2) unfolding exact by (simp add: sk(4))
    then have "if lMode l = MatchWholeSkeleton then c \<noteq> Skeleton plain t else \<not> Contains c (Skeleton plain t)"
      using that(3,4) by blast
    with that(5) show False by (simp split: if_splits)
  qed
  have "Allowed (Matcher_Check plain (Some sample_matcher) ''keily'')"
    unfolding exact by (auto simp: sk reads_def list_all2_Cons1 sample_lists_def Contains_def)
  moreover have "Allowed (Matcher_Check plain (Some sample_matcher) ''spamalot'')"
    unfolding exact by (simp add: sk)
  moreover have "\<not> Allowed (Matcher_Check plain (Some sample_matcher) ''he1p'')"
    by (rule refused [where c = "''help''" and l = "sample_lists ! 0" and t = "''help''"])
      (simp_all add: sample_lists_def sk folded rd)
  moreover have "\<not> Allowed (Matcher_Check plain (Some sample_matcher) ''nospam'')"
    by (rule refused [where c = "''nospam''" and l = "sample_lists ! 1" and t = "''spam''"])
      (simp_all add: sample_lists_def sk rd Contains_def)
  ultimately show ?thesis by simp
qed

end
