(* ===== verification/Name_Repos.thy ===== *)
theory Name_Repos
  imports Key_Repos Blocklist
begin

text \<open>
  The repositories of handles, administrators and list overrides (\<^verbatim>\<open>internal/storage/sqlite\<close>). A handle is
  stored with the skeleton of its name and the revision of the folding tables it was computed with; the table
  refuses a name, a skeleton or a second active handle of an owner that is already there.
\<close>

section \<open>Handles\<close>

text \<open>The rows a statement leaves, checked against the unique indexes of the table.\<close>

definition handles_unique :: "HandleRow list \<Rightarrow> bool" where
  "handles_unique rows \<longleftrightarrow>
     distinct (map hID rows) \<and> distinct (map hName rows) \<and> distinct (map hNameFold rows)
     \<and> distinct (map hOwnerID (filter (\<lambda>r. hState r = NameStateActive) rows))"

definition handle_of :: "HandleRow \<Rightarrow> Handle" where
  "handle_of r = Handle.truncate r"

definition refuseIfFoldStale :: "unit conn" where
  "refuseIfFoldStale =
     query (\<lambda>d. if list_ex (\<lambda>r. hFoldVersion r \<noteq> TableVersion) (handles d) then Inl ErrFoldStale else Inr ())"

definition handle_row :: "unicode \<Rightarrow> Handle \<Rightarrow> HandleRow" where
  "handle_row u h = Handle.extend h \<lparr>hNameFold = Skeleton u (hName h), hFoldVersion = TableVersion\<rparr>"

definition Handles_Register :: "unicode \<Rightarrow> Handle \<Rightarrow> unit conn" where
  "Handles_Register u h = attempt refuseIfFoldStale (\<lambda>_. exec (\<lambda>d.
     let rows = handles d @ [handle_row u h] in
     if \<not> handles_unique rows then Inl ErrConflict
     else if \<not> owner_exists (hOwnerID h) d then Inl ErrStorage
     else Inr ((), d\<lparr>handles := rows\<rparr>)))"

definition Handles_GetByName :: "string \<Rightarrow> Handle conn" where
  "Handles_GetByName name = query (\<lambda>d. found (map_option handle_of (find (\<lambda>r. hName r = name) (handles d))))"

definition Handles_Get :: "OwnerID \<Rightarrow> HandleID \<Rightarrow> Handle conn" where
  "Handles_Get ow i =
     query (\<lambda>d. found (map_option handle_of (find (\<lambda>r. hID r = i \<and> hOwnerID r = ow) (handles d))))"

definition Handles_GetActiveByOwner :: "OwnerID \<Rightarrow> Handle conn" where
  "Handles_GetActiveByOwner ow = query (\<lambda>d. found (map_option handle_of
     (find (\<lambda>r. hOwnerID r = ow \<and> hState r = NameStateActive) (handles d))))"

definition Handles_ListByOwner :: "OwnerID \<Rightarrow> Handle list conn" where
  "Handles_ListByOwner ow =
     query (\<lambda>d. Inr (map handle_of (order_by hCreatedAt hID (filter (\<lambda>r. hOwnerID r = ow) (handles d)))))"

definition update_handles :: "(HandleRow \<Rightarrow> bool) \<Rightarrow> (HandleRow \<Rightarrow> HandleRow) \<Rightarrow> nat conn" where
  "update_handles P f = exec (\<lambda>d.
     let rows = update_where P f (handles d) in
     if \<not> handles_unique rows then Inl ErrConflict
     else Inr (count_where P (handles d), d\<lparr>handles := rows\<rparr>))"

definition Handles_Update :: "bool \<Rightarrow> Handle \<Rightarrow> unit conn" where
  "Handles_Update inTx h = withLocalTx inTx
     (attempt (query (\<lambda>d. found (map_option hName
         (find (\<lambda>r. hID r = hID h \<and> hOwnerID r = hOwnerID h) (handles d))))) (\<lambda>current.
        if current \<noteq> hName h then throw ErrImmutable
        else
          attempt
            (update_handles (\<lambda>r. hID r = hID h \<and> hOwnerID r = hOwnerID h)
               (\<lambda>r. r\<lparr>hState := hState h, hQuarantineUntil := hQuarantineUntil h,
                  hFlaggedForReview := hFlaggedForReview h, hQuarantineOnRelease := hQuarantineOnRelease h,
                  hUpdatedAt := hUpdatedAt h\<rparr>))
            requireAffected))"

definition Handles_ListExpiredQuarantine :: "time \<Rightarrow> int \<Rightarrow> Handle list conn" where
  "Handles_ListExpiredQuarantine now limit =
     (if limit \<le> 0 then throw ErrInvalidInput
      else query (\<lambda>d. Inr (map handle_of (take (nat limit) (order_by (\<lambda>r. the (hQuarantineUntil r)) hID
        (filter (\<lambda>r. expired_hold (hState r) (hQuarantineUntil r) now) (handles d)))))))"

definition Handles_Release :: "HandleID \<Rightarrow> time \<Rightarrow> unit conn" where
  "Handles_Release i now =
     attempt
       (exec (\<lambda>d.
          let hit = (\<lambda>r. hID r = i \<and> expired_hold (hState r) (hQuarantineUntil r) now) in
          Inr (count_where hit (handles d), d\<lparr>handles := delete_where hit (handles d)\<rparr>)))
       requireAffected"

definition Handles_ListStaleFolds :: "int \<Rightarrow> Handle list conn" where
  "Handles_ListStaleFolds currentVersion = query (\<lambda>d. Inr (map handle_of
     (order_by hCreatedAt hID (filter (\<lambda>r. hFoldVersion r \<noteq> currentVersion) (handles d)))))"

definition Handles_SetFold :: "HandleID \<Rightarrow> string \<Rightarrow> int \<Rightarrow> time \<Rightarrow> unit conn" where
  "Handles_SetFold i nameFold version updatedAt =
     attempt
       (update_handles (\<lambda>r. hID r = i)
          (\<lambda>r. r\<lparr>hNameFold := nameFold, hFoldVersion := version, hUpdatedAt := updatedAt\<rparr>))
       requireAffected"

definition Handles_QuarantineLookalike :: "HandleID \<Rightarrow> time \<Rightarrow> unit conn" where
  "Handles_QuarantineLookalike i updatedAt =
     attempt
       (update_handles (\<lambda>r. hID r = i)
          (\<lambda>r. r\<lparr>hState := NameStateQuarantined, hQuarantineUntil := None, hFlaggedForReview := True,
             hUpdatedAt := updatedAt\<rparr>))
       requireAffected"

section \<open>Administrators\<close>

definition Admins_Create :: "Administrator \<Rightarrow> unit conn" where
  "Admins_Create a =
     (if admID a = [] then throw ErrInvalidInput
      else exec (\<lambda>d.
        if list_ex (\<lambda>r. admID r = admID a) (administrators d) then Inl ErrConflict
        else Inr ((), d\<lparr>administrators := administrators d @ [a]\<rparr>)))"

definition Admins_Get :: "AdministratorID \<Rightarrow> Administrator conn" where
  "Admins_Get i =
     (if i = [] then throw ErrInvalidInput
      else query (\<lambda>d. found (find (\<lambda>r. admID r = i) (administrators d))))"

definition Admins_List :: "Administrator list conn" where
  "Admins_List = query (\<lambda>d. Inr (sort_key admID (administrators d)))"

definition update_admin :: "AdministratorID \<Rightarrow> (Administrator \<Rightarrow> Administrator) \<Rightarrow> unit conn" where
  "update_admin i f =
     (if i = [] then throw ErrInvalidInput
      else
        attempt
          (exec (\<lambda>d. Inr (count_where (\<lambda>r. admID r = i) (administrators d),
             d\<lparr>administrators := update_where (\<lambda>r. admID r = i) f (administrators d)\<rparr>)))
          requireAffected)"

definition Admins_SetLabel :: "AdministratorID \<Rightarrow> string \<Rightarrow> time \<Rightarrow> unit conn" where
  "Admins_SetLabel i label now = update_admin i (\<lambda>r. r\<lparr>admLabel := label, admUpdatedAt := now\<rparr>)"

definition Admins_UpdateStatus :: "AdministratorID \<Rightarrow> AdminStatus \<Rightarrow> time \<Rightarrow> unit conn" where
  "Admins_UpdateStatus i status now = update_admin i (\<lambda>r. r\<lparr>admStatus := status, admUpdatedAt := now\<rparr>)"

section \<open>List overrides\<close>

definition ListOverrides_Put :: "ListOverride \<Rightarrow> unit conn" where
  "ListOverrides_Put x =
     (if loSkeleton x = [] then throw ErrInvalidInput
      else if loEntry x = [] then throw ErrInvalidInput
      else if loActorID x = [] then throw ErrInvalidInput
      else exec (\<lambda>d.
        let hit = (\<lambda>r. loList r = loList x \<and> loSkeleton r = loSkeleton x) in
        Inr ((), d\<lparr>list_overrides :=
          (if list_ex hit (list_overrides d)
           then update_where hit (\<lambda>r. r\<lparr>loEntry := loEntry x, loState := loState x, loActorID := loActorID x,
                  loUpdatedAt := loUpdatedAt x\<rparr>) (list_overrides d)
           else list_overrides d @ [x])\<rparr>)))"

definition list_name :: "ListKind \<Rightarrow> string" where
  "list_name k = (case k of ListKindAllowlist \<Rightarrow> ''allowlist'' | ListKindBlocklistTerm \<Rightarrow> ''blocklist_term'')"

definition ListOverrides_List :: "ListOverride list conn" where
  "ListOverrides_List = query (\<lambda>d. Inr (order_by (\<lambda>r. list_name (loList r)) loSkeleton (list_overrides d)))"

end
