(* ===== verification/Erasure.thy ===== *)
theory Erasure
  imports Audit_Log Name_Repos Crypto Base64
begin

text \<open>
  Erasure of an owner from the audit log (\<^verbatim>\<open>internal/erasure\<close>: \<^verbatim>\<open>erasure.go\<close>, \<^verbatim>\<open>graph.go\<close>, \<^verbatim>\<open>owner.go\<close>).
  The identifiers of the owner's rows are collected, the erasure is recorded, the identifying details of the
  records that name them and then the identifiers themselves are replaced by keyed tombstones, and the key is
  destroyed. Shown: what a completed erasure leaves of the log.
\<close>

section \<open>Tombstones\<close>

definition tombstonePrefix :: string where "tombstonePrefix = ''anon:''"

definition Tombstone :: "bytes \<Rightarrow> string \<Rightarrow> string" where
  "Tombstone salt i = tombstonePrefix @ RawURL_Encode (hmac_sha256 salt i)"

definition Tombstone_Verify :: "bytes \<Rightarrow> string \<Rightarrow> string \<Rightarrow> bool" where
  "Tombstone_Verify salt i tombstone \<longleftrightarrow> Tombstone salt i = tombstone"

definition isTombstone :: "string \<Rightarrow> bool" where
  "isTombstone s \<longleftrightarrow>
     (case CutPrefix s tombstonePrefix of
        None \<Rightarrow> False
      | Some rest \<Rightarrow> (case RawURL_Decode rest of None \<Rightarrow> False | Some raw \<Rightarrow> length raw = 32))"

text \<open>Whether a detail is rewritten; the range over the map writes each key at most once.\<close>

definition to_scrub :: "string \<times> string \<Rightarrow> bool" where
  "to_scrub kv \<longleftrightarrow> \<not> (snd kv = [] \<or> isTombstone (snd kv) \<or> \<not> IsErasableDetail (fst kv))"

definition scrubDetails :: "(string \<times> string) list \<Rightarrow> bytes \<Rightarrow> (string \<times> string) list \<times> bool" where
  "scrubDetails meta salt =
     (if list_ex to_scrub meta
      then (map (\<lambda>kv. if to_scrub kv then (fst kv, Tombstone salt (snd kv)) else kv) meta, True)
      else (meta, False))"

section \<open>The eraser\<close>

definition scrubMetadata :: "string list \<Rightarrow> bytes \<Rightarrow> unit conn" where
  "scrubMetadata ids salt =
     attempt (Audit_RecordsForErasure ids) (\<lambda>recs.
       let updates = concat (map (\<lambda>r.
             case scrubDetails (arMetadata r) salt of (m, changed) \<Rightarrow> if changed then [(arID r, m)] else []) recs) in
       if updates = [] then ret ()
       else attempt (Audit_ScrubMetadata updates) (\<lambda>_. ret ()))"

fun erase_ids :: "bytes \<Rightarrow> string list \<Rightarrow> nat \<Rightarrow> (session, nat \<times> err option) state" where
  "erase_ids salt [] rewritten = State_Monad.return (rewritten, None)"
| "erase_ids salt (i # ids) rewritten = do {
     r \<leftarrow> Audit_Pseudonymize [i] (Tombstone salt i);
     (case r of
        Inl e \<Rightarrow> State_Monad.return (rewritten, Some e)
      | Inr n \<Rightarrow> erase_ids salt ids (rewritten + n))
   }"

definition Eraser_EraseOwner :: "string \<Rightarrow> string list \<Rightarrow> bytes \<Rightarrow> time \<Rightarrow> (session, nat \<times> err option) state" where
  "Eraser_EraseOwner ow ids fresh now =
     (if ow = [] then State_Monad.return (0, Some ErrInvalidInput)
      else do {
        rs \<leftarrow> OwnerSalts_Ensure False ow fresh now;
        (case rs of
           Inl e \<Rightarrow> State_Monad.return (0, Some e)
         | Inr salt \<Rightarrow> do {
             rm \<leftarrow> scrubMetadata ids salt;
             (case rm of
                Inl e \<Rightarrow> State_Monad.return (0, Some e)
              | Inr _ \<Rightarrow> do {
                  re \<leftarrow> erase_ids salt ids 0;
                  (case re of
                     (rewritten, Some e) \<Rightarrow> State_Monad.return (rewritten, Some e)
                   | (rewritten, None) \<Rightarrow> do {
                       rd \<leftarrow> OwnerSalts_Destroy ow;
                       (case rd of
                          Inl e \<Rightarrow> State_Monad.return (rewritten, Some e)
                        | Inr _ \<Rightarrow> State_Monad.return (rewritten, None))
                     })
                })
           })
      })"

section \<open>The owner's identifiers\<close>

definition add_id :: "string list \<Rightarrow> string \<Rightarrow> string list" where
  "add_id out i = (if i = [] \<or> i \<in> set out then out else out @ [i])"

definition collectInto :: "'a list conn \<Rightarrow> ('a \<Rightarrow> string) \<Rightarrow> string list \<Rightarrow> string list conn" where
  "collectInto rows f out = attempt rows (\<lambda>rs. ret (foldl (\<lambda>out r. add_id out (f r)) out rs))"

definition Graph_Collect :: "OwnerID \<Rightarrow> string list conn" where
  "Graph_Collect ow =
     (if ow = [] then throw ErrInvalidInput
      else
        attempt (collectInto (Handles_ListByOwner ow) hID (add_id [] ow)) (\<lambda>out.
        attempt (collectInto (Devices_ListByOwner ow) dID out) (\<lambda>out.
        attempt (collectInto (PublicKeys_ListByOwner ow) pkID out) (\<lambda>out.
        attempt (collectInto (KeySets_ListByOwner ow) ksID out) (\<lambda>out.
        attempt (collectInto (AccessKeys_ListByOwner ow) akID out) (\<lambda>out.
        attempt (collectInto (RefreshCredentials_ListByOwner ow) rcID out) (\<lambda>out.
        attempt (collectInto (LinkedIdentities_ListByOwner ow) liID out) (\<lambda>out.
        collectInto (DevicePairings_ListByOwner ow) dpID out))))))))"

definition OwnerEraser_record :: "(nat \<Rightarrow> bool) \<Rightarrow> OwnerID \<Rightarrow> string \<Rightarrow> time \<Rightarrow> unit conn" where
  "OwnerEraser_record isPrint ow newID now =
     Emit isPrint
       \<lparr>evActorType = ActorTypeSystem, evActorID = [], evAction = AuditActionOwnerErased,
        evTargetType = TargetTypeOwner, evTargetID = ow, evDetails = no_details\<rparr> newID now"

definition OwnerEraser_EraseOwner ::
  "(nat \<Rightarrow> bool) \<Rightarrow> OwnerID \<Rightarrow> string \<Rightarrow> bytes \<Rightarrow> time \<Rightarrow> (session, nat \<times> err option) state" where
  "OwnerEraser_EraseOwner isPrint ow newID fresh now =
     (if ow = [] then State_Monad.return (0, Some ErrInvalidInput)
      else do {
        rc \<leftarrow> Graph_Collect ow;
        (case rc of
           Inl e \<Rightarrow> State_Monad.return (0, Some e)
         | Inr ids \<Rightarrow> do {
             rr \<leftarrow> OwnerEraser_record isPrint ow newID now;
             (case rr of
                Inl e \<Rightarrow> State_Monad.return (0, Some e)
              | Inr _ \<Rightarrow> Eraser_EraseOwner ow ids fresh now)
           })
      })"

section \<open>What is collected\<close>

text \<open>The identifiers of the rows of an owner, whatever their state.\<close>

definition owned_ids :: "OwnerID \<Rightarrow> db \<Rightarrow> string set" where
  "owned_ids ow d =
     hID ` {r \<in> set (handles d). hOwnerID r = ow} \<union> dID ` {r \<in> set (devices d). dOwnerID r = ow}
     \<union> pkID ` {r \<in> set (public_keys d). pkOwnerID r = ow} \<union> ksID ` {r \<in> set (key_sets d). ksOwnerID r = ow}
     \<union> akID ` {r \<in> set (access_keys d). akOwnerID r = ow}
     \<union> rcID ` {r \<in> set (refresh_credentials d). rcOwnerID r = ow}
     \<union> liID ` {r \<in> set (linked_identities d). liOwnerID r = ow}
     \<union> dpID ` {r \<in> set (device_pairings d). owned_by ow r}"

lemma add_ids:
  "set (foldl (\<lambda>out r. add_id out (f r)) out rs) = set out \<union> (f ` set rs - {[]})"
  "distinct out \<Longrightarrow> distinct (foldl (\<lambda>out r. add_id out (f r)) out rs)"
  by (induction rs arbitrary: out) (auto simp: add_id_def)

lemma collectInto_Inr:
  assumes "run_state (collectInto (query (\<lambda>d. Inr (g d))) f out) s = (Inr ids, s')"
  shows "set ids = set out \<union> (f ` set (g (data s)) - {[]}) \<and> (distinct out \<longrightarrow> distinct ids) \<and> data s' = data s"
  using assms by (auto simp: collectInto_def attempt_Inr add_ids dest!: query_Inr)

lemma Graph_Collect_Inr:
  assumes "run_state (Graph_Collect ow) s = (Inr ids, s')"
  shows "ow \<noteq> [] \<and> set ids = insert ow (owned_ids ow (data s) - {[]}) \<and> distinct ids \<and> data s' = data s"
proof -
  have ow: "ow \<noteq> []" using assms by (auto simp: Graph_Collect_def)
  obtain o1 s1 o2 s2 o3 s3 o4 s4 o5 s5 o6 s6 o7 s7
    where c1: "run_state (collectInto (Handles_ListByOwner ow) hID (add_id [] ow)) s = (Inr o1, s1)"
      and c2: "run_state (collectInto (Devices_ListByOwner ow) dID o1) s1 = (Inr o2, s2)"
      and c3: "run_state (collectInto (PublicKeys_ListByOwner ow) pkID o2) s2 = (Inr o3, s3)"
      and c4: "run_state (collectInto (KeySets_ListByOwner ow) ksID o3) s3 = (Inr o4, s4)"
      and c5: "run_state (collectInto (AccessKeys_ListByOwner ow) akID o4) s4 = (Inr o5, s5)"
      and c6: "run_state (collectInto (RefreshCredentials_ListByOwner ow) rcID o5) s5 = (Inr o6, s6)"
      and c7: "run_state (collectInto (LinkedIdentities_ListByOwner ow) liID o6) s6 = (Inr o7, s7)"
      and c8: "run_state (collectInto (DevicePairings_ListByOwner ow) dpID o7) s7 = (Inr ids, s')"
    using assms ow unfolding Graph_Collect_def if_not_P [OF ow] attempt_Inr by (elim exE conjE) (rule that)
  have id: "hID (handle_of r) = hID r" for r by (simp add: handle_of_def Handle.truncate_def)
  note listers = Handles_ListByOwner_def Devices_ListByOwner_def PublicKeys_ListByOwner_def KeySets_ListByOwner_def
    AccessKeys_ListByOwner_def RefreshCredentials_ListByOwner_def LinkedIdentities_ListByOwner_def
    DevicePairings_ListByOwner_def
  note steps = c1 [unfolded listers, THEN collectInto_Inr] c2 [unfolded listers, THEN collectInto_Inr]
    c3 [unfolded listers, THEN collectInto_Inr] c4 [unfolded listers, THEN collectInto_Inr]
    c5 [unfolded listers, THEN collectInto_Inr] c6 [unfolded listers, THEN collectInto_Inr]
    c7 [unfolded listers, THEN collectInto_Inr] c8 [unfolded listers, THEN collectInto_Inr]
  have "data s' = data s" "distinct ids" using steps by (simp_all add: add_id_def)
  moreover have "set ids = insert ow (owned_ids ow (data s) - {[]})"
    using steps ow by (simp add: add_id_def owned_ids_def image_image id Un_Diff Un_assoc)
  ultimately show ?thesis using ow by simp
qed

section \<open>What the passes do to the log\<close>

lemma set_batches: "0 < n \<Longrightarrow> \<Union> (set ` set (batches n xs)) = set xs"
proof (induction n xs rule: batches.induct)
  case (2 n x xs)
  have "set (take (n - 1) xs) \<union> set (drop (n - 1) xs) = set xs" by (metis append_take_drop_id set_append)
  with 2 show ?case by auto
qed simp

lemma names_any_batches: "(\<exists>b \<in> set (batches maxPseudonymizeBatch ids). names_any b r) \<longleftrightarrow> names_any ids r"
  using set_batches [of maxPseudonymizeBatch ids] by (auto simp: names_any_def maxPseudonymizeBatch_def)

lemma records_for_Inr:
  assumes "run_state (records_for bs out) s = (Inr recs, s')" and "log_wf (data s)"
    and "set out \<subseteq> set (audit_records (data s))" and "distinct (map arID out)"
  shows "data s' = data s \<and> distinct (map arID recs)
    \<and> set recs = set out \<union> {r \<in> set (audit_records (data s)). \<exists>b \<in> set bs. names_any b r}"
  using assms
proof (induction bs arbitrary: out s)
  case (Cons b bs)
  let ?log = "audit_records (data s)"
  let ?out = "out @ filter (\<lambda>r. arID r \<notin> set (map arID out)) (filter (names_any b) ?log)"
  obtain s1 where "data s1 = data s" and run: "run_state (records_for bs ?out) s1 = (Inr recs, s')"
    using Cons.prems(1) by (auto simp: attempt_Inr dest!: query_Inr)
  have "r \<in> set out" if "r \<in> set ?log" "arID r \<in> arID ` set out" for r
    using that Cons.prems(2,3) key_unique [of arID ?log] by (metis imageE subsetD)
  then have out: "set ?out = set out \<union> {r \<in> set ?log. names_any b r}" by auto
  then have "set ?out \<subseteq> set ?log" using Cons.prems(3) by blast
  moreover have "distinct (map arID ?out)"
    using Cons.prems(2,4) by (auto simp: distinct_map_filter) (metis image_eqI)
  ultimately have "data s' = data s \<and> distinct (map arID recs)
      \<and> set recs = set ?out \<union> {r \<in> set ?log. \<exists>b \<in> set bs. names_any b r}"
    using Cons.IH [OF run] Cons.prems(2,3) by (simp add: \<open>data s1 = data s\<close>)
  with out show ?case by (simp only: list.set bex_simps) blast
qed simp

lemma scrub_all_Inr:
  assumes "run_state (scrub_all us acc) s = (Inr n, s')" and "distinct (map fst us)"
  shows "data s' = (data s)\<lparr>audit_records := map (\<lambda>r. case map_of us (arID r) of None \<Rightarrow> r | Some m \<Rightarrow> r\<lparr>arMetadata := m\<rparr>)
     (audit_records (data s))\<rparr>"
  using assms
proof (induction us acc arbitrary: s rule: scrub_all.induct)
  case (2 i m us acc)
  obtain s1 k where d1: "data s1 = (data s)\<lparr>audit_records :=
        update_where (\<lambda>r. arID r = i) (\<lambda>r. r\<lparr>arMetadata := m\<rparr>) (audit_records (data s))\<rparr>"
    and "i \<noteq> []" and run: "run_state (scrub_all us (acc + k)) s1 = (Inr n, s')"
    using 2(2) by (auto simp: attempt_Inr dest!: exec_Inr split: if_splits)
  have "map_of us i = None" using 2(3) by (simp add: map_of_eq_None_iff)
  then show ?case
    using 2(1) [OF \<open>i \<noteq> []\<close> run] 2(3) by (simp add: d1 update_where_def split: option.splits)
qed simp

definition scrubbed :: "bytes \<Rightarrow> AuditRecord \<Rightarrow> AuditRecord" where
  "scrubbed salt r = r\<lparr>arMetadata := fst (scrubDetails (arMetadata r) salt)\<rparr>"

lemma scrubDetails_unchanged: "\<not> snd (scrubDetails m salt) \<Longrightarrow> fst (scrubDetails m salt) = m"
  by (simp add: scrubDetails_def split: if_splits)

text \<open>The updates hold the new metadata of the collected records that change.\<close>

lemma updates_map_of:
  fixes recs :: "AuditRecord list" and salt :: bytes
  defines "updates \<equiv> concat (map (\<lambda>r.
      case scrubDetails (arMetadata r) salt of (m, changed) \<Rightarrow> if changed then [(arID r, m)] else []) recs)"
  assumes "distinct (map arID recs)"
  shows "distinct (map fst updates)"
    and "r \<in> set recs \<Longrightarrow> map_of updates (arID r) =
      (if snd (scrubDetails (arMetadata r) salt) then Some (fst (scrubDetails (arMetadata r) salt)) else None)"
    and "i \<notin> arID ` set recs \<Longrightarrow> map_of updates i = None"
proof -
  define changed where "changed = filter (\<lambda>r. snd (scrubDetails (arMetadata r) salt)) recs"
  have eq: "updates = map (\<lambda>r. (arID r, fst (scrubDetails (arMetadata r) salt))) changed"
    unfolding updates_def changed_def by (induction recs) (auto split: prod.splits)
  have dist: "distinct (map arID changed)" unfolding changed_def using assms(2) by (rule distinct_map_filter)
  then show "distinct (map fst updates)" by (simp add: eq comp_def)
  show "map_of updates i = None" if "i \<notin> arID ` set recs"
    using that by (auto simp: eq map_of_eq_None_iff changed_def)
  assume r: "r \<in> set recs"
  show "map_of updates (arID r) =
      (if snd (scrubDetails (arMetadata r) salt) then Some (fst (scrubDetails (arMetadata r) salt)) else None)"
  proof (cases "snd (scrubDetails (arMetadata r) salt)")
    case True
    then have "(arID r, fst (scrubDetails (arMetadata r) salt)) \<in> set updates" using r by (auto simp: eq changed_def)
    then show ?thesis using True \<open>distinct (map fst updates)\<close> by simp
  next
    case False
    have "x = r" if "x \<in> set changed" "arID x = arID r" for x
      using that r key_unique [OF assms(2)] by (auto simp: changed_def)
    then have "arID r \<notin> fst ` set updates" using False by (auto simp: eq changed_def)
    then show ?thesis using False by (simp add: map_of_eq_None_iff)
  qed
qed

lemma scrubMetadata_Inr:
  assumes "run_state (scrubMetadata ids salt) s = (Inr u, s')" and wf: "log_wf (data s)" and "ids \<noteq> []"
  shows "data s' = (data s)\<lparr>audit_records :=
     map (\<lambda>r. if names_any ids r then scrubbed salt r else r) (audit_records (data s))\<rparr>"
proof -
  let ?log = "audit_records (data s)"
  let ?updates = "\<lambda>recs. concat (map (\<lambda>r.
      case scrubDetails (arMetadata r) salt of (m, changed) \<Rightarrow> if changed then [(arID r, m)] else []) recs)"
  obtain recs s1 where recs: "run_state (records_for (batches maxPseudonymizeBatch ids) []) s = (Inr recs, s1)"
    and rest: "run_state (if ?updates recs = [] then ret () else attempt (Audit_ScrubMetadata (?updates recs)) (\<lambda>_. ret ())) s1
      = (Inr u, s')"
    using assms(1,3) unfolding scrubMetadata_def attempt_Inr Audit_RecordsForErasure_def Let_def by auto
  note found = records_for_Inr [OF recs wf]
  then have d1: "data s1 = data s" and dist: "distinct (map arID recs)"
    and set: "set recs = {r \<in> set ?log. names_any ids r}" by (auto simp: names_any_batches)
  have upd: "(case map_of (?updates recs) (arID r) of None \<Rightarrow> r | Some m \<Rightarrow> r\<lparr>arMetadata := m\<rparr>)
      = (if names_any ids r then scrubbed salt r else r)" if "r \<in> set ?log" for r
  proof (cases "names_any ids r")
    case True
    then show ?thesis using updates_map_of(2) [OF dist, of r salt] that set
      by (auto simp: scrubbed_def dest: scrubDetails_unchanged)
  next
    case False
    then have "arID r \<notin> arID ` set recs" using that set key_unique [OF wf] by auto
    then show ?thesis using updates_map_of(3) [OF dist, of "arID r" salt] False by simp
  qed
  have "data s' = (data s)\<lparr>audit_records := map (\<lambda>r. case map_of (?updates recs) (arID r) of None \<Rightarrow> r
      | Some m \<Rightarrow> r\<lparr>arMetadata := m\<rparr>) ?log\<rparr>"
  proof (cases "?updates recs = []")
    case True
    then have "s' = s1" using rest by (simp del: concat_eq_Nil_conv)
    with True show ?thesis by (simp add: d1 del: concat_eq_Nil_conv)
  next
    case False
    then obtain n where tx: "run_state (WithTx (scrub_all (?updates recs) 0)) s1 = (Inr n, s')"
      using rest unfolding if_not_P [OF False] attempt_Inr Audit_ScrubMetadata_def by auto
    obtain s3 where run: "run_state (scrub_all (?updates recs) 0) (tick s1) = (Inr n, s3)" and "data s' = data s3"
      using WithTx_Inr [OF tx] by auto
    then show ?thesis using scrub_all_Inr [OF run updates_map_of(1) [OF dist]] by (simp add: d1)
  qed
  then show ?thesis using upd by (simp cong: map_cong)
qed

definition renamed :: "string \<Rightarrow> string \<Rightarrow> AuditRecord \<Rightarrow> AuditRecord" where
  "renamed i p r =
     (if names_any [i] r
      then r\<lparr>arActorID := (if arActorID r = i then p else arActorID r),
             arTargetID := (if arTargetID r = i then p else arTargetID r), arPseudonymized := True\<rparr>
      else r)"

lemma Pseudonymize_Inr:
  assumes "run_state (Audit_Pseudonymize [i] p) s = (Inr n, s')"
  shows "data s' = (data s)\<lparr>audit_records := map (renamed i p) (audit_records (data s))\<rparr>"
proof -
  have one: "batches maxPseudonymizeBatch [i] = [[i]]" by (simp add: maxPseudonymizeBatch_def)
  obtain s1 where run: "run_state (pseudonymize_all [[i]] p 0) (tick s) = (Inr n, s1)" and "data s' = data s1"
    using assms by (auto simp: Audit_Pseudonymize_def one dest!: WithTx_Inr simp del: pseudonymize_all.simps split: if_splits)
  then show ?thesis
    by (auto simp: attempt_Inr pseudonymizeBatch_def update_where_def renamed_def [abs_def] dest!: exec_Inr)
qed

lemma erase_ids_done:
  assumes "run_state (erase_ids salt ids k) s = ((n, None), s')"
  shows "data s' = (data s)\<lparr>audit_records :=
    map (fold (\<lambda>i. renamed i (Tombstone salt i)) ids) (audit_records (data s))\<rparr>"
  using assms
proof (induction ids arbitrary: k s)
  case (Cons i ids)
  obtain m s1 where one: "run_state (Audit_Pseudonymize [i] (Tombstone salt i)) s = (Inr m, s1)"
    and rest: "run_state (erase_ids salt ids (k + m)) s1 = ((n, None), s')"
    using Cons.prems by (auto split: prod.splits sum.splits)
  show ?case using Cons.IH [OF rest] Pseudonymize_Inr [OF one] by (simp add: comp_def)
qed simp

text \<open>Tombstones are no identifiers, so the passes do not interfere: each field is rewritten once.\<close>

lemma fold_renamed:
  assumes "distinct ids" and "\<forall>i \<in> set ids. \<not> HasPrefix i tombstonePrefix"
  shows "fold (\<lambda>i. renamed i (Tombstone salt i)) ids r =
    r\<lparr>arActorID := (if arActorID r \<in> set ids then Tombstone salt (arActorID r) else arActorID r),
      arTargetID := (if arTargetID r \<in> set ids then Tombstone salt (arTargetID r) else arTargetID r),
      arPseudonymized := (arPseudonymized r \<or> names_any ids r)\<rparr>"
  using assms
proof (induction ids arbitrary: r)
  case (Cons i ids)
  have "Tombstone salt j \<notin> set ids" for j
    using Cons.prems(2) by (auto simp: Tombstone_def HasPrefix_iff)
  with Cons show ?case by (auto simp: renamed_def names_any_def)
qed (simp add: names_any_def)

lemma Ensure_Inr:
  assumes "run_state (OwnerSalts_Ensure b ow fresh now) s = (Inr salt, s')"
  shows "audit_records (data s') = audit_records (data s)"
proof -
  have "hoare (\<lambda>d. audit_records d = l) (OwnerSalts_Ensure b ow fresh now) (\<lambda>r d. audit_records d = l)" for l
    unfolding OwnerSalts_Ensure_def withLocalTx_def ensureOwnerSalt_def OwnerSalts_Get_def insert_salt_def
    by (intro preserves_hoare preserves_if preserves_return preserves_WithTx preserves_bind preserves_sum
        preserves_query preserves_exec) (auto split: if_splits)
  from run_hoare [OF this, of s "audit_records (data s)"] assms show ?thesis by simp
qed

section \<open>A completed erasure\<close>

definition erased :: "bytes \<Rightarrow> string set \<Rightarrow> AuditRecord \<Rightarrow> AuditRecord" where
  "erased salt ids r =
     (if arActorID r \<in> ids \<or> arTargetID r \<in> ids
      then r\<lparr>arActorID := (if arActorID r \<in> ids then Tombstone salt (arActorID r) else arActorID r),
             arTargetID := (if arTargetID r \<in> ids then Tombstone salt (arTargetID r) else arTargetID r),
             arMetadata := fst (scrubDetails (arMetadata r) salt), arPseudonymized := True\<rparr>
      else r)"

definition erasure_record :: "OwnerID \<Rightarrow> string \<Rightarrow> time \<Rightarrow> AuditRecord" where
  "erasure_record ow newID now =
     \<lparr>arID = newID, arActorType = ActorTypeSystem, arActorID = [], arAction = AuditActionOwnerErased,
      arTargetType = TargetTypeOwner, arTargetID = ow, arOccurredAt = now, arMetadata = [], arPseudonymized = False\<rparr>"

lemma isTombstone_Tombstone [simp]: "isTombstone (Tombstone salt i)"
  by (simp add: isTombstone_def Tombstone_def)

lemma scrubDetails_clean: "kv \<in> set (fst (scrubDetails m salt)) \<Longrightarrow> \<not> to_scrub kv"
  by (auto simp: scrubDetails_def list_ex_iff to_scrub_def split: if_splits)

lemma record_Inr:
  assumes "run_state (OwnerEraser_record isPrint ow newID now) s = (Inr u, s')"
  shows "data s' = (data s)\<lparr>audit_records := audit_records (data s) @ [erasure_record ow newID now]\<rparr>
    \<and> (log_wf (data s) \<longrightarrow> log_wf (data s'))"
proof -
  have "run_state (Audit_Append (erasure_record ow newID now)) s = (Inr u, s')"
    using assms by (auto simp: OwnerEraser_record_def Emit_def Emitter_record_def erasure_record_def split: sum.splits)
  then have "data s' = (data s)\<lparr>audit_records := audit_records (data s) @ [erasure_record ow newID now]\<rparr>
    \<and> newID \<notin> arID ` set (audit_records (data s))"
    by (auto simp: Audit_Append_def list_ex_iff erasure_record_def dest!: exec_Inr split: if_splits)
  then show ?thesis by (simp add: erasure_record_def)
qed

lemma Eraser_done:
  assumes "run_state (Eraser_EraseOwner ow ids fresh now) s = ((n, None), s')"
    and "log_wf (data s)" and "ids \<noteq> []" and "distinct ids" and "\<forall>i \<in> set ids. \<not> HasPrefix i tombstonePrefix"
  shows "\<exists>salt. audit_records (data s') = map (erased salt (set ids)) (audit_records (data s))
    \<and> ow \<notin> osOwnerID ` set (owner_erasure_salts (data s'))"
proof -
  obtain salt s1 s2 s3 u v where salt: "run_state (OwnerSalts_Ensure False ow fresh now) s = (Inr salt, s1)"
    and scrub: "run_state (scrubMetadata ids salt) s1 = (Inr u, s2)"
    and erase: "run_state (erase_ids salt ids 0) s2 = ((n, None), s3)"
    and destroy: "run_state (OwnerSalts_Destroy ow) s3 = (Inr v, s')"
    using assms(1) by (auto simp: Eraser_EraseOwner_def split: if_splits prod.splits sum.splits option.splits)
  note log1 = Ensure_Inr [OF salt]
  have log2: "audit_records (data s2) = map (\<lambda>r. if names_any ids r then scrubbed salt r else r) (audit_records (data s))"
    using scrubMetadata_Inr [OF scrub _ assms(3)] assms(2) by (simp add: log1)
  have "audit_records (data s3) =
      map (fold (\<lambda>i. renamed i (Tombstone salt i)) ids) (audit_records (data s2))"
    using erase_ids_done [OF erase] by simp
  also have "\<dots> = map (erased salt (set ids)) (audit_records (data s))"
    by (auto simp: log2 fold_renamed [OF assms(4,5)] erased_def scrubbed_def names_any_def)
  finally have log3: "audit_records (data s3) = map (erased salt (set ids)) (audit_records (data s))" .
  have "data s' = (data s3)\<lparr>owner_erasure_salts := delete_where (\<lambda>r. osOwnerID r = ow) (owner_erasure_salts (data s3))\<rparr>"
    using destroy by (auto simp: OwnerSalts_Destroy_def dest!: exec_Inr)
  then show ?thesis using log3 by auto
qed

text \<open>
  C30: erasure is complete, and touches nothing else. When erasing an owner succeeds, whatever happened on the
  way, then under some key: the log holds the same records in the same order plus the record of the erasure;
  no record has the owner's identifier or the identifier of any row of the owner, in whatever state, as actor or
  target; every record that had one carries a tombstone instead, and every identifying detail of it is empty or a
  tombstone; every other record is as it was; and the key is gone. It is assumed that no identifier has the
  prefix reserved for tombstones and that record identifiers are unique, as the primary key has it.
\<close>

theorem erasure_complete:
  assumes "run_state (OwnerEraser_EraseOwner isPrint ow newID fresh now) s = ((n, None), s')"
    and "log_wf (data s)" and "\<forall>i \<in> insert ow (owned_ids ow (data s)). \<not> HasPrefix i ''anon:''"
  shows "\<exists>salt ids. ids = insert ow (owned_ids ow (data s)) - {[]}
    \<and> audit_records (data s') = map (erased salt ids) (audit_records (data s) @ [erasure_record ow newID now])
    \<and> (\<forall>r \<in> set (audit_records (data s')). arActorID r \<notin> ids \<and> arTargetID r \<notin> ids)
    \<and> (\<forall>r. arActorID r \<in> ids \<or> arTargetID r \<in> ids \<longrightarrow>
         (\<forall>(k, v) \<in> set (arMetadata (erased salt ids r)). IsErasableDetail k \<longrightarrow> v = [] \<or> isTombstone v))
    \<and> ow \<notin> osOwnerID ` set (owner_erasure_salts (data s'))"
proof -
  obtain ids s1 s2 u where ow: "ow \<noteq> []" and collect: "run_state (Graph_Collect ow) s = (Inr ids, s1)"
    and rec: "run_state (OwnerEraser_record isPrint ow newID now) s1 = (Inr u, s2)"
    and erase: "run_state (Eraser_EraseOwner ow ids fresh now) s2 = ((n, None), s')"
    using assms(1) by (auto simp: OwnerEraser_EraseOwner_def split: if_splits prod.splits sum.splits)
  note ids = Graph_Collect_Inr [OF collect]
  have set: "set ids = insert ow (owned_ids ow (data s)) - {[]}" using ids ow by auto
  have log: "audit_records (data s2) = audit_records (data s) @ [erasure_record ow newID now]" "log_wf (data s2)"
    using record_Inr [OF rec] ids assms(2) by (simp, metis)
  have plain: "\<forall>i \<in> set ids. \<not> HasPrefix i tombstonePrefix" using assms(3) set by (auto simp: tombstonePrefix_def)
  have "ids \<noteq> []" "distinct ids" using ids by auto
  from Eraser_done [OF erase log(2) this plain] obtain salt where
    log': "audit_records (data s') = map (erased salt (set ids)) (audit_records (data s2))"
    and gone: "ow \<notin> osOwnerID ` set (owner_erasure_salts (data s'))" by blast
  have fresh: "Tombstone salt i \<notin> set ids" for i using plain by (auto simp: Tombstone_def HasPrefix_iff)
  have "arActorID r \<notin> set ids \<and> arTargetID r \<notin> set ids" if "r \<in> set (audit_records (data s'))" for r
    using that fresh by (auto simp: log' erased_def split: if_splits)
  moreover have "v = [] \<or> isTombstone v" if "arActorID r \<in> set ids \<or> arTargetID r \<in> set ids"
    and "(k, v) \<in> set (arMetadata (erased salt (set ids) r))" and "IsErasableDetail k" for r k v
    using that scrubDetails_clean [of "(k, v)" "arMetadata r" salt] by (auto simp: erased_def to_scrub_def)
  ultimately show ?thesis
    using log' gone unfolding log(1) set [symmetric] by (intro exI [of _ salt] exI [of _ "set ids"]) blast
qed

text \<open>On a working database the passes over the identifiers go through.\<close>

lemma Pseudonymize_works:
  assumes "faults s = []" and "i \<noteq> []"
  shows "\<exists>n s'. run_state (Audit_Pseudonymize [i] (Tombstone salt j)) s = (Inr n, s') \<and> faults s' = []"
  using assms by (simp add: Audit_Pseudonymize_def Tombstone_def tombstonePrefix_def pseudonymizeBatch_def working
      maxPseudonymizeBatch_def)

lemma erase_ids_works:
  "faults s = [] \<Longrightarrow> [] \<notin> set ids \<Longrightarrow> \<exists>n s'. run_state (erase_ids salt ids k) s = ((n, None), s') \<and> faults s' = []"
proof (induction ids arbitrary: k s)
  case (Cons i ids)
  then obtain n s1 where "run_state (Audit_Pseudonymize [i] (Tombstone salt i)) s = (Inr n, s1)" "faults s1 = []"
    using Pseudonymize_works [of s i salt i] by auto
  with Cons show ?case by simp
qed simp

definition sample_trail :: session where
  "sample_trail = \<lparr>data = empty_db\<lparr>
      devices := [\<lparr>dID = ''dev1'', dOwnerID = ''alice'', dName = ''laptop'', dStatus = DeviceStatusRevoked,
        dCreatedAt = 0, dUpdatedAt = 5, dRevokedAt = Some 5\<rparr>],
      audit_records := [sample_record ''a'' 1,
        \<lparr>arID = ''b'', arActorType = ActorTypeAdministrator, arActorID = ''bob'', arAction = AuditActionDeviceRevoked,
         arTargetType = TargetTypeDevice, arTargetID = ''dev1'', arOccurredAt = 5,
         arMetadata = [(''device_name'', ''laptop'')], arPseudonymized = False\<rparr>]\<rparr>, faults = []\<rparr>"

theorem erasure_complete_witness:
  "\<exists>n s'. run_state (OwnerEraser_EraseOwner (\<lambda>_. True) ''alice'' ''new'' ''salt'' 9) sample_trail = ((n, None), s')
     \<and> (\<forall>r \<in> set (audit_records (data s')). arActorID r \<notin> {''alice'', ''dev1''} \<and> arTargetID r \<notin> {''alice'', ''dev1''})
     \<and> length (audit_records (data s')) = 3"
proof -
  define s1 where "s1 = sample_trail\<lparr>data := (data sample_trail)\<lparr>audit_records :=
      audit_records (data sample_trail) @ [erasure_record ''alice'' ''new'' 9]\<rparr>\<rparr>"
  define s2 where "s2 = s1\<lparr>data := (data s1)\<lparr>owner_erasure_salts := [\<lparr>osOwnerID = ''alice'', osSalt = ''salt'', osCreatedAt = 9\<rparr>]\<rparr>\<rparr>"
  have collect: "run_state (Graph_Collect ''alice'') sample_trail = (Inr [''alice'', ''dev1''], sample_trail)"
    by (simp add: Graph_Collect_def collectInto_def working add_id_def sample_trail_def empty_db_def order_by_def
        Handles_ListByOwner_def Devices_ListByOwner_def PublicKeys_ListByOwner_def KeySets_ListByOwner_def
        AccessKeys_ListByOwner_def RefreshCredentials_ListByOwner_def LinkedIdentities_ListByOwner_def
        DevicePairings_ListByOwner_def)
  have logged: "run_state (OwnerEraser_record (\<lambda>_. True) ''alice'' ''new'' 9) sample_trail = (Inr (), s1)"
    by (simp add: OwnerEraser_record_def Emit_def Emitter_record_def Event_validate_def maxIDLen_def screenValue_def
        screenPrintable_def redactionMarker_def credentialMarkers_def looksLikeJWT_def Contains_def runes_ascii
        RuneError_def byte_def lower_rune_def Audit_Append_def audit_target_check_def working sample_trail_def empty_db_def sample_record_def
        erasure_record_def s1_def)
  have salt: "run_state (OwnerSalts_Ensure False ''alice'' ''salt'' 9) s1 = (Inr ''salt'', s2)"
    by (simp add: OwnerSalts_Ensure_def ensureOwnerSalt_def insert_salt_def OwnerSalts_Get_def withLocalTx_def working
        found_def sample_trail_def empty_db_def s1_def s2_def)
  note detail_keys = DetailAlgorithm_def DetailVisibility_def DetailScope_def DetailReason_def DetailResult_def
    DetailRequestID_def DetailCount_def
  have "\<exists>s3. run_state (scrubMetadata [''alice'', ''dev1''] ''salt'') s2 = (Inr (), s3) \<and> faults s3 = []"
    by (simp add: scrubMetadata_def working sample_trail_def empty_db_def sample_record_def erasure_record_def
        Audit_RecordsForErasure_def maxPseudonymizeBatch_def names_any_def scrubDetails_def to_scrub_def
        isTombstone_def CutPrefix_def HasPrefix_def tombstonePrefix_def IsErasableDetail_def
        keptDetailKeys_def detail_keys Audit_ScrubMetadata_def s1_def s2_def)
  then obtain s3 where scrub: "run_state (scrubMetadata [''alice'', ''dev1''] ''salt'') s2 = (Inr (), s3)" "faults s3 = []" by blast
  obtain n s4 where erase: "run_state (erase_ids ''salt'' [''alice'', ''dev1''] 0) s3 = ((n, None), s4)" "faults s4 = []"
    using erase_ids_works [of s3 "[''alice'', ''dev1'']" "''salt''" 0] scrub(2) by auto
  have "\<exists>s'. run_state (Eraser_EraseOwner ''alice'' [''alice'', ''dev1''] ''salt'' 9) s1 = ((n, None), s')"
    by (simp add: Eraser_EraseOwner_def salt scrub(1) erase OwnerSalts_Destroy_def working del: erase_ids.simps)
  then obtain s' where run: "run_state (OwnerEraser_EraseOwner (\<lambda>_. True) ''alice'' ''new'' ''salt'' 9) sample_trail = ((n, None), s')"
    by (auto simp: OwnerEraser_EraseOwner_def collect logged)
  have owned: "owned_ids ''alice'' (data sample_trail) = {''dev1''}"
    by (simp add: owned_ids_def sample_trail_def empty_db_def Collect_conv_if)
  have wf: "log_wf (data sample_trail)" by (simp add: sample_trail_def sample_record_def)
  have "\<forall>i \<in> insert ''alice'' (owned_ids ''alice'' (data sample_trail)). \<not> HasPrefix i ''anon:''"
    by (simp add: owned HasPrefix_def)
  from erasure_complete [OF run wf this] show ?thesis
  proof (elim exE conjE)
    fix salt ids
    assume ids: "ids = insert ''alice'' (owned_ids ''alice'' (data sample_trail)) - {[]}"
      and log: "audit_records (data s') = map (erased salt ids) (audit_records (data sample_trail) @ [erasure_record ''alice'' ''new'' 9])"
      and anon: "\<forall>r \<in> set (audit_records (data s')). arActorID r \<notin> ids \<and> arTargetID r \<notin> ids"
    have "ids = {''alice'', ''dev1''}" by (simp add: ids owned insert_Diff_if)
    moreover have "length (audit_records (data s')) = 3" by (simp add: log sample_trail_def)
    ultimately show ?thesis using run anon by (intro exI [of _ n] exI [of _ s']) simp
  qed
qed

end
