(* ===== verification/Key_Services.thy ===== *)
theory Key_Services
  imports Audit_Log Name_Repos Keys
begin

text \<open>
  The owner's services over devices, public keys and key sets (\<^verbatim>\<open>internal/service/device\<close>,
  \<^verbatim>\<open>internal/service/publickey\<close>, \<^verbatim>\<open>internal/service/keyset\<close>). A service works on a session; what it is built
  with is a record, new identifiers and the clock are arguments, and \<open>stamp\<close> is the identifier and the instant
  of the audit record it writes. Constructors that only refuse missing collaborators are left out.
\<close>

type_synonym stamp = "string \<times> time"

record env =
  eUnicode :: unicode
  eGuard :: Guard
  eIsPrint :: "nat \<Rightarrow> bool"

definition guard_check :: "env \<Rightarrow> Kind \<Rightarrow> Op \<Rightarrow> string \<Rightarrow> unit result" where
  "guard_check e k oper name = Guard_Check (eUnicode e) (Some (eGuard e)) k oper name"

text \<open>Records of an action of an owner, and the error their details become when refused.\<close>

definition emit_owner ::
  "env \<Rightarrow> AuditAction \<Rightarrow> OwnerID \<Rightarrow> TargetType \<Rightarrow> string \<Rightarrow> Details \<Rightarrow> stamp \<Rightarrow> unit conn" where
  "emit_owner e action ow target i details stamp =
     Emit (eIsPrint e)
       \<lparr>evActorType = ActorTypeOwner, evActorID = ow, evAction = action, evTargetType = target,
        evTargetID = i, evDetails = details\<rparr> (fst stamp) (snd stamp)"

definition recordable :: "Details \<Rightarrow> Details" where
  "recordable d = (case d of Inl _ \<Rightarrow> Inl ErrInvalidInput | Inr m \<Rightarrow> Inr m)"

definition with_request :: "env \<Rightarrow> string \<Rightarrow> Details \<Rightarrow> Details" where
  "with_request e requestID d = (if requestID \<noteq> [] then Details_Set (eIsPrint e) DetailRequestID requestID d else d)"

definition lift :: "'a result \<Rightarrow> 'a conn" where
  "lift r = State_Monad.return r"

section \<open>Devices\<close>

definition registerDetails :: "env \<Rightarrow> string \<Rightarrow> string \<Rightarrow> Details" where
  "registerDetails e name requestID =
     recordable (with_request e requestID (Details_Set (eIsPrint e) DetailDeviceName name no_details))"

definition Device_Register :: "env \<Rightarrow> OwnerID \<Rightarrow> string \<Rightarrow> string \<Rightarrow> DeviceID \<Rightarrow> time \<Rightarrow> stamp \<Rightarrow> Device conn" where
  "Device_Register e ow name requestID newID now stamp =
     (if ow = [] then throw ErrInvalidInput
      else
        attempt (lift (guard_check e KindDeviceName OpCreate name)) (\<lambda>_.
        attempt (lift (registerDetails e name requestID)) (\<lambda>details.
          let d = \<lparr>dID = newID, dOwnerID = ow, dName = name, dStatus = DeviceStatusActive, dCreatedAt = now,
                   dUpdatedAt = now, dRevokedAt = None\<rparr> in
          attempt (Devices_Create d) (\<lambda>_.
          attempt (emit_owner e AuditActionDeviceRegistered ow TargetTypeDevice newID (Inr details) stamp) (\<lambda>_.
          ret d)))))"

definition Device_List :: "OwnerID \<Rightarrow> Device list conn" where
  "Device_List ow = (if ow = [] then throw ErrInvalidInput else Devices_ListByOwner ow)"

definition Device_Revoke :: "env \<Rightarrow> OwnerID \<Rightarrow> DeviceID \<Rightarrow> string \<Rightarrow> time \<Rightarrow> stamp \<Rightarrow> unit conn" where
  "Device_Revoke e ow i requestID now stamp =
     (if ow = [] then throw ErrInvalidInput
      else if i = [] then throw ErrNotFound
      else
        attempt (Devices_Get ow i) (\<lambda>d.
          if dStatus d = DeviceStatusRevoked then throw ErrNotFound
          else
            (case registerDetails e (dName d) requestID of
               Inl _ \<Rightarrow> throw ErrInternal
             | Inr details \<Rightarrow>
                 attempt (Devices_Revoke ow i now) (\<lambda>_.
                   emit_owner e AuditActionDeviceRevoked ow TargetTypeDevice (dID d) (Inr details) stamp))))"

section \<open>Public keys\<close>

definition PublicKey_keyDetails :: "env \<Rightarrow> string \<Rightarrow> Algorithm \<Rightarrow> string \<Rightarrow> Details" where
  "PublicKey_keyDetails e fingerprint alg requestID =
     recordable (with_request e requestID
       (Details_Set (eIsPrint e) DetailAlgorithm alg (Details_Set (eIsPrint e) DetailFingerprint fingerprint no_details)))"

definition PublicKey_device :: "OwnerID \<Rightarrow> DeviceID \<Rightarrow> Device conn" where
  "PublicKey_device ow i =
     (if i = [] then throw ErrNotFound
      else attempt (Devices_Get ow i) (\<lambda>d. if dStatus d \<noteq> DeviceStatusActive then throw ErrNotFound else ret d))"

definition PublicKey_Add ::
  "'p ssh_lib \<Rightarrow> env \<Rightarrow> OwnerID \<Rightarrow> DeviceID \<Rightarrow> bytes \<Rightarrow> string \<Rightarrow> PublicKeyID \<Rightarrow> time \<Rightarrow> stamp \<Rightarrow> PublicKey conn" where
  "PublicKey_Add ssh e ow dev raw requestID newID now stamp =
     (if ow = [] then throw ErrInvalidInput
      else
        (case Parse ssh raw of
           Inl refused \<Rightarrow> throw (keys_sentinel refused)
         | Inr parsed \<Rightarrow>
             attempt (PublicKey_device ow dev) (\<lambda>device.
             attempt (lift (PublicKey_keyDetails e (kFingerprint parsed) (kAlgorithm parsed) requestID)) (\<lambda>details.
               let k = \<lparr>pkID = newID, pkOwnerID = ow, pkDeviceID = dID device, pkAlgorithm = kAlgorithm parsed,
                        pkBlob = kBlob parsed, pkComment = kComment parsed, pkFingerprint = kFingerprint parsed,
                        pkBitLen = kBitLen parsed, pkStatus = KeyStatusActive, pkCreatedAt = now, pkUpdatedAt = now,
                        pkRevokedAt = None\<rparr> in
               attempt (PublicKeys_Create k) (\<lambda>_.
               attempt (emit_owner e AuditActionKeyAdded ow TargetTypePublicKey newID (Inr details) stamp) (\<lambda>_.
               ret k))))))"

definition PublicKey_List :: "OwnerID \<Rightarrow> PublicKey list conn" where
  "PublicKey_List ow = (if ow = [] then throw ErrInvalidInput else PublicKeys_ListByOwner ow)"

definition PublicKey_Revoke :: "env \<Rightarrow> OwnerID \<Rightarrow> PublicKeyID \<Rightarrow> string \<Rightarrow> time \<Rightarrow> stamp \<Rightarrow> unit conn" where
  "PublicKey_Revoke e ow i requestID now stamp =
     (if ow = [] then throw ErrInvalidInput
      else if i = [] then throw ErrNotFound
      else
        attempt (PublicKeys_Get ow i) (\<lambda>k.
          if pkStatus k \<noteq> KeyStatusActive then throw ErrNotFound
          else
            (case PublicKey_keyDetails e (pkFingerprint k) (pkAlgorithm k) requestID of
               Inl _ \<Rightarrow> throw ErrInternal
             | Inr details \<Rightarrow>
                 attempt (PublicKeys_Revoke ow i now) (\<lambda>_.
                   emit_owner e AuditActionKeyRevoked ow TargetTypePublicKey i (Inr details) stamp))))"

section \<open>Key sets\<close>

definition KeySet_DefaultMaxSets :: int where "KeySet_DefaultMaxSets = 100"
definition KeySet_DefaultQuarantineWindow :: duration where "KeySet_DefaultQuarantineWindow = 30 * 24 * hour"

record KeySetService = env +
  svMaxSets :: int
  svQuarantine :: duration

definition KeySet_New :: "env \<Rightarrow> (KeySetService \<Rightarrow> KeySetService) list \<Rightarrow> KeySetService" where
  "KeySet_New e opts =
     foldl (\<lambda>s opt. opt s)
       (env.extend e \<lparr>svMaxSets = KeySet_DefaultMaxSets, svQuarantine = KeySet_DefaultQuarantineWindow\<rparr>) opts"

definition KeySet_WithMaxSets :: "int \<Rightarrow> KeySetService \<Rightarrow> KeySetService" where
  "KeySet_WithMaxSets n s = (if 0 < n then s\<lparr>svMaxSets := n\<rparr> else s)"

definition KeySet_WithQuarantineWindow :: "duration \<Rightarrow> KeySetService \<Rightarrow> KeySetService" where
  "KeySet_WithQuarantineWindow d s = (if 0 < d then s\<lparr>svQuarantine := d\<rparr> else s)"

abbreviation (input) svEnv :: "KeySetService \<Rightarrow> env" where "svEnv s \<equiv> env.truncate s"

definition setDetails :: "env \<Rightarrow> string \<Rightarrow> string \<Rightarrow> Details" where
  "setDetails e name requestID =
     recordable (with_request e requestID (Details_Set (eIsPrint e) DetailKeySetName name no_details))"

definition KeySet_renameDetails :: "env \<Rightarrow> string \<Rightarrow> string \<Rightarrow> string \<Rightarrow> Details" where
  "KeySet_renameDetails e from to requestID =
     (case setDetails e to requestID of
        Inl x \<Rightarrow> Inl x
      | Inr d \<Rightarrow> recordable (Details_Set (eIsPrint e) DetailTo to (Details_Set (eIsPrint e) DetailFrom from (Inr d))))"

definition defaultDetails :: "env \<Rightarrow> string \<Rightarrow> string \<Rightarrow> string \<Rightarrow> Details" where
  "defaultDetails e from to requestID =
     (case setDetails e to requestID of
        Inl x \<Rightarrow> Inl x
      | Inr d \<Rightarrow>
          recordable (Details_Set (eIsPrint e) DetailTo to
            (if from \<noteq> [] then Details_Set (eIsPrint e) DetailFrom from (Inr d) else Inr d)))"

definition visibility_name :: "Visibility \<Rightarrow> string" where
  "visibility_name v = (case v of VisibilityPublic \<Rightarrow> ''public'' | VisibilityProtected \<Rightarrow> ''protected'')"

definition Visibility_of :: "string \<Rightarrow> Visibility option" where
  "Visibility_of v =
     (if v = ''public'' then Some VisibilityPublic
      else if v = ''protected'' then Some VisibilityProtected
      else None)"

definition visibilityDetails :: "env \<Rightarrow> Visibility \<Rightarrow> Visibility \<Rightarrow> string \<Rightarrow> string \<Rightarrow> Details" where
  "visibilityDetails e from to name requestID =
     (case setDetails e name requestID of
        Inl x \<Rightarrow> Inl x
      | Inr d \<Rightarrow>
          recordable (Details_Set (eIsPrint e) DetailTo (visibility_name to)
            (Details_Set (eIsPrint e) DetailFrom (visibility_name from)
              (Details_Set (eIsPrint e) DetailVisibility (visibility_name to) (Inr d)))))"

definition live :: "KeySet \<Rightarrow> KeySet conn" where
  "live x = (if ksState x \<noteq> NameStateActive then throw ErrNotFound else ret x)"

definition createLocked :: "KeySetService \<Rightarrow> OwnerID \<Rightarrow> KeySet \<Rightarrow> unit conn" where
  "createLocked sv ow x =
     attempt (KeySets_LockOwnerForCreate ow) (\<lambda>_.
     attempt (KeySets_CountByOwner ow) (\<lambda>n.
       if svMaxSets sv \<le> int n then throw ErrLimitExceeded else KeySets_Create x))"

definition KeySet_Create :: "KeySetService \<Rightarrow> OwnerID \<Rightarrow> string \<Rightarrow> string \<Rightarrow> KeySetID \<Rightarrow> time \<Rightarrow> stamp \<Rightarrow> KeySet conn" where
  "KeySet_Create sv ow name requestID newID now stamp =
     (if ow = [] then throw ErrInvalidInput
      else
        attempt (lift (guard_check (svEnv sv) KindKeySetName OpCreate name)) (\<lambda>_.
        attempt (lift (setDetails (svEnv sv) name requestID)) (\<lambda>details.
          let x = \<lparr>ksID = newID, ksOwnerID = ow, ksName = name, ksVisibility = VisibilityProtected,
                   ksIsDefault = False, ksState = NameStateActive, ksQuarantineUntil = None,
                   ksFlaggedForReview = False, ksQuarantineOnRelease = False, ksCreatedAt = now, ksUpdatedAt = now\<rparr> in
          attempt (WithTx (createLocked sv ow x)) (\<lambda>_.
          attempt (emit_owner (svEnv sv) AuditActionKeySetCreated ow TargetTypeKeySet newID (Inr details) stamp) (\<lambda>_.
          ret x)))))"

definition KeySet_List :: "OwnerID \<Rightarrow> KeySet list conn" where
  "KeySet_List ow =
     (if ow = [] then throw ErrInvalidInput
      else attempt (KeySets_ListByOwner ow) (\<lambda>all. ret (filter (\<lambda>x. ksState x = NameStateActive) all)))"

fun add_members :: "OwnerID \<Rightarrow> KeySetID \<Rightarrow> KeySetMembership list \<Rightarrow> time \<Rightarrow> unit conn" where
  "add_members ow sid [] now = ret ()"
| "add_members ow sid (m # ms) now =
     attempt (KeySets_AddMember ow sid (mPublicKeyID m) now) (\<lambda>_. add_members ow sid ms now)"

definition KeySet_rename_tx ::
  "KeySetService \<Rightarrow> OwnerID \<Rightarrow> KeySetID \<Rightarrow> string \<Rightarrow> string \<Rightarrow> KeySetID \<Rightarrow> time \<Rightarrow> (KeySet \<times> (string \<times> string) list) conn" where
  "KeySet_rename_tx sv ow i name requestID newID now =
     attempt (attempt (KeySets_Get ow i) live) (\<lambda>old.
     attempt (lift (KeySet_renameDetails (svEnv sv) (ksName old) name requestID)) (\<lambda>details.
       let renamed = \<lparr>ksID = newID, ksOwnerID = ow, ksName = name, ksVisibility = ksVisibility old,
             ksIsDefault = False, ksState = NameStateActive, ksQuarantineUntil = None,
             ksFlaggedForReview = False, ksQuarantineOnRelease = False, ksCreatedAt = now, ksUpdatedAt = now\<rparr> in
       attempt (createLocked sv ow renamed) (\<lambda>_.
       attempt (KeySets_ListMembers ow i) (\<lambda>members.
       attempt (add_members ow newID members now) (\<lambda>_.
       attempt (KeySets_Update (old\<lparr>ksState := NameStateQuarantined,
           ksQuarantineUntil := Some (now + svQuarantine sv), ksUpdatedAt := now\<rparr>)) (\<lambda>_.
         if ksIsDefault old
         then attempt (KeySets_SetDefault True ow newID) (\<lambda>_. ret (renamed\<lparr>ksIsDefault := True\<rparr>, details))
         else ret (renamed, details)))))))"

definition KeySet_Rename ::
  "KeySetService \<Rightarrow> OwnerID \<Rightarrow> KeySetID \<Rightarrow> string \<Rightarrow> string \<Rightarrow> KeySetID \<Rightarrow> time \<Rightarrow> stamp \<Rightarrow> KeySet conn" where
  "KeySet_Rename sv ow i name requestID newID now stamp =
     (if ow = [] then throw ErrInvalidInput
      else if i = [] then throw ErrNotFound
      else
        attempt (lift (guard_check (svEnv sv) KindKeySetName OpRename name)) (\<lambda>_.
        attempt (WithTx (KeySet_rename_tx sv ow i name requestID newID now)) (\<lambda>(renamed, details).
        attempt (emit_owner (svEnv sv) AuditActionKeySetRenamed ow TargetTypeKeySet newID (Inr details) stamp) (\<lambda>_.
        ret renamed))))"

definition KeySet_delete_tx :: "KeySetService \<Rightarrow> OwnerID \<Rightarrow> KeySetID \<Rightarrow> bool \<Rightarrow> string \<Rightarrow> (string \<times> string) list conn" where
  "KeySet_delete_tx sv ow i confirm requestID =
     attempt (attempt (KeySets_Get ow i) live) (\<lambda>x.
     attempt (KeySets_ListMembers ow i) (\<lambda>members.
       if members \<noteq> [] \<and> \<not> confirm then throw ErrConflict
       else
         attempt (lift (setDetails (svEnv sv) (ksName x) requestID)) (\<lambda>details.
         attempt (KeySets_Delete True ow i) (\<lambda>_. ret details))))"

definition KeySet_Delete :: "KeySetService \<Rightarrow> OwnerID \<Rightarrow> KeySetID \<Rightarrow> bool \<Rightarrow> string \<Rightarrow> stamp \<Rightarrow> unit conn" where
  "KeySet_Delete sv ow i confirm requestID stamp =
     (if ow = [] then throw ErrInvalidInput
      else if i = [] then throw ErrNotFound
      else
        attempt (WithTx (KeySet_delete_tx sv ow i confirm requestID)) (\<lambda>details.
        emit_owner (svEnv sv) AuditActionKeySetDeleted ow TargetTypeKeySet i (Inr details) stamp))"

definition KeySet_default_tx ::
  "KeySetService \<Rightarrow> OwnerID \<Rightarrow> KeySetID \<Rightarrow> string \<Rightarrow> time \<Rightarrow> (KeySet \<times> (string \<times> string) list) conn" where
  "KeySet_default_tx sv ow i requestID now =
     attempt (attempt (KeySets_Get ow i) live) (\<lambda>target. do {
       previous \<leftarrow> KeySets_GetDefault ow;
       attempt
         (case previous of
            Inl e \<Rightarrow> if e \<noteq> ErrNotFound then throw e else ret []
          | Inr p \<Rightarrow> ret (ksName p)) (\<lambda>from.
       attempt (lift (defaultDetails (svEnv sv) from (ksName target) requestID)) (\<lambda>details.
       attempt (KeySets_SetDefault True ow i) (\<lambda>_.
       ret (target\<lparr>ksIsDefault := True, ksUpdatedAt := now\<rparr>, details))))
     })"

definition KeySet_SetDefault ::
  "KeySetService \<Rightarrow> OwnerID \<Rightarrow> KeySetID \<Rightarrow> string \<Rightarrow> time \<Rightarrow> stamp \<Rightarrow> KeySet conn" where
  "KeySet_SetDefault sv ow i requestID now stamp =
     (if ow = [] then throw ErrInvalidInput
      else if i = [] then throw ErrNotFound
      else
        attempt (WithTx (KeySet_default_tx sv ow i requestID now)) (\<lambda>(x, details).
        attempt (emit_owner (svEnv sv) AuditActionKeySetDefaultChanged ow TargetTypeKeySet i (Inr details) stamp) (\<lambda>_.
        ret x)))"

definition KeySet_visibility_tx ::
  "KeySetService \<Rightarrow> OwnerID \<Rightarrow> KeySetID \<Rightarrow> Visibility \<Rightarrow> string \<Rightarrow> time \<Rightarrow> (KeySet \<times> (string \<times> string) list) conn" where
  "KeySet_visibility_tx sv ow i v requestID now =
     attempt (attempt (KeySets_Get ow i) live) (\<lambda>target.
     attempt (lift (visibilityDetails (svEnv sv) (ksVisibility target) v (ksName target) requestID)) (\<lambda>details.
       let target' = target\<lparr>ksVisibility := v, ksUpdatedAt := now\<rparr> in
       attempt (KeySets_Update target') (\<lambda>_. ret (target', details))))"

definition KeySet_SetVisibility ::
  "KeySetService \<Rightarrow> OwnerID \<Rightarrow> KeySetID \<Rightarrow> string \<Rightarrow> string \<Rightarrow> time \<Rightarrow> stamp \<Rightarrow> KeySet conn" where
  "KeySet_SetVisibility sv ow i vis requestID now stamp =
     (if ow = [] then throw ErrInvalidInput
      else if i = [] then throw ErrNotFound
      else
        (case Visibility_of vis of
           None \<Rightarrow> throw ErrInvalidInput
         | Some v \<Rightarrow>
             attempt (WithTx (KeySet_visibility_tx sv ow i v requestID now)) (\<lambda>(x, details).
             attempt (emit_owner (svEnv sv) AuditActionKeySetVisibilityChanged ow TargetTypeKeySet i (Inr details) stamp) (\<lambda>_.
             ret x))))"

section \<open>Effects of the key set statements\<close>

lemma KeySets_Create_Inr:
  assumes "run_state (KeySets_Create x) s = (Inr u, s')"
  shows "data s' = (data s)\<lparr>key_sets := key_sets (data s) @ [x]\<rparr>"
    and "\<forall>r \<in> set (key_sets (data s)). ksID r \<noteq> ksID x \<and> (ksOwnerID r, ksName r) \<noteq> (ksOwnerID x, ksName x)"
  using exec_Inr [OF assms [unfolded KeySets_Create_def]] by (auto simp: list_ex_iff split: if_splits)

lemma createLocked_Inr:
  assumes "run_state (createLocked sv ow x) s = (Inr u, s')"
  shows "data s' = (data s)\<lparr>key_sets := key_sets (data s) @ [x]\<rparr>"
    and "\<forall>r \<in> set (key_sets (data s)). ksID r \<noteq> ksID x \<and> (ksOwnerID r, ksName r) \<noteq> (ksOwnerID x, ksName x)"
    and "int (length (filter (\<lambda>r. ksOwnerID r = ow) (key_sets (data s)))) < svMaxSets sv"
proof -
  obtain n s1 where count: "run_state (KeySets_CountByOwner ow) s = (Inr n, s1)"
    and rest: "run_state (if svMaxSets sv \<le> int n then throw ErrLimitExceeded else KeySets_Create x) s1 = (Inr u, s')"
    using assms by (auto simp: createLocked_def KeySets_LockOwnerForCreate_def attempt_Inr)
  have s1: "data s1 = data s" and n: "n = length (filter (\<lambda>r. ksOwnerID r = ow) (key_sets (data s)))"
    using query_Inr [OF count [unfolded KeySets_CountByOwner_def]] by (auto simp: count_where_def)
  have lim: "int n < svMaxSets sv" and create: "run_state (KeySets_Create x) s1 = (Inr u, s')"
    using rest by (auto split: if_splits)
  show "data s' = (data s)\<lparr>key_sets := key_sets (data s) @ [x]\<rparr>"
    and "\<forall>r \<in> set (key_sets (data s)). ksID r \<noteq> ksID x \<and> (ksOwnerID r, ksName r) \<noteq> (ksOwnerID x, ksName x)"
    using KeySets_Create_Inr [OF create] s1 by simp_all
  show "int (length (filter (\<lambda>r. ksOwnerID r = ow) (key_sets (data s)))) < svMaxSets sv"
    using lim n by simp
qed

lemma update_sets_Inr:
  assumes "run_state (attempt (update_sets P f) requireAffected) s = (Inr u, s')"
  shows "data s' = (data s)\<lparr>key_sets := update_where P f (key_sets (data s))\<rparr>"
    and "distinct (map ksOwnerID (filter ksIsDefault (key_sets (data s'))))"
    and "\<exists>r \<in> set (key_sets (data s)). P r"
proof -
  obtain n s1 where upd: "run_state (update_sets P f) s = (Inr n, s1)"
    and req: "run_state (requireAffected n) s1 = (Inr u, s')"
    using assms by (auto simp: attempt_Inr)
  have rows: "distinct (map ksOwnerID (filter ksIsDefault (update_where P f (key_sets (data s)))))"
    and n: "n = count_where P (key_sets (data s))"
    and d: "data s1 = (data s)\<lparr>key_sets := update_where P f (key_sets (data s))\<rparr>"
    using exec_Inr [OF upd [unfolded update_sets_def]] by (auto simp: Let_def split: if_splits)
  have r: "s' = s1" "0 < n" using requireAffected_Inr [OF req] by simp_all
  show "data s' = (data s)\<lparr>key_sets := update_where P f (key_sets (data s))\<rparr>" by (simp add: r d)
  show "distinct (map ksOwnerID (filter ksIsDefault (key_sets (data s'))))" using rows by (simp add: r d)
  show "\<exists>r \<in> set (key_sets (data s)). P r" using r(2) by (simp add: n count_where_pos)
qed

definition undefault :: "OwnerID \<Rightarrow> KeySet list \<Rightarrow> KeySet list" where
  "undefault ow = update_where (\<lambda>r. ksOwnerID r = ow \<and> ksIsDefault r) (\<lambda>r. r\<lparr>ksIsDefault := False\<rparr>)"

definition designate :: "OwnerID \<Rightarrow> KeySetID \<Rightarrow> KeySet list \<Rightarrow> KeySet list" where
  "designate ow i rows =
     update_where (\<lambda>r. ksID r = i \<and> ksOwnerID r = ow) (\<lambda>r. r\<lparr>ksIsDefault := True\<rparr>) (undefault ow rows)"

lemma KeySets_SetDefault_Inr:
  assumes "run_state (KeySets_SetDefault True ow i) s = (Inr u, s')"
  shows "data s' = (data s)\<lparr>key_sets := designate ow i (key_sets (data s))\<rparr>"
    and "distinct (map ksOwnerID (filter ksIsDefault (key_sets (data s'))))"
    and "\<exists>r \<in> set (key_sets (data s)). ksID r = i \<and> ksOwnerID r = ow"
proof -
  obtain n s1 where clear: "run_state (update_sets (\<lambda>r. ksOwnerID r = ow \<and> ksIsDefault r) (\<lambda>r. r\<lparr>ksIsDefault := False\<rparr>)) s = (Inr n, s1)"
    and mark: "run_state (attempt (update_sets (\<lambda>r. ksID r = i \<and> ksOwnerID r = ow) (\<lambda>r. r\<lparr>ksIsDefault := True\<rparr>)) requireAffected) s1 = (Inr u, s')"
    using assms by (auto simp: KeySets_SetDefault_def withLocalTx_def attempt_Inr)
  have s1: "data s1 = (data s)\<lparr>key_sets := undefault ow (key_sets (data s))\<rparr>"
    using exec_Inr [OF clear [unfolded update_sets_def]] by (auto simp: Let_def undefault_def split: if_splits)
  show "data s' = (data s)\<lparr>key_sets := designate ow i (key_sets (data s))\<rparr>"
    using update_sets_Inr(1) [OF mark] by (simp add: s1 designate_def)
  show "distinct (map ksOwnerID (filter ksIsDefault (key_sets (data s'))))" by (rule update_sets_Inr(2) [OF mark])
  show "\<exists>r \<in> set (key_sets (data s)). ksID r = i \<and> ksOwnerID r = ow"
    using update_sets_Inr(3) [OF mark] by (simp add: s1 undefault_def if_distrib [of ksID] cong: if_cong) (metis (full_types))
qed

lemma KeySets_Get_Inr:
  assumes "run_state (attempt (KeySets_Get ow i) live) s = (Inr x, s')"
  shows "data s' = data s" and "x \<in> set (key_sets (data s))" and "ksID x = i" and "ksOwnerID x = ow"
    and "ksState x = NameStateActive"
proof -
  obtain y s1 where get: "run_state (KeySets_Get ow i) s = (Inr y, s1)" and l: "run_state (live y) s1 = (Inr x, s')"
    using assms by (auto simp: attempt_Inr)
  note q = query_Inr [OF get [unfolded KeySets_Get_def]]
  have "s' = s1" "x = y" "ksState x = NameStateActive" using l by (auto simp: live_def split: if_splits)
  then show "data s' = data s" and "x \<in> set (key_sets (data s))" and "ksID x = i" and "ksOwnerID x = ow"
    and "ksState x = NameStateActive"
    using q by (auto dest: find_SomeD)
qed

lemma lift_Inr [simp]: "run_state (lift r) s = (Inr x, s') \<longleftrightarrow> r = Inr x \<and> s' = s"
  by (auto simp: lift_def)

lemma lift_InrE:
  assumes "run_state (attempt (lift r) k) s = (Inr y, s')"
  obtains x where "r = Inr x" and "run_state (k x) s = (Inr y, s')"
  using assms by (auto simp: attempt_Inr)

definition copies :: "KeySetID \<Rightarrow> KeySetMembership list \<Rightarrow> time \<Rightarrow> KeySetMembership list" where
  "copies sid ms now = map (\<lambda>m. \<lparr>mKeySetID = sid, mPublicKeyID = mPublicKeyID m, mAddedAt = now\<rparr>) ms"

lemma KeySets_AddMember_Inr:
  assumes "run_state (KeySets_AddMember ow sid kid now) s = (Inr u, s')"
  shows "data s' = (data s)\<lparr>key_set_members := key_set_members (data s) @ [\<lparr>mKeySetID = sid, mPublicKeyID = kid, mAddedAt = now\<rparr>]\<rparr>"
    and "\<exists>r \<in> set (key_sets (data s)). ksID r = sid \<and> ksOwnerID r = ow"
    and "\<exists>k \<in> set (public_keys (data s)). pkID k = kid \<and> pkOwnerID k = ow"
proof -
  obtain n s1 where ins: "run_state (exec (\<lambda>d.
          if \<not> (list_ex (\<lambda>r. ksID r = sid \<and> ksOwnerID r = ow) (key_sets d)
               \<and> list_ex (\<lambda>r. pkID r = kid \<and> pkOwnerID r = ow) (public_keys d))
          then Inr (0, d)
          else if is_member d sid kid then Inl ErrConflict
          else Inr (1, d\<lparr>key_set_members := key_set_members d
                   @ [\<lparr>mKeySetID = sid, mPublicKeyID = kid, mAddedAt = now\<rparr>]\<rparr>))) s = (Inr n, s1)"
    and req: "run_state (requireAffected n) s1 = (Inr u, s')"
    using assms by (auto simp: KeySets_AddMember_def attempt_Inr)
  note e = exec_Inr [OF ins] requireAffected_Inr [OF req]
  show "data s' = (data s)\<lparr>key_set_members := key_set_members (data s) @ [\<lparr>mKeySetID = sid, mPublicKeyID = kid, mAddedAt = now\<rparr>]\<rparr>"
    and "\<exists>r \<in> set (key_sets (data s)). ksID r = sid \<and> ksOwnerID r = ow"
    and "\<exists>k \<in> set (public_keys (data s)). pkID k = kid \<and> pkOwnerID k = ow"
    using e by (auto simp: list_ex_iff split: if_splits)
qed

lemma add_members_effect:
  "run_state (add_members ow sid ms now) s = (Inr u, s') \<Longrightarrow>
   data s' = (data s)\<lparr>key_set_members := key_set_members (data s) @ copies sid ms now\<rparr>
   \<and> (\<forall>m \<in> set ms. \<exists>k \<in> set (public_keys (data s)). pkID k = mPublicKeyID m \<and> pkOwnerID k = ow)"
proof (induction ms arbitrary: s)
  case Nil
  then show ?case by (simp add: copies_def)
next
  case (Cons m ms)
  obtain v s1 where one: "run_state (KeySets_AddMember ow sid (mPublicKeyID m) now) s = (Inr v, s1)"
    and rest: "run_state (add_members ow sid ms now) s1 = (Inr u, s')"
    using Cons.prems unfolding add_members.simps by (rule attempt_InrE)
  show ?case
    using Cons.IH [OF rest] KeySets_AddMember_Inr(3) [OF one] unfolding KeySets_AddMember_Inr(1) [OF one]
    by (simp add: copies_def)
qed

lemmas add_members_Inr = add_members_effect [THEN conjunct1] add_members_effect [THEN conjunct2]

section \<open>The effect of each operation's transaction\<close>

definition retired :: "KeySet \<Rightarrow> time \<Rightarrow> time \<Rightarrow> KeySet \<Rightarrow> KeySet" where
  "retired old until now r =
     r\<lparr>ksVisibility := ksVisibility old, ksState := NameStateQuarantined, ksQuarantineUntil := Some until,
       ksFlaggedForReview := ksFlaggedForReview old, ksQuarantineOnRelease := ksQuarantineOnRelease old,
       ksUpdatedAt := now\<rparr>"

definition renamed_rows :: "KeySet \<Rightarrow> KeySet \<Rightarrow> time \<Rightarrow> time \<Rightarrow> KeySet list \<Rightarrow> KeySet list" where
  "renamed_rows old x until now rows =
     (let rows' = update_where (\<lambda>r. ksID r = ksID old \<and> ksOwnerID r = ksOwnerID old) (retired old until now) (rows @ [x]) in
      if ksIsDefault old then designate (ksOwnerID old) (ksID x) rows' else rows')"

definition members_of :: "db \<Rightarrow> KeySetID \<Rightarrow> KeySetMembership list" where
  "members_of d sid = sort_key mPublicKeyID (filter (\<lambda>m. mKeySetID m = sid) (key_set_members d))"

lemma KeySets_ListMembers_Inr:
  assumes "run_state (KeySets_ListMembers ow sid) s = (Inr ms, s')"
    and "\<exists>r \<in> set (key_sets (data s)). ksID r = sid \<and> ksOwnerID r = ow"
  shows "data s' = data s" and "ms = members_of (data s) sid"
  using query_Inr [OF assms(1) [unfolded KeySets_ListMembers_def]] assms(2)
  by (auto simp: members_of_def list_ex_iff)

text \<open>A rename: the new row, the members copied, the old row a tombstone, the default moved.\<close>

lemma rename_tx_effect:
  assumes run: "run_state (KeySet_rename_tx sv ow i name requestID newID now) s = (Inr (x, details), s')"
  shows "\<exists>old x0. old \<in> set (key_sets (data s)) \<and> ksID old = i \<and> ksOwnerID old = ow \<and> ksState old = NameStateActive
    \<and> ksID x0 = newID \<and> ksOwnerID x0 = ow \<and> ksName x0 = name \<and> ksVisibility x0 = ksVisibility old \<and> \<not> ksIsDefault x0
    \<and> ksState x0 = NameStateActive \<and> x = x0\<lparr>ksIsDefault := ksIsDefault old\<rparr>
    \<and> (\<forall>r \<in> set (key_sets (data s)). ksID r \<noteq> newID \<and> (ksOwnerID r, ksName r) \<noteq> (ow, name))
    \<and> int (length (filter (\<lambda>r. ksOwnerID r = ow) (key_sets (data s)))) < svMaxSets sv
    \<and> (\<forall>m \<in> set (members_of (data s) i). \<exists>k \<in> set (public_keys (data s)). pkID k = mPublicKeyID m \<and> pkOwnerID k = ow)
    \<and> distinct (map ksOwnerID (filter ksIsDefault (key_sets (data s'))))
    \<and> data s' = (data s)\<lparr>key_sets := renamed_rows old x0 (now + svQuarantine sv) now (key_sets (data s)),
         key_set_members := key_set_members (data s) @ copies newID (members_of (data s) i) now\<rparr>"
proof -
  obtain old s1 where get: "run_state (attempt (KeySets_Get ow i) live) s = (Inr old, s1)"
    and r1: "run_state (attempt (lift (KeySet_renameDetails (svEnv sv) (ksName old) name requestID)) (\<lambda>details.
       let renamed = \<lparr>ksID = newID, ksOwnerID = ow, ksName = name, ksVisibility = ksVisibility old,
             ksIsDefault = False, ksState = NameStateActive, ksQuarantineUntil = None,
             ksFlaggedForReview = False, ksQuarantineOnRelease = False, ksCreatedAt = now, ksUpdatedAt = now\<rparr> in
       attempt (createLocked sv ow renamed) (\<lambda>_.
       attempt (KeySets_ListMembers ow i) (\<lambda>members.
       attempt (add_members ow newID members now) (\<lambda>_.
       attempt (KeySets_Update (old\<lparr>ksState := NameStateQuarantined,
           ksQuarantineUntil := Some (now + svQuarantine sv), ksUpdatedAt := now\<rparr>)) (\<lambda>_.
         if ksIsDefault old
         then attempt (KeySets_SetDefault True ow newID) (\<lambda>_. ret (renamed\<lparr>ksIsDefault := True\<rparr>, details))
         else ret (renamed, details))))))) s1 = (Inr (x, details), s')"
    using run unfolding KeySet_rename_tx_def by (rule attempt_InrE)
  define x0 where "x0 = \<lparr>ksID = newID, ksOwnerID = ow, ksName = name, ksVisibility = ksVisibility old,
             ksIsDefault = False, ksState = NameStateActive, ksQuarantineUntil = None,
             ksFlaggedForReview = False, ksQuarantineOnRelease = False, ksCreatedAt = now, ksUpdatedAt = now\<rparr>"
  obtain u2 s2 ms s3 u4 s4 u5 s5 details' where create: "run_state (createLocked sv ow x0) s1 = (Inr u2, s2)"
    and list: "run_state (KeySets_ListMembers ow i) s2 = (Inr ms, s3)"
    and add: "run_state (add_members ow newID ms now) s3 = (Inr u4, s4)"
    and upd: "run_state (KeySets_Update (old\<lparr>ksState := NameStateQuarantined,
           ksQuarantineUntil := Some (now + svQuarantine sv), ksUpdatedAt := now\<rparr>)) s4 = (Inr u5, s5)"
    and last: "run_state (if ksIsDefault old
         then attempt (KeySets_SetDefault True ow newID) (\<lambda>_. ret (x0\<lparr>ksIsDefault := True\<rparr>, details'))
         else ret (x0, details')) s5 = (Inr (x, details), s')"
    using r1 unfolding Let_def x0_def [symmetric] by (elim lift_InrE attempt_InrE) (rule that)
  note g = KeySets_Get_Inr [OF get] and c = createLocked_Inr [OF create]
  have d2: "data s2 = (data s)\<lparr>key_sets := key_sets (data s) @ [x0]\<rparr>" using c(1) g(1) by simp
  have "\<exists>r \<in> set (key_sets (data s2)). ksID r = i \<and> ksOwnerID r = ow" using g d2 by auto
  note l = KeySets_ListMembers_Inr [OF list this]
  have ms: "ms = members_of (data s) i" using l(2) by (simp add: d2 members_of_def)
  have d4: "data s4 = (data s)\<lparr>key_sets := key_sets (data s) @ [x0],
      key_set_members := key_set_members (data s) @ copies newID ms now\<rparr>"
    using add_members_Inr(1) [OF add] by (simp add: l(1) d2)
  note u = update_sets_Inr [OF upd [unfolded KeySets_Update_def]]
  have d5: "data s5 = (data s)\<lparr>key_sets := update_where (\<lambda>r. ksID r = i \<and> ksOwnerID r = ow)
        (retired old (now + svQuarantine sv) now) (key_sets (data s) @ [x0]),
      key_set_members := key_set_members (data s) @ copies newID ms now\<rparr>"
    using u(1) by (simp add: d4 g retired_def [abs_def])
  have fin: "x = x0\<lparr>ksIsDefault := ksIsDefault old\<rparr>
    \<and> distinct (map ksOwnerID (filter ksIsDefault (key_sets (data s'))))
    \<and> data s' = (data s)\<lparr>key_sets := renamed_rows old x0 (now + svQuarantine sv) now (key_sets (data s)),
         key_set_members := key_set_members (data s) @ copies newID ms now\<rparr>"
  proof (cases "ksIsDefault old")
    case True
    then obtain u6 where set: "run_state (KeySets_SetDefault True ow newID) s5 = (Inr u6, s')"
      and x: "x = x0\<lparr>ksIsDefault := True\<rparr>"
      using last by (auto simp: attempt_Inr)
    show ?thesis
      using KeySets_SetDefault_Inr(1,2) [OF set] x True by (simp add: d5 renamed_rows_def g x0_def Let_def)
  next
    case False
    then have "x = x0" "s' = s5" using last by simp_all
    then show ?thesis using False u(2) by (simp add: d5 renamed_rows_def g x0_def Let_def)
  qed
  have keys: "\<forall>m \<in> set ms. \<exists>k \<in> set (public_keys (data s)). pkID k = mPublicKeyID m \<and> pkOwnerID k = ow"
    using add_members_Inr(2) [OF add] by (simp add: l(1) d2)
  have sel: "ksID x0 = newID" "ksOwnerID x0 = ow" "ksName x0 = name" "ksVisibility x0 = ksVisibility old"
    "\<not> ksIsDefault x0" "ksState x0 = NameStateActive"
    by (simp_all add: x0_def)
  note c' = c(2,3) [unfolded g(1) sel(1-3)]
  show ?thesis
    using g(2-5) sel fin c' keys unfolding ms
    by - (rule exI [of _ old], rule exI [of _ x0], elim conjE, intro conjI; assumption)
qed

section \<open>The key set invariant\<close>

definition has_default :: "OwnerID \<Rightarrow> db \<Rightarrow> bool" where
  "has_default ow d \<longleftrightarrow> (\<exists>r \<in> set (key_sets d). ksOwnerID r = ow \<and> ksIsDefault r)"

definition members_owned :: "db \<Rightarrow> bool" where
  "members_owned d \<longleftrightarrow>
     (\<forall>m \<in> set (key_set_members d). \<exists>r \<in> set (key_sets d). \<exists>k \<in> set (public_keys d).
        ksID r = mKeySetID m \<and> pkID k = mPublicKeyID m \<and> pkOwnerID k = ksOwnerID r)"

definition sets_wf :: "int \<Rightarrow> db \<Rightarrow> bool" where
  "sets_wf cap d \<longleftrightarrow>
     distinct (map ksID (key_sets d))
     \<and> distinct (map (\<lambda>r. (ksOwnerID r, ksName r)) (key_sets d))
     \<and> distinct (map ksOwnerID (filter ksIsDefault (key_sets d)))
     \<and> (\<forall>r \<in> set (key_sets d). ksIsDefault r \<longrightarrow> ksState r = NameStateActive)
     \<and> (\<forall>ow. int (count_where (\<lambda>r. ksOwnerID r = ow) (key_sets d)) \<le> cap)
     \<and> members_owned d"

text \<open>The invariant with the owners of \<open>W\<close> keeping a default.\<close>

definition keeps :: "int \<Rightarrow> OwnerID set \<Rightarrow> db \<Rightarrow> bool" where
  "keeps cap W d \<longleftrightarrow> sets_wf cap d \<and> (\<forall>ow \<in> W. has_default ow d)"

lemma keeps_frame:
  "keeps cap W d \<Longrightarrow> key_sets d' = key_sets d \<Longrightarrow> key_set_members d' = key_set_members d \<Longrightarrow>
   public_keys d' = public_keys d \<Longrightarrow> keeps cap W d'"
  by (simp add: keeps_def sets_wf_def members_owned_def has_default_def)

lemma count_where_update: "(\<And>r. P r \<Longrightarrow> Q (f r) = Q r) \<Longrightarrow> count_where Q (update_where P f rows) = count_where Q rows"
  by (induction rows) (auto simp: count_where_def)

lemma map_undefault [simp]: "map ksID (undefault ow rows) = map ksID rows"
  "map (\<lambda>r. (ksOwnerID r, ksName r)) (undefault ow rows) = map (\<lambda>r. (ksOwnerID r, ksName r)) rows"
  by (simp_all add: undefault_def map_update_where)

lemma map_designate [simp]: "map ksID (designate ow i rows) = map ksID rows"
  "map (\<lambda>r. (ksOwnerID r, ksName r)) (designate ow i rows) = map (\<lambda>r. (ksOwnerID r, ksName r)) rows"
  by (simp_all add: designate_def map_update_where)

lemma count_designate [simp]:
  "count_where (\<lambda>r. ksOwnerID r = o') (designate ow i rows) = count_where (\<lambda>r. ksOwnerID r = o') rows"
  by (simp add: designate_def undefault_def count_where_update)

lemma designate_map:
  "designate ow i rows =
     map (\<lambda>r. r\<lparr>ksIsDefault := (if ksOwnerID r = ow then ksID r = i else ksIsDefault r)\<rparr>) rows"
  by (induction rows) (auto simp: designate_def undefault_def)

text \<open>A rename row by row.\<close>

definition renamed_row :: "KeySet \<Rightarrow> KeySetID \<Rightarrow> time \<Rightarrow> time \<Rightarrow> KeySet \<Rightarrow> KeySet" where
  "renamed_row old newID until now r =
     (let r' = (if ksID r = ksID old \<and> ksOwnerID r = ksOwnerID old then retired old until now r else r) in
      if ksIsDefault old
      then r'\<lparr>ksIsDefault := (if ksOwnerID r = ksOwnerID old then ksID r = newID else ksIsDefault r)\<rparr> else r')"

lemma renamed_row_sel [simp]:
  "ksID (renamed_row old newID until now r) = ksID r"
  "ksOwnerID (renamed_row old newID until now r) = ksOwnerID r"
  "ksName (renamed_row old newID until now r) = ksName r"
  by (simp_all add: renamed_row_def retired_def Let_def)

lemma renamed_row_default:
  "ksIsDefault (renamed_row old newID until now r) \<longleftrightarrow>
     (if ksIsDefault old \<and> ksOwnerID r = ksOwnerID old then ksID r = newID else ksIsDefault r)"
  by (simp add: renamed_row_def retired_def Let_def)

lemma renamed_row_state:
  "ksState (renamed_row old newID until now r) =
     (if ksID r = ksID old \<and> ksOwnerID r = ksOwnerID old then NameStateQuarantined else ksState r)"
  by (simp add: renamed_row_def retired_def Let_def)

lemma renamed_rows_map: "renamed_rows old x until now rows = map (renamed_row old (ksID x) until now) (rows @ [x])"
  by (simp add: renamed_rows_def designate_map update_where_def renamed_row_def retired_def Let_def)

lemma keeps_rename:
  assumes wf: "keeps cap W d"
    and old: "old \<in> set (key_sets d)" "ksOwnerID old = ow" "ksState old = NameStateActive"
    and x: "ksOwnerID x = ow" "\<not> ksIsDefault x" "ksState x = NameStateActive"
    and fresh: "\<forall>r \<in> set (key_sets d). ksID r \<noteq> ksID x \<and> (ksOwnerID r, ksName r) \<noteq> (ow, ksName x)"
    and room: "int (length (filter (\<lambda>r. ksOwnerID r = ow) (key_sets d))) < cap"
    and ms: "\<forall>m \<in> set ms. \<exists>k \<in> set (public_keys d). pkID k = mPublicKeyID m \<and> pkOwnerID k = ow"
    and dist: "distinct (map ksOwnerID (filter ksIsDefault (renamed_rows old x until now (key_sets d))))"
  shows "keeps cap W (d\<lparr>key_sets := renamed_rows old x until now (key_sets d),
           key_set_members := key_set_members d @ copies (ksID x) ms now\<rparr>)"
    (is "keeps cap W ?d")
proof -
  let ?rows = "key_sets d" and ?g = "renamed_row old (ksID x) until now"
  have rows: "key_sets ?d = map ?g (?rows @ [x])" by (simp add: renamed_rows_map)
  have wf': "distinct (map ksID ?rows)" "distinct (map (\<lambda>r. (ksOwnerID r, ksName r)) ?rows)"
    "\<And>r. r \<in> set ?rows \<Longrightarrow> ksIsDefault r \<Longrightarrow> ksState r = NameStateActive"
    "\<And>o'. int (count_where (\<lambda>r. ksOwnerID r = o') ?rows) \<le> cap" "members_owned d"
    "\<And>o'. o' \<in> W \<Longrightarrow> has_default o' d"
    using wf by (simp_all add: keeps_def sets_wf_def)
  have ids: "distinct (map ksID (key_sets ?d))" using wf'(1) fresh unfolding rows by (auto simp: comp_def)
  have names: "distinct (map (\<lambda>r. (ksOwnerID r, ksName r)) (key_sets ?d))"
    using wf'(2) fresh x(1) unfolding rows by (auto simp: comp_def)
  have active: "ksState (?g r) = NameStateActive" if "r \<in> set (?rows @ [x])" "ksIsDefault (?g r)" for r
  proof (cases "r = x")
    case True
    then show ?thesis using fresh old(1) x(3) by (auto simp: renamed_row_state)
  next
    case False
    then have r: "r \<in> set ?rows" "ksID r \<noteq> ksID x" using that(1) fresh by auto
    then have "ksIsDefault r" "\<not> (ksIsDefault old \<and> ksOwnerID r = ow)"
      using that(2) old(2) by (auto simp: renamed_row_default split: if_splits)
    moreover have "ksID r \<noteq> ksID old \<or> r = old" using key_unique [OF wf'(1) r(1) old(1)] by blast
    ultimately show ?thesis using wf'(3) [OF r(1)] old(2) by (auto simp: renamed_row_state)
  qed
  have count: "int (count_where (\<lambda>r. ksOwnerID r = o') (key_sets ?d)) \<le> cap" for o'
    using wf'(4) [of o'] room x(1) unfolding rows by (auto simp: count_where_def filter_map comp_def)
  have "\<exists>r \<in> set (key_sets ?d). \<exists>k \<in> set (public_keys ?d).
      ksID r = mKeySetID m \<and> pkID k = mPublicKeyID m \<and> pkOwnerID k = ksOwnerID r"
    if mem: "m \<in> set (key_set_members ?d)" for m
  proof (cases "m \<in> set (key_set_members d)")
    case True
    then obtain r k where "r \<in> set ?rows" "k \<in> set (public_keys d)" "ksID r = mKeySetID m" "pkID k = mPublicKeyID m"
      "pkOwnerID k = ksOwnerID r"
      using wf'(5) unfolding members_owned_def by blast
    then show ?thesis unfolding rows by (intro bexI [of _ "?g r"] bexI [of _ k]) simp_all
  next
    case False
    then obtain m0 where m0: "m0 \<in> set ms" "mKeySetID m = ksID x" "mPublicKeyID m = mPublicKeyID m0"
      using mem by (auto simp: copies_def)
    then obtain k where "k \<in> set (public_keys d)" "pkID k = mPublicKeyID m0" "pkOwnerID k = ow" using ms by blast
    then show ?thesis using m0 x(1) unfolding rows by (intro bexI [of _ "?g x"] bexI [of _ k]) simp_all
  qed
  then have owned: "members_owned ?d" unfolding members_owned_def by blast
  have "has_default o' ?d" if o': "o' \<in> W" for o'
  proof -
    obtain r where r: "r \<in> set ?rows" "ksOwnerID r = o'" "ksIsDefault r"
      using wf'(6) [OF o'] unfolding has_default_def by blast
    show ?thesis
    proof (cases "ksIsDefault old \<and> o' = ow")
      case True
      then show ?thesis using x(1) old(2) unfolding has_default_def rows
        by (intro bexI [of _ "?g x"]) (simp_all add: renamed_row_default)
    next
      case False
      then show ?thesis using r old(2) unfolding has_default_def rows
        by (intro bexI [of _ "?g r"]) (auto simp: renamed_row_default)
    qed
  qed
  moreover have "\<forall>r \<in> set (key_sets ?d). ksIsDefault r \<longrightarrow> ksState r = NameStateActive"
    unfolding rows using active by simp
  moreover have "distinct (map ksOwnerID (filter ksIsDefault (key_sets ?d)))" using dist by simp
  ultimately show ?thesis unfolding keeps_def sets_wf_def using ids names count owned by blast
qed

lemma keeps_create:
  assumes wf: "keeps cap W d" and x: "\<not> ksIsDefault x" "ksOwnerID x = ow"
    and fresh: "\<forall>r \<in> set (key_sets d). ksID r \<noteq> ksID x \<and> (ksOwnerID r, ksName r) \<noteq> (ksOwnerID x, ksName x)"
    and room: "int (length (filter (\<lambda>r. ksOwnerID r = ow) (key_sets d))) < cap"
  shows "keeps cap W (d\<lparr>key_sets := key_sets d @ [x]\<rparr>)"
proof -
  have "int (count_where (\<lambda>r. ksOwnerID r = o') (key_sets d @ [x])) \<le> cap" for o'
    using wf room x(2) by (auto simp: keeps_def sets_wf_def count_where_def)
  then show ?thesis
    using wf fresh x(1) by (fastforce simp: keeps_def sets_wf_def members_owned_def has_default_def)
qed

text \<open>An update of rows that moves no key and no default and retires no default.\<close>

lemma keeps_update:
  assumes wf: "keeps cap W d"
    and key: "\<And>r. ksID (f r) = ksID r" "\<And>r. ksOwnerID (f r) = ksOwnerID r" "\<And>r. ksName (f r) = ksName r"
      "\<And>r. ksIsDefault (f r) = ksIsDefault r"
    and state: "\<And>r. r \<in> set (key_sets d) \<Longrightarrow> P r \<Longrightarrow> ksState r = NameStateActive \<Longrightarrow> ksState (f r) = NameStateActive"
  shows "keeps cap W (d\<lparr>key_sets := update_where P f (key_sets d)\<rparr>)"
proof -
  have keep: "map ksOwnerID (filter ksIsDefault (update_where P f rows)) = map ksOwnerID (filter ksIsDefault rows)" for rows
    by (induction rows) (simp_all add: key)
  have "ksIsDefault r \<longrightarrow> ksState r = NameStateActive" if "r \<in> set (update_where P f (key_sets d))" for r
    using that wf state by (auto simp: mem_update_where keeps_def sets_wf_def key)
  moreover have "members_owned (d\<lparr>key_sets := update_where P f (key_sets d)\<rparr>)"
    using wf by (simp add: keeps_def sets_wf_def members_owned_def key if_distrib [of ksID] if_distrib [of ksOwnerID] cong: if_cong)
  moreover have "has_default ow (d\<lparr>key_sets := update_where P f (key_sets d)\<rparr>)" if "ow \<in> W" for ow
    using wf that by (simp add: keeps_def has_default_def key if_distrib [of ksIsDefault] if_distrib [of ksOwnerID] cong: if_cong)
  ultimately show ?thesis
    using wf by (simp add: keeps_def sets_wf_def key keep map_update_where count_where_update)
qed

lemma keeps_designate:
  assumes wf: "keeps cap W d"
    and target: "x \<in> set (key_sets d)" "ksID x = i" "ksOwnerID x = ow" "ksState x = NameStateActive"
    and dist: "distinct (map ksOwnerID (filter ksIsDefault (designate ow i (key_sets d))))"
  shows "keeps cap W (d\<lparr>key_sets := designate ow i (key_sets d)\<rparr>)"
    (is "keeps cap W ?d")
proof -
  let ?g = "\<lambda>r. r\<lparr>ksIsDefault := (if ksOwnerID r = ow then ksID r = i else ksIsDefault r)\<rparr>"
  have rows: "key_sets ?d = map ?g (key_sets d)" by (simp add: designate_map)
  have ids: "distinct (map ksID (key_sets d))" using wf by (simp add: keeps_def sets_wf_def)
  have "ksState r = NameStateActive" if "r \<in> set (key_sets d)" "ksIsDefault (?g r)" for r
    using that wf key_unique [OF ids that(1) target(1)] target(2,4)
    by (auto simp: keeps_def sets_wf_def split: if_splits)
  then have "\<forall>r \<in> set (key_sets ?d). ksIsDefault r \<longrightarrow> ksState r = NameStateActive" unfolding rows by simp
  moreover have "members_owned ?d" using wf by (simp add: keeps_def sets_wf_def members_owned_def designate_map)
  moreover have "has_default o' ?d" if "o' \<in> W" for o'
  proof (cases "o' = ow")
    case True
    then show ?thesis using target by (simp add: has_default_def designate_map) (rule bexI [of _ x], simp_all)
  next
    case False
    then show ?thesis using wf that unfolding has_default_def rows keeps_def by (fastforce simp: has_default_def)
  qed
  ultimately show ?thesis using wf dist by (simp add: keeps_def sets_wf_def)
qed

lemma filter_le: "length (filter (\<lambda>x. P x \<and> Q x) xs) \<le> length (filter Q xs)"
  by (induction xs) auto

lemma keeps_delete:
  assumes wf: "keeps cap W d" and x: "x \<in> set (key_sets d)" "ksID x = i" "ksOwnerID x = ow" "\<not> ksIsDefault x"
  shows "keeps cap W (d\<lparr>key_sets := delete_where (\<lambda>r. ksID r = i \<and> ksOwnerID r = ow) (key_sets d),
           key_set_members := delete_where (\<lambda>m. mKeySetID m = i) (key_set_members d)\<rparr>)"
    (is "keeps cap W ?d")
proof -
  have ids: "distinct (map ksID (key_sets d))" using wf by (simp add: keeps_def sets_wf_def)
  have only: "r = x" if "r \<in> set (key_sets d)" "ksID r = i" for r
    using key_unique [OF ids that(1) x(1)] that(2) x(2) by simp
  have "distinct (map ksOwnerID (filter ksIsDefault (key_sets ?d)))"
  proof -
    have eq: "filter ksIsDefault (key_sets ?d) = delete_where (\<lambda>r. ksID r = i \<and> ksOwnerID r = ow) (filter ksIsDefault (key_sets d))"
      by (simp add: delete_where_def conj_commute)
    show ?thesis unfolding eq using wf by (intro distinct_map_delete_where) (simp add: keeps_def sets_wf_def)
  qed
  moreover have "int (count_where (\<lambda>r. ksOwnerID r = o') (key_sets ?d)) \<le> cap" for o'
  proof -
    have "count_where (\<lambda>r. ksOwnerID r = o') (key_sets ?d) \<le> count_where (\<lambda>r. ksOwnerID r = o') (key_sets d)"
      unfolding count_where_def by (simp add: delete_where_def) (rule filter_le)
    moreover have "int (count_where (\<lambda>r. ksOwnerID r = o') (key_sets d)) \<le> cap"
      using wf by (simp add: keeps_def sets_wf_def)
    ultimately show ?thesis by linarith
  qed
  moreover have "members_owned ?d"
    unfolding members_owned_def
  proof
    fix m
    assume "m \<in> set (key_set_members ?d)"
    then have m: "m \<in> set (key_set_members d)" "mKeySetID m \<noteq> i" by simp_all
    obtain r k where "r \<in> set (key_sets d)" "k \<in> set (public_keys d)" "ksID r = mKeySetID m" "pkID k = mPublicKeyID m"
      "pkOwnerID k = ksOwnerID r"
      using wf m(1) unfolding keeps_def sets_wf_def members_owned_def by blast
    then show "\<exists>r \<in> set (key_sets ?d). \<exists>k \<in> set (public_keys ?d).
        ksID r = mKeySetID m \<and> pkID k = mPublicKeyID m \<and> pkOwnerID k = ksOwnerID r"
      using m(2) by (intro bexI [of _ r] bexI [of _ k]) simp_all
  qed
  moreover have "has_default o' ?d" if o': "o' \<in> W" for o'
  proof -
    obtain r where "r \<in> set (key_sets d)" "ksOwnerID r = o'" "ksIsDefault r"
      using wf o' unfolding keeps_def has_default_def by blast
    then show ?thesis using only [of r] x(4) unfolding has_default_def by (intro bexI [of _ r]) auto
  qed
  ultimately show ?thesis using wf by (simp add: keeps_def sets_wf_def distinct_map_delete_where)
qed

section \<open>Every operation keeps the invariant\<close>

lemma preserves_lift: "preserves I (lift r)"
  by (simp add: lift_def preserves_return)

lemmas preserves_rules = preserves_if preserves_attempt preserves_bind preserves_sum preserves_option preserves_prod
  preserves_return preserves_query preserves_lift

lemma preserves_Emit: "(\<And>d rs. I d \<Longrightarrow> I (d\<lparr>audit_records := rs\<rparr>)) \<Longrightarrow> preserves I (Emit isPrint ev newID now)"
  by (auto simp: Emit_def Audit_Append_def intro!: preserves_rules preserves_exec split: if_splits)

lemma emit_keeps: "preserves (keeps cap W) (emit_owner e action ow target i details stamp)"
  unfolding emit_owner_def by (rule preserves_Emit) (erule keeps_frame; simp)

lemma keeps_keys:
  assumes "keeps cap W d" and "\<forall>k \<in> set (public_keys d). \<exists>k' \<in> set ks. pkID k' = pkID k \<and> pkOwnerID k' = pkOwnerID k"
  shows "keeps cap W (d\<lparr>public_keys := ks\<rparr>)"
proof -
  have "members_owned (d\<lparr>public_keys := ks\<rparr>)"
    unfolding members_owned_def
  proof
    fix m
    assume "m \<in> set (key_set_members (d\<lparr>public_keys := ks\<rparr>))"
    then obtain r k where "r \<in> set (key_sets d)" "k \<in> set (public_keys d)" "ksID r = mKeySetID m" "pkID k = mPublicKeyID m"
      "pkOwnerID k = ksOwnerID r"
      using assms(1) unfolding keeps_def sets_wf_def members_owned_def by auto
    moreover obtain k' where "k' \<in> set ks" "pkID k' = pkID k" "pkOwnerID k' = pkOwnerID k"
      using assms(2) \<open>k \<in> set (public_keys d)\<close> by blast
    ultimately show "\<exists>r \<in> set (key_sets (d\<lparr>public_keys := ks\<rparr>)). \<exists>k \<in> set (public_keys (d\<lparr>public_keys := ks\<rparr>)).
        ksID r = mKeySetID m \<and> pkID k = mPublicKeyID m \<and> pkOwnerID k = ksOwnerID r"
      by (intro bexI [of _ r] bexI [of _ k']) simp_all
  qed
  then show ?thesis using assms(1) by (simp add: keeps_def sets_wf_def has_default_def)
qed

lemma PublicKeys_Create_keeps: "preserves (keeps cap W) (PublicKeys_Create k)"
  unfolding PublicKeys_Create_def
  by (rule preserves_exec) (auto intro!: keeps_keys split: if_splits)

lemma PublicKeys_Revoke_keeps: "preserves (keeps cap W) (PublicKeys_Revoke ow i now)"
  unfolding PublicKeys_Revoke_def update_keys_def requireAffected_def
  by (intro preserves_rules preserves_exec) (auto intro!: keeps_keys simp: if_distrib [of pkID] if_distrib [of pkOwnerID] cong: if_cong)

lemma devices_keep: "keeps cap W d \<Longrightarrow> keeps cap W (d\<lparr>devices := ds\<rparr>)"
  by (erule keeps_frame) simp_all

lemma Device_Register_keeps: "preserves (keeps cap W) (Device_Register e ow name requestID newID now stamp)"
  unfolding Device_Register_def Let_def Devices_Create_def
  by (intro preserves_rules emit_keeps preserves_exec) (auto simp: devices_keep split: if_splits)

lemma Device_Revoke_keeps: "preserves (keeps cap W) (Device_Revoke e ow i requestID now stamp)"
  unfolding Device_Revoke_def Devices_Get_def Devices_Revoke_def update_devices_def requireAffected_def
  by (intro preserves_rules emit_keeps preserves_exec) (auto simp: devices_keep)

lemma PublicKey_Add_keeps: "preserves (keeps cap W) (PublicKey_Add ssh e ow dev raw requestID newID now stamp)"
  unfolding PublicKey_Add_def PublicKey_device_def Devices_Get_def Let_def
  by (intro preserves_rules emit_keeps PublicKeys_Create_keeps)

lemma PublicKey_Revoke_keeps: "preserves (keeps cap W) (PublicKey_Revoke e ow i requestID now stamp)"
  unfolding PublicKey_Revoke_def PublicKeys_Get_def
  by (intro preserves_rules emit_keeps PublicKeys_Revoke_keeps)

lemma KeySet_Create_keeps: "preserves (keeps (svMaxSets sv) W) (KeySet_Create sv ow name requestID newID now stamp)"
  unfolding KeySet_Create_def Let_def
proof (intro preserves_rules emit_keeps preserves_tx)
  fix s s' u
  let ?x = "\<lparr>ksID = newID, ksOwnerID = ow, ksName = name, ksVisibility = VisibilityProtected, ksIsDefault = False,
    ksState = NameStateActive, ksQuarantineUntil = None, ksFlaggedForReview = False, ksQuarantineOnRelease = False,
    ksCreatedAt = now, ksUpdatedAt = now\<rparr>"
  assume wf: "keeps (svMaxSets sv) W (data s)" and run: "run_state (createLocked sv ow ?x) s = (Inr u, s')"
  show "keeps (svMaxSets sv) W (data s')"
    unfolding createLocked_Inr(1) [OF run] using createLocked_Inr(2,3) [OF run] by (intro keeps_create [OF wf]) simp_all
qed

lemma KeySet_Rename_keeps: "preserves (keeps (svMaxSets sv) W) (KeySet_Rename sv ow i name requestID newID now stamp)"
  unfolding KeySet_Rename_def
proof (intro preserves_rules emit_keeps preserves_tx)
  fix s s' and x :: "KeySet \<times> (string \<times> string) list"
  assume wf: "keeps (svMaxSets sv) W (data s)"
    and run: "run_state (KeySet_rename_tx sv ow i name requestID newID now) s = (Inr x, s')"
  obtain y details where x: "x = (y, details)" by (cases x)
  show "keeps (svMaxSets sv) W (data s')"
    using rename_tx_effect [OF run [unfolded x]]
  proof (elim exE conjE)
    fix old x0
    assume a: "old \<in> set (key_sets (data s))" "ksOwnerID old = ow" "ksState old = NameStateActive"
      and b: "ksOwnerID x0 = ow" "\<not> ksIsDefault x0" "ksState x0 = NameStateActive"
      and c: "ksID x0 = newID" "ksName x0 = name"
      and e: "\<forall>r \<in> set (key_sets (data s)). ksID r \<noteq> newID \<and> (ksOwnerID r, ksName r) \<noteq> (ow, name)"
      and f: "int (length (filter (\<lambda>r. ksOwnerID r = ow) (key_sets (data s)))) < svMaxSets sv"
      and g: "\<forall>m \<in> set (members_of (data s) i). \<exists>k \<in> set (public_keys (data s)). pkID k = mPublicKeyID m \<and> pkOwnerID k = ow"
      and h: "distinct (map ksOwnerID (filter ksIsDefault (key_sets (data s'))))"
      and d: "data s' = (data s)\<lparr>key_sets := renamed_rows old x0 (now + svQuarantine sv) now (key_sets (data s)),
         key_set_members := key_set_members (data s) @ copies newID (members_of (data s) i) now\<rparr>"
    have h': "distinct (map ksOwnerID (filter ksIsDefault (renamed_rows old x0 (now + svQuarantine sv) now (key_sets (data s)))))"
      using h by (simp add: d)
    show ?thesis
      unfolding d c(1) [symmetric] using keeps_rename [OF wf a b _ f g h'] e c by simp
  qed
qed

lemma KeySets_Delete_Inr:
  assumes "run_state (KeySets_Delete True ow i) s = (Inr u, s')"
  shows "\<exists>x \<in> set (key_sets (data s)). ksID x = i \<and> ksOwnerID x = ow \<and> \<not> ksIsDefault x"
    and "data s' = (data s)\<lparr>key_sets := delete_where (\<lambda>r. ksID r = i \<and> ksOwnerID r = ow) (key_sets (data s)),
           key_set_members := delete_where (\<lambda>m. mKeySetID m = i) (key_set_members (data s))\<rparr>"
    and "\<not> list_ex (\<lambda>a. akKeySetID a = i) (access_keys (data s))"
proof -
  obtain x s1 where get: "run_state (query (\<lambda>d. found (find (\<lambda>r. ksID r = i \<and> ksOwnerID r = ow) (key_sets d)))) s = (Inr x, s1)"
    and r1: "run_state (if ksIsDefault x then throw ErrDefaultKeySet
        else attempt (delete_members i) (\<lambda>_.
          attempt (delete_sets (\<lambda>r. ksID r = i \<and> ksOwnerID r = ow)) requireAffected)) s1 = (Inr u, s')"
    using assms unfolding KeySets_Delete_def withLocalTx_def if_True by (rule attempt_InrE)
  have x: "data s1 = data s" "x \<in> set (key_sets (data s))" "ksID x = i" "ksOwnerID x = ow"
    using query_Inr [OF get] by (auto dest: find_SomeD)
  have nd: "\<not> ksIsDefault x" using r1 by (auto split: if_splits)
  obtain u2 s2 n s3 where dm: "run_state (delete_members i) s1 = (Inr u2, s2)"
    and ds: "run_state (delete_sets (\<lambda>r. ksID r = i \<and> ksOwnerID r = ow)) s2 = (Inr n, s3)"
    and req: "run_state (requireAffected n) s3 = (Inr u, s')"
    using r1 nd by (auto simp: attempt_Inr)
  have d2: "data s2 = (data s)\<lparr>key_set_members := delete_where (\<lambda>m. mKeySetID m = i) (key_set_members (data s))\<rparr>"
    using exec_Inr [OF dm [unfolded delete_members_def]] x(1) by simp
  have d3: "\<not> list_ex (\<lambda>x. (ksID x = i \<and> ksOwnerID x = ow) \<and> (list_ex (\<lambda>m. mKeySetID m = ksID x) (key_set_members (data s2))
          \<or> list_ex (\<lambda>a. akKeySetID a = ksID x) (access_keys (data s2)))) (key_sets (data s2))"
    "data s3 = (data s2)\<lparr>key_sets := delete_where (\<lambda>r. ksID r = i \<and> ksOwnerID r = ow) (key_sets (data s2))\<rparr>"
    using exec_Inr [OF ds [unfolded delete_sets_def]] by (auto split: if_splits)
  show "\<exists>x \<in> set (key_sets (data s)). ksID x = i \<and> ksOwnerID x = ow \<and> \<not> ksIsDefault x" using x nd by blast
  show "data s' = (data s)\<lparr>key_sets := delete_where (\<lambda>r. ksID r = i \<and> ksOwnerID r = ow) (key_sets (data s)),
           key_set_members := delete_where (\<lambda>m. mKeySetID m = i) (key_set_members (data s))\<rparr>"
    using requireAffected_Inr [OF req] by (simp add: d3(2) d2)
  show "\<not> list_ex (\<lambda>a. akKeySetID a = i) (access_keys (data s))"
    using d3(1) x(2-4) by (auto simp: d2 list_ex_iff)
qed

lemma delete_tx_effect:
  assumes "run_state (KeySet_delete_tx sv ow i confirm requestID) s = (Inr details, s')"
  shows "\<exists>x \<in> set (key_sets (data s)). ksID x = i \<and> ksOwnerID x = ow \<and> \<not> ksIsDefault x"
    and "data s' = (data s)\<lparr>key_sets := delete_where (\<lambda>r. ksID r = i \<and> ksOwnerID r = ow) (key_sets (data s)),
           key_set_members := delete_where (\<lambda>m. mKeySetID m = i) (key_set_members (data s))\<rparr>"
    and "\<not> list_ex (\<lambda>a. akKeySetID a = i) (access_keys (data s))"
proof -
  obtain x s1 ms s2 where get: "run_state (attempt (KeySets_Get ow i) live) s = (Inr x, s1)"
    and list: "run_state (KeySets_ListMembers ow i) s1 = (Inr ms, s2)"
    and r2: "run_state (if ms \<noteq> [] \<and> \<not> confirm then throw ErrConflict
       else
         attempt (lift (setDetails (svEnv sv) (ksName x) requestID)) (\<lambda>details.
         attempt (KeySets_Delete True ow i) (\<lambda>_. ret details))) s2 = (Inr details, s')"
    using assms unfolding KeySet_delete_tx_def by (blast elim: attempt_InrE)
  have "run_state (attempt (lift (setDetails (svEnv sv) (ksName x) requestID)) (\<lambda>details.
         attempt (KeySets_Delete True ow i) (\<lambda>_. ret details))) s2 = (Inr details, s')"
    using r2 by (auto split: if_splits)
  then obtain u where del: "run_state (KeySets_Delete True ow i) s2 = (Inr u, s')" by (auto simp: attempt_Inr)
  have d: "data s2 = data s"
    using KeySets_Get_Inr(1) [OF get] query_Inr [OF list [unfolded KeySets_ListMembers_def]] by simp
  show "\<exists>x \<in> set (key_sets (data s)). ksID x = i \<and> ksOwnerID x = ow \<and> \<not> ksIsDefault x"
    and "data s' = (data s)\<lparr>key_sets := delete_where (\<lambda>r. ksID r = i \<and> ksOwnerID r = ow) (key_sets (data s)),
           key_set_members := delete_where (\<lambda>m. mKeySetID m = i) (key_set_members (data s))\<rparr>"
    and "\<not> list_ex (\<lambda>a. akKeySetID a = i) (access_keys (data s))"
    using KeySets_Delete_Inr [OF del] unfolding d by simp_all
qed

lemma KeySet_Delete_keeps: "preserves (keeps cap W) (KeySet_Delete sv ow i confirm requestID stamp)"
  unfolding KeySet_Delete_def
proof (intro preserves_rules emit_keeps preserves_tx)
  fix s s' details
  assume wf: "keeps cap W (data s)" and run: "run_state (KeySet_delete_tx sv ow i confirm requestID) s = (Inr details, s')"
  obtain x where "x \<in> set (key_sets (data s))" "ksID x = i" "ksOwnerID x = ow" "\<not> ksIsDefault x"
    using delete_tx_effect(1) [OF run] by blast
  then show "keeps cap W (data s')" unfolding delete_tx_effect(2) [OF run] by (rule keeps_delete [OF wf])
qed

lemma default_tx_effect:
  assumes "run_state (KeySet_default_tx sv ow i requestID now) s = (Inr y, s')"
  shows "data s' = (data s)\<lparr>key_sets := designate ow i (key_sets (data s))\<rparr>"
    and "distinct (map ksOwnerID (filter ksIsDefault (key_sets (data s'))))"
    and "\<exists>x \<in> set (key_sets (data s)). ksID x = i \<and> ksOwnerID x = ow \<and> ksState x = NameStateActive"
proof -
  obtain x s1 where get: "run_state (attempt (KeySets_Get ow i) live) s = (Inr x, s1)"
    and r1: "run_state (do {
       previous \<leftarrow> KeySets_GetDefault ow;
       attempt
         (case previous of
            Inl e \<Rightarrow> if e \<noteq> ErrNotFound then throw e else ret []
          | Inr p \<Rightarrow> ret (ksName p)) (\<lambda>from.
       attempt (lift (defaultDetails (svEnv sv) from (ksName x) requestID)) (\<lambda>details.
       attempt (KeySets_SetDefault True ow i) (\<lambda>_.
       ret (x\<lparr>ksIsDefault := True, ksUpdatedAt := now\<rparr>, details))))
     }) s1 = (Inr y, s')"
    using assms unfolding KeySet_default_tx_def by (rule attempt_InrE)
  obtain p s2 where prev: "run_state (KeySets_GetDefault ow) s1 = (p, s2)" by (cases "run_state (KeySets_GetDefault ow) s1")
  have d2: "data s2 = data s"
    using prev KeySets_Get_Inr(1) [OF get] unfolding KeySets_GetDefault_def
    by (auto simp: query_def exec_def split: if_splits sum.splits)
  have "\<exists>u. run_state (KeySets_SetDefault True ow i) s2 = (Inr u, s')"
    using r1 prev by (auto simp: attempt_Inr split: sum.splits if_splits)
  then obtain u where set: "run_state (KeySets_SetDefault True ow i) s2 = (Inr u, s')" by blast
  show "data s' = (data s)\<lparr>key_sets := designate ow i (key_sets (data s))\<rparr>"
    and "distinct (map ksOwnerID (filter ksIsDefault (key_sets (data s'))))"
    using KeySets_SetDefault_Inr(1,2) [OF set] unfolding d2 by simp_all
  show "\<exists>x \<in> set (key_sets (data s)). ksID x = i \<and> ksOwnerID x = ow \<and> ksState x = NameStateActive"
    using KeySets_Get_Inr(2-5) [OF get] by blast
qed

lemma KeySet_SetDefault_keeps: "preserves (keeps cap W) (KeySet_SetDefault sv ow i requestID now stamp)"
  unfolding KeySet_SetDefault_def
proof (intro preserves_rules emit_keeps preserves_tx)
  fix s s' y
  assume wf: "keeps cap W (data s)" and run: "run_state (KeySet_default_tx sv ow i requestID now) s = (Inr y, s')"
  obtain x where x: "x \<in> set (key_sets (data s))" "ksID x = i" "ksOwnerID x = ow" "ksState x = NameStateActive"
    using default_tx_effect(3) [OF run] by blast
  have "distinct (map ksOwnerID (filter ksIsDefault (designate ow i (key_sets (data s)))))"
    using default_tx_effect(2) [OF run] by (simp add: default_tx_effect(1) [OF run])
  then show "keeps cap W (data s')" unfolding default_tx_effect(1) [OF run] by (rule keeps_designate [OF wf x])
qed

lemma KeySet_SetVisibility_keeps: "preserves (keeps cap W) (KeySet_SetVisibility sv ow i vis requestID now stamp)"
  unfolding KeySet_SetVisibility_def
proof (intro preserves_rules emit_keeps preserves_tx)
  fix s s' y v
  assume wf: "keeps cap W (data s)" and run: "run_state (KeySet_visibility_tx sv ow i v requestID now) s = (Inr y, s')"
  obtain x s1 where get: "run_state (attempt (KeySets_Get ow i) live) s = (Inr x, s1)"
    and r1: "run_state (attempt (lift (visibilityDetails (svEnv sv) (ksVisibility x) v (ksName x) requestID)) (\<lambda>details.
       let target' = x\<lparr>ksVisibility := v, ksUpdatedAt := now\<rparr> in
       attempt (KeySets_Update target') (\<lambda>_. ret (target', details)))) s1 = (Inr y, s')"
    using run unfolding KeySet_visibility_tx_def by (rule attempt_InrE)
  obtain u where upd: "run_state (KeySets_Update (x\<lparr>ksVisibility := v, ksUpdatedAt := now\<rparr>)) s1 = (Inr u, s')"
    using r1 by (auto simp: attempt_Inr Let_def)
  note g = KeySets_Get_Inr [OF get]
  show "keeps cap W (data s')"
    unfolding update_sets_Inr(1) [OF upd [unfolded KeySets_Update_def]] g(1)
    by (rule keeps_update [OF wf]) (simp_all add: g(5))
qed

lemma emit_owner_Inr:
  assumes "run_state (emit_owner e action ow target i details stamp) s = (Inr u, s')"
  shows "\<exists>rs. data s' = (data s)\<lparr>audit_records := rs\<rparr>"
  using assms unfolding emit_owner_def Emit_def Audit_Append_def
  by (auto split: sum.splits if_splits dest!: exec_Inr) metis

text \<open>A deletion that succeeded, up to its record: the row and its members are gone.\<close>

lemma delete_effect:
  assumes "run_state (KeySet_Delete sv ow i confirm requestID stamp) s = (Inr u, s')"
  shows "key_sets (data s') = delete_where (\<lambda>r. ksID r = i \<and> ksOwnerID r = ow) (key_sets (data s))"
    and "owners (data s') = owners (data s)"
    and "\<exists>x \<in> set (key_sets (data s)). ksID x = i \<and> ksOwnerID x = ow"
    and "\<not> list_ex (\<lambda>a. akKeySetID a = i) (access_keys (data s))"
proof -
  have run: "run_state (attempt (WithTx (KeySet_delete_tx sv ow i confirm requestID)) (\<lambda>details.
        emit_owner (svEnv sv) AuditActionKeySetDeleted ow TargetTypeKeySet i (Inr details) stamp)) s = (Inr u, s')"
    using assms by (auto simp: KeySet_Delete_def split: if_splits)
  obtain details s1 where tx: "run_state (WithTx (KeySet_delete_tx sv ow i confirm requestID)) s = (Inr details, s1)"
    and em: "run_state (emit_owner (svEnv sv) AuditActionKeySetDeleted ow TargetTypeKeySet i (Inr details) stamp) s1 = (Inr u, s')"
    using run by (rule attempt_InrE)
  obtain s2 where tx2: "run_state (KeySet_delete_tx sv ow i confirm requestID) (tick s) = (Inr details, s2)" "data s1 = data s2"
    using WithTx_Inr [OF tx] by blast
  obtain rs where "data s' = (data s2)\<lparr>audit_records := rs\<rparr>" using emit_owner_Inr [OF em] tx2(2) by auto
  then show "key_sets (data s') = delete_where (\<lambda>r. ksID r = i \<and> ksOwnerID r = ow) (key_sets (data s))"
    and "owners (data s') = owners (data s)"
    and "\<exists>x \<in> set (key_sets (data s)). ksID x = i \<and> ksOwnerID x = ow"
    and "\<not> list_ex (\<lambda>a. akKeySetID a = i) (access_keys (data s))"
    using delete_tx_effect [OF tx2(1)] by auto
qed

text \<open>
  A set that ever had an access key, revoked or not, is never deleted: the key's row still refers to it.
\<close>

lemma delete_refused_with_access_keys:
  assumes "a \<in> set (access_keys (data s))" and "akKeySetID a = i"
  shows "fst (run_state (KeySet_Delete sv ow i confirm requestID stamp) s) \<noteq> Inr ()"
proof
  assume "fst (run_state (KeySet_Delete sv ow i confirm requestID stamp) s) = Inr ()"
  then obtain s' where "run_state (KeySet_Delete sv ow i confirm requestID stamp) s = (Inr (), s')" by (metis prod.collapse)
  then show False using delete_effect(4) assms by (fastforce simp: list_ex_iff)
qed

lemma deleted_room:
  assumes wf: "sets_wf cap d" and old: "old \<in> set (key_sets d)" "ksID old = i"
    and some: "\<exists>x \<in> set (key_sets d). ksID x = i \<and> ksOwnerID x = ow"
    and name: "name = ksName old"
  defines "rows \<equiv> delete_where (\<lambda>r. ksID r = i \<and> ksOwnerID r = ow) (key_sets d)"
  shows "int (count_where (\<lambda>r. ksOwnerID r = ow) rows) < cap"
    and "\<forall>r \<in> set rows. ksOwnerID r = ow \<longrightarrow> ksName r \<noteq> name"
proof -
  have ids: "distinct (map ksID (key_sets d))" and names: "distinct (map (\<lambda>r. (ksOwnerID r, ksName r)) (key_sets d))"
    and cap: "int (count_where (\<lambda>r. ksOwnerID r = ow) (key_sets d)) \<le> cap"
    using wf by (simp_all add: sets_wf_def)
  obtain x where "x \<in> set (key_sets d)" "ksID x = i" "ksOwnerID x = ow" using some by blast
  then have ow: "ksOwnerID old = ow" using key_unique [OF ids old(1), of x] old(2) by simp
  have "filter (\<lambda>r. ksOwnerID r = ow) rows = filter (\<lambda>r. ksID r \<noteq> i) (filter (\<lambda>r. ksOwnerID r = ow) (key_sets d))"
    by (simp add: rows_def delete_where_def) (metis (no_types, lifting) filter_cong)
  moreover have "length (filter (\<lambda>r. ksID r \<noteq> i) (filter (\<lambda>r. ksOwnerID r = ow) (key_sets d)))
      < length (filter (\<lambda>r. ksOwnerID r = ow) (key_sets d))"
    by (rule length_filter_less [of old]) (simp_all add: old ow)
  ultimately show "int (count_where (\<lambda>r. ksOwnerID r = ow) rows) < cap" using cap by (simp add: count_where_def)
  show "\<forall>r \<in> set rows. ksOwnerID r = ow \<longrightarrow> ksName r \<noteq> name"
  proof (intro ballI impI)
    fix r
    assume r: "r \<in> set rows" "ksOwnerID r = ow"
    then have "r \<in> set (key_sets d)" "ksID r \<noteq> i" by (auto simp: rows_def)
    then show "ksName r \<noteq> name" using key_unique [OF names _ old(1), of r] r(2) ow old(2) name by auto
  qed
qed

section \<open>Sequences of operations\<close>

text \<open>One operation of an owner, whatever its arguments, its outcome and the statements that fail in it.\<close>

inductive owner_step :: "'p ssh_lib \<Rightarrow> KeySetService \<Rightarrow> session \<Rightarrow> session \<Rightarrow> bool" for ssh sv where
  device_register: "run_state (Device_Register (svEnv sv) ow name req newID now stamp) s = (r, s') \<Longrightarrow> owner_step ssh sv s s'"
| device_revoke: "run_state (Device_Revoke (svEnv sv) ow i req now stamp) s = (r, s') \<Longrightarrow> owner_step ssh sv s s'"
| key_add: "run_state (PublicKey_Add ssh (svEnv sv) ow dev raw req newID now stamp) s = (r, s') \<Longrightarrow> owner_step ssh sv s s'"
| key_revoke: "run_state (PublicKey_Revoke (svEnv sv) ow i req now stamp) s = (r, s') \<Longrightarrow> owner_step ssh sv s s'"
| set_create: "run_state (KeySet_Create sv ow name req newID now stamp) s = (r, s') \<Longrightarrow> owner_step ssh sv s s'"
| set_rename: "run_state (KeySet_Rename sv ow i name req newID now stamp) s = (r, s') \<Longrightarrow> owner_step ssh sv s s'"
| set_delete: "run_state (KeySet_Delete sv ow i confirm req stamp) s = (r, s') \<Longrightarrow> owner_step ssh sv s s'"
| set_default: "run_state (KeySet_SetDefault sv ow i req now stamp) s = (r, s') \<Longrightarrow> owner_step ssh sv s s'"
| set_visibility: "run_state (KeySet_SetVisibility sv ow i vis req now stamp) s = (r, s') \<Longrightarrow> owner_step ssh sv s s'"

lemmas operations_keep = Device_Register_keeps Device_Revoke_keeps PublicKey_Add_keeps PublicKey_Revoke_keeps
  KeySet_Create_keeps KeySet_Rename_keeps KeySet_Delete_keeps KeySet_SetDefault_keeps KeySet_SetVisibility_keeps

lemma owner_step_keeps:
  "owner_step ssh sv s s' \<Longrightarrow> keeps (svMaxSets sv) W (data s) \<Longrightarrow> keeps (svMaxSets sv) W (data s')"
  by (induction rule: owner_step.induct) (metis operations_keep preservesD snd_conv)+

definition sample_set :: "KeySetID \<Rightarrow> string \<Rightarrow> bool \<Rightarrow> KeySet" where
  "sample_set i name def =
     \<lparr>ksID = i, ksOwnerID = ''alice'', ksName = name, ksVisibility = VisibilityProtected, ksIsDefault = def,
      ksState = NameStateActive, ksQuarantineUntil = None, ksFlaggedForReview = False,
      ksQuarantineOnRelease = False, ksCreatedAt = 0, ksUpdatedAt = 0\<rparr>"

definition sample_env :: env where
  "sample_env = \<lparr>eUnicode = plain, eGuard = \<lparr>matcher = Some sample_matcher\<rparr>, eIsPrint = (\<lambda>_. True)\<rparr>"

definition sample_sets :: session where
  "sample_sets = \<lparr>data = empty_db\<lparr>owners := [\<lparr>oID = ''alice'', oStatus = OwnerStatusActive, oCreatedAt = 0, oUpdatedAt = 0, oDeletedAt = None\<rparr>],
     key_sets := [sample_set ''k1'' ''main'' True, sample_set ''k2'' ''work'' False]\<rparr>, faults = []\<rparr>"

lemma sample_sets_wf: "sets_wf 100 (data sample_sets)"
  by (auto simp: sets_wf_def members_owned_def sample_sets_def sample_set_def empty_db_def count_where_def)

section \<open>Properties\<close>

text \<open>
  C23: Whatever operations owners run on devices, keys and key sets, in any order, with any arguments and
  with statements failing at any point, no two sets share an identifier or a name of one owner, an owner
  has at most one default set, a default set is live, an owner never exceeds the limit of sets, a set
  lists only keys of its own owner, and an owner that has a default set never loses it.
\<close>

theorem key_sets_stay_sound:
  assumes "(owner_step ssh sv)\<^sup>*\<^sup>* s s'" and "sets_wf (svMaxSets sv) (data s)"
  shows "sets_wf (svMaxSets sv) (data s') \<and> (\<forall>ow. has_default ow (data s) \<longrightarrow> has_default ow (data s'))"
proof -
  have "keeps (svMaxSets sv) {ow. has_default ow (data s)} (data s')"
    using assms(1)
  proof (induction rule: rtranclp_induct)
    case base
    then show ?case using assms(2) by (simp add: keeps_def)
  next
    case (step s1 s2)
    then show ?case by (blast intro: owner_step_keeps)
  qed
  then show ?thesis by (simp add: keeps_def)
qed

theorem key_sets_stay_sound_witness:
  "\<exists>x s1 s2. run_state (KeySet_SetDefault (KeySet_New sample_env []) ''alice'' ''k2'' [] 5 (''r1'', 5)) sample_sets = (Inr x, s1)
     \<and> run_state (KeySet_Delete (KeySet_New sample_env []) ''alice'' ''k1'' False [] (''r2'', 6)) s1 = (Inr (), s2)
     \<and> sets_wf 100 (data s2) \<and> has_default ''alice'' (data s2)"
proof -
  let ?sv = "KeySet_New sample_env []"
  let ?first = "KeySet_SetDefault ?sv ''alice'' ''k2'' [] 5 (''r1'', 5)"
  let ?second = "KeySet_Delete ?sv ''alice'' ''k1'' False [] (''r2'', 6)"
  have ok: "\<not> isl (fst (run_state ?first sample_sets))"
    "fst (run_state ?second (snd (run_state ?first sample_sets))) = Inr ()"
    by code_simp+
  obtain x s1 where r1: "run_state ?first sample_sets = (Inr x, s1)"
    using ok(1) by (metis isl_def prod.collapse sum.exhaust_sel)
  obtain s2 where r2: "run_state ?second s1 = (Inr (), s2)" using ok(2) by (metis r1 prod.collapse snd_conv)
  have "(owner_step ssh ?sv)\<^sup>*\<^sup>* sample_sets s2" for ssh :: "unit ssh_lib"
    using owner_step.set_default [OF r1] owner_step.set_delete [OF r2]
    by (meson r_into_rtranclp rtranclp.rtrancl_into_rtrancl)
  moreover have cap: "svMaxSets ?sv = 100" by (simp add: KeySet_New_def env.defs KeySet_DefaultMaxSets_def)
  moreover have "has_default ''alice'' (data sample_sets)"
    by (simp add: has_default_def sample_sets_def sample_set_def)
  ultimately show ?thesis
    using key_sets_stay_sound [of undefined ?sv sample_sets s2] sample_sets_wf r1 r2 by auto
qed

text \<open>
  A deleted set leaves no reserved name: the very next creation of a set of that name for the same
  owner finds nothing in its way. The comment on \<^verbatim>\<open>ErrDuplicate\<close> announces a tombstone left by a delete.
\<close>

lemma delete_frees_name:
  assumes wf: "sets_wf (svMaxSets sv) (data s)"
    and old: "old \<in> set (key_sets (data s))" "ksID old = i" "owner_exists ow (data s)"
    and del: "run_state (KeySet_Delete sv ow i confirm requestID stamp) s = (Inr (), s')"
    and x: "ksOwnerID x = ow" "ksName x = ksName old" "\<not> ksIsDefault x" "\<forall>r \<in> set (key_sets (data s)). ksID r \<noteq> ksID x"
    and working: "data t = data s'" "faults t = []"
  shows "fst (run_state (WithTx (createLocked sv ow x)) t) = Inr ()"
  using deleted_room [OF wf old(1,2) delete_effect(3) [OF del] x(2)] delete_effect(1,2) [OF del] x old(3) working
  by (simp add: createLocked_def KeySets_LockOwnerForCreate_def KeySets_CountByOwner_def KeySets_Create_def
      working query_ok exec_ok run_attempt WithTx_ok list_ex_iff owner_exists_def tick_ok) blast

end
