(* ===== verification/Access_Keys.thy ===== *)
theory Access_Keys
  imports Key_Services Crypto Base64
begin

text \<open>
  Access keys of protected key sets (\<^verbatim>\<open>internal/service/accesskey\<close>): the token and its keyed digest, minting,
  listing, revocation, verification, rotation with a grace window, and the job that retires keys whose window
  ended. The thirty-two random bytes and the identifier of a new key are arguments.
\<close>

section \<open>Tokens\<close>

definition tokenPrefix :: string where "tokenPrefix = ''vak_''"
definition tokenSeparator :: char where "tokenSeparator = CHR ''.''"
definition secretBytes :: nat where "secretBytes = 32"
definition maxTokenLen :: nat where "maxTokenLen = 256"
definition MinPepperLen :: nat where "MinPepperLen = 32"

definition newHasher :: "bytes \<Rightarrow> bytes result" where
  "newHasher pepper = (if length pepper < MinPepperLen then Inl ErrInternal else Inr pepper)"

definition hasher_hash :: "bytes \<Rightarrow> AccessKeyID \<Rightarrow> string \<Rightarrow> bytes" where
  "hasher_hash pepper i secret = hmac_sha256 pepper (i @ [char_of (0::nat)] @ secret)"

definition hasher_equal :: "bytes \<Rightarrow> bytes \<Rightarrow> AccessKeyID \<Rightarrow> string \<Rightarrow> bool" where
  "hasher_equal pepper stored i secret \<longleftrightarrow> stored = hasher_hash pepper i secret"

definition newToken :: "bytes \<Rightarrow> AccessKeyID \<Rightarrow> string \<times> AccessKeyID \<times> string" where
  "newToken raw i =
     (let secret = RawURL_Encode raw in (tokenPrefix @ i @ [tokenSeparator] @ secret, i, secret))"

definition parseToken :: "string \<Rightarrow> (AccessKeyID \<times> string) option" where
  "parseToken presented =
     (if maxTokenLen < length presented then None
      else
        (case CutPrefix presented tokenPrefix of
           None \<Rightarrow> None
         | Some body \<Rightarrow>
             (case Cut body tokenSeparator of
                None \<Rightarrow> None
              | Some (i, secret) \<Rightarrow>
                  if i = [] \<or> secret = [] then None
                  else if tokenSeparator \<in> set secret then None
                  else Some (i, secret))))"

section \<open>The service\<close>

definition maxNameLen :: nat where "maxNameLen = 64"
definition defaultGraceWindow :: duration where "defaultGraceWindow = 24 * hour"

record AccessKeyService =
  asIsPrint :: "nat \<Rightarrow> bool"
  asPepper :: bytes
  asGraceWindow :: duration

definition AccessKey_WithGraceWindow :: "duration \<Rightarrow> AccessKeyService \<Rightarrow> AccessKeyService" where
  "AccessKey_WithGraceWindow d s = s\<lparr>asGraceWindow := d\<rparr>"

definition AccessKey_New ::
  "(nat \<Rightarrow> bool) \<Rightarrow> bytes \<Rightarrow> (AccessKeyService \<Rightarrow> AccessKeyService) list \<Rightarrow> AccessKeyService result" where
  "AccessKey_New isPrint pepper opts =
     (case newHasher pepper of
        Inl e \<Rightarrow> Inl e
      | Inr h \<Rightarrow>
          let s = foldl (\<lambda>s opt. opt s)
                \<lparr>asIsPrint = isPrint, asPepper = h, asGraceWindow = defaultGraceWindow\<rparr> opts in
          if asGraceWindow s \<le> 0 then Inl ErrInternal else Inr s)"

definition cleanName :: "string \<Rightarrow> string result" where
  "cleanName name =
     (let clean = TrimSpace name in
      if clean = [] then Inl ErrInvalidInput
      else if maxNameLen < length (runes clean) then Inl ErrInvalidInput
      else if \<not> ValidString clean then Inl ErrInvalidInput
      else Inr clean)"

definition optional_detail :: "(nat \<Rightarrow> bool) \<Rightarrow> DetailKey \<Rightarrow> string \<Rightarrow> Details \<Rightarrow> Details" where
  "optional_detail isPrint key v d = (if v \<noteq> [] then Details_Set isPrint key v d else d)"

definition AccessKey_keyDetails :: "(nat \<Rightarrow> bool) \<Rightarrow> string \<Rightarrow> string \<Rightarrow> string \<Rightarrow> Details" where
  "AccessKey_keyDetails isPrint name setName requestID =
     recordable (optional_detail isPrint DetailRequestID requestID
       (optional_detail isPrint DetailKeySetName setName (Details_Set isPrint DetailClientLabel name no_details)))"

definition rotationDetails :: "(nat \<Rightarrow> bool) \<Rightarrow> AccessKey \<Rightarrow> AccessKeyID \<Rightarrow> string \<Rightarrow> string \<Rightarrow> Details" where
  "rotationDetails isPrint old replacement setName requestID =
     recordable (optional_detail isPrint DetailRequestID requestID
       (optional_detail isPrint DetailKeySetName setName
         (Details_Set isPrint DetailTo replacement
           (Details_Set isPrint DetailFrom (akID old) (Details_Set isPrint DetailClientLabel (akName old) no_details)))))"

definition AccessKey_emit ::
  "AccessKeyService \<Rightarrow> AuditAction \<Rightarrow> OwnerID \<Rightarrow> AccessKeyID \<Rightarrow> Details \<Rightarrow> stamp \<Rightarrow> unit conn" where
  "AccessKey_emit sv action ow i details stamp =
     Emit (asIsPrint sv)
       \<lparr>evActorType = ActorTypeOwner, evActorID = ow, evAction = action, evTargetType = TargetTypeAccessKey,
        evTargetID = i, evDetails = details\<rparr> (fst stamp) (snd stamp)"

definition emitSystem :: "AccessKeyService \<Rightarrow> AuditAction \<Rightarrow> AccessKeyID \<Rightarrow> Details \<Rightarrow> stamp \<Rightarrow> unit conn" where
  "emitSystem sv action i details stamp =
     Emit (asIsPrint sv)
       \<lparr>evActorType = ActorTypeSystem, evActorID = [], evAction = action, evTargetType = TargetTypeAccessKey,
        evTargetID = i, evDetails = details\<rparr> (fst stamp) (snd stamp)"

text \<open>\<^verbatim>\<open>keySet\<close>, and \<^verbatim>\<open>keySetIn\<close> inside a transaction: the same statements.\<close>

definition AccessKey_keySet :: "OwnerID \<Rightarrow> KeySetID \<Rightarrow> KeySet conn" where
  "AccessKey_keySet ow sid =
     (if sid = [] then throw ErrNotFound
      else attempt (KeySets_Get ow sid) (\<lambda>x. if ksState x \<noteq> NameStateActive then throw ErrNotFound else ret x))"

definition Mint ::
  "AccessKeyService \<Rightarrow> OwnerID \<Rightarrow> KeySetID \<Rightarrow> string \<Rightarrow> string \<Rightarrow> bytes \<Rightarrow> AccessKeyID \<Rightarrow> time \<Rightarrow> stamp
    \<Rightarrow> (AccessKey \<times> string) conn" where
  "Mint sv ow sid name requestID raw newID now stamp =
     (if ow = [] then throw ErrInvalidInput
      else
        attempt (lift (cleanName name)) (\<lambda>clean.
        attempt (AccessKey_keySet ow sid) (\<lambda>x.
        attempt (lift (AccessKey_keyDetails (asIsPrint sv) clean (ksName x) requestID)) (\<lambda>details.
          let (token, i, secret) = newToken raw newID;
              k = \<lparr>akID = i, akOwnerID = ow, akKeySetID = ksID x, akName = clean,
                   akSecretHash = hasher_hash (asPepper sv) i secret, akStatus = AccessKeyStatusActive,
                   akCreatedAt = now, akRevokedAt = None, akGraceUntil = None, akReplacedByID = None\<rparr> in
          attempt (AccessKeys_Create k) (\<lambda>_.
          attempt (AccessKey_emit sv AuditActionAccessKeyCreated ow i (Inr details) stamp) (\<lambda>_.
          ret (k, token)))))))"

definition AccessKey_List :: "OwnerID \<Rightarrow> AccessKey list conn" where
  "AccessKey_List ow = (if ow = [] then throw ErrInvalidInput else AccessKeys_ListByOwner ow)"

definition AccessKey_ListBySet :: "OwnerID \<Rightarrow> KeySetID \<Rightarrow> AccessKey list conn" where
  "AccessKey_ListBySet ow sid =
     (if ow = [] then throw ErrInvalidInput
      else if sid = [] then throw ErrInvalidInput
      else AccessKeys_ListByKeySet ow sid)"

definition AccessKey_Revoke :: "AccessKeyService \<Rightarrow> OwnerID \<Rightarrow> AccessKeyID \<Rightarrow> string \<Rightarrow> time \<Rightarrow> stamp \<Rightarrow> unit conn" where
  "AccessKey_Revoke sv ow i requestID now stamp =
     (if ow = [] then throw ErrInvalidInput
      else if i = [] then throw ErrNotFound
      else
        attempt (AccessKeys_Get ow i) (\<lambda>k.
          if akStatus k = AccessKeyStatusRevoked then throw ErrNotFound
          else
            (case AccessKey_keyDetails (asIsPrint sv) (akName k) [] requestID of
               Inl _ \<Rightarrow> throw ErrInternal
             | Inr details \<Rightarrow>
                 attempt (AccessKeys_Revoke ow i now) (\<lambda>_.
                   AccessKey_emit sv AuditActionAccessKeyRevoked ow i (Inr details) stamp))))"

section \<open>Verification\<close>

definition usable :: "AccessKey \<Rightarrow> time \<Rightarrow> bool" where
  "usable k now =
     (case akStatus k of
        AccessKeyStatusActive \<Rightarrow> True
      | AccessKeyStatusGrace \<Rightarrow> (case akGraceUntil k of None \<Rightarrow> False | Some t \<Rightarrow> now \<le> t)
      | _ \<Rightarrow> False)"

definition Verify :: "AccessKeyService \<Rightarrow> OwnerID \<Rightarrow> KeySetID \<Rightarrow> string \<Rightarrow> time \<Rightarrow> AccessKey conn" where
  "Verify sv ow sid presented now =
     (if ow = [] \<or> sid = [] then throw ErrNotFound
      else
        (case parseToken presented of
           None \<Rightarrow> throw ErrNotFound
         | Some (i, secret) \<Rightarrow>
             attempt (AccessKeys_Get ow i) (\<lambda>k.
               if akKeySetID k \<noteq> sid then throw ErrNotFound
               else if \<not> usable k now then throw ErrNotFound
               else if \<not> hasher_equal (asPepper sv) (akSecretHash k) i secret then throw ErrNotFound
               else ret k)))"

section \<open>Rotation\<close>

definition newRotatedKey ::
  "AccessKeyService \<Rightarrow> AccessKey \<Rightarrow> KeySet \<Rightarrow> bytes \<Rightarrow> AccessKeyID \<Rightarrow> time \<Rightarrow> string \<times> AccessKey" where
  "newRotatedKey sv old x raw newID now =
     (let (token, i, secret) = newToken raw newID in
      (token, \<lparr>akID = i, akOwnerID = akOwnerID old, akKeySetID = ksID x, akName = akName old,
               akSecretHash = hasher_hash (asPepper sv) i secret, akStatus = AccessKeyStatusActive,
               akCreatedAt = now, akRevokedAt = None, akGraceUntil = None, akReplacedByID = None\<rparr>))"

definition rotate_tx ::
  "AccessKeyService \<Rightarrow> OwnerID \<Rightarrow> AccessKeyID \<Rightarrow> string \<Rightarrow> bytes \<Rightarrow> AccessKeyID \<Rightarrow> time
    \<Rightarrow> (AccessKey \<times> string \<times> (string \<times> string) list \<times> (string \<times> string) list) conn" where
  "rotate_tx sv ow i requestID raw newID now =
     attempt (AccessKeys_Get ow i) (\<lambda>old.
       if akStatus old \<noteq> AccessKeyStatusActive then throw ErrNotFound
       else
         attempt (AccessKey_keySet ow (akKeySetID old)) (\<lambda>x.
           let (plaintext, newKey) = newRotatedKey sv old x raw newID now in
           (case AccessKey_keyDetails (asIsPrint sv) (akName old) (ksName x) requestID of
              Inl _ \<Rightarrow> throw ErrInternal
            | Inr createdDetails \<Rightarrow>
                (case rotationDetails (asIsPrint sv) old (akID newKey) (ksName x) requestID of
                   Inl _ \<Rightarrow> throw ErrInternal
                 | Inr rotateDetails \<Rightarrow>
                     attempt (AccessKeys_Create newKey) (\<lambda>_.
                     attempt (AccessKeys_MarkRotated ow i (akID newKey) (now + asGraceWindow sv)) (\<lambda>_.
                     ret (newKey, plaintext, createdDetails, rotateDetails)))))))"

definition Rotate ::
  "AccessKeyService \<Rightarrow> OwnerID \<Rightarrow> AccessKeyID \<Rightarrow> string \<Rightarrow> bytes \<Rightarrow> AccessKeyID \<Rightarrow> time \<Rightarrow> stamp \<Rightarrow> stamp
    \<Rightarrow> (AccessKey \<times> string) conn" where
  "Rotate sv ow i requestID raw newID now stamp1 stamp2 =
     (if ow = [] then throw ErrInvalidInput
      else if i = [] then throw ErrNotFound
      else if asGraceWindow sv \<le> 0 then throw ErrInvalidInput
      else
        attempt (WithTx (rotate_tx sv ow i requestID raw newID now))
          (\<lambda>(created, token, createdDetails, rotateDetails).
        attempt (AccessKey_emit sv AuditActionAccessKeyCreated ow (akID created) (Inr createdDetails) stamp1) (\<lambda>_.
        attempt (AccessKey_emit sv AuditActionAccessKeyRotated ow i (Inr rotateDetails) stamp2) (\<lambda>_.
        ret (created, token)))))"

section \<open>Expiry of grace windows\<close>

text \<open>The loop over the rows listed, with the count so far; the stamps are those of the records it writes.\<close>

fun expire_loop ::
  "AccessKeyService \<Rightarrow> AccessKey list \<Rightarrow> time \<Rightarrow> (nat \<Rightarrow> stamp) \<Rightarrow> nat \<Rightarrow> (session, nat \<times> err option) state" where
  "expire_loop sv [] now stamps n = State_Monad.return (n, None)"
| "expire_loop sv (k # ks) now stamps n =
     (case AccessKey_keyDetails (asIsPrint sv) (akName k) [] [] of
        Inl _ \<Rightarrow> State_Monad.return (n, Some ErrInternal)
      | Inr details \<Rightarrow> do {
          revoked \<leftarrow> AccessKeys_Revoke (akOwnerID k) (akID k) now;
          (case revoked of
             Inl e \<Rightarrow>
               if e = ErrNotFound then expire_loop sv ks now stamps n
               else State_Monad.return (n, Some e)
           | Inr _ \<Rightarrow> do {
               emitted \<leftarrow> emitSystem sv AuditActionAccessKeyRevoked (akID k) (Inr details) (stamps n);
               (case emitted of
                  Inl e \<Rightarrow> State_Monad.return (n, Some e)
                | Inr _ \<Rightarrow> expire_loop sv ks now stamps (n + 1))
             })
        })"

definition ExpireGrace ::
  "AccessKeyService \<Rightarrow> int \<Rightarrow> time \<Rightarrow> (nat \<Rightarrow> stamp) \<Rightarrow> (session, nat \<times> err option) state" where
  "ExpireGrace sv limit now stamps =
     (if limit < 1 then State_Monad.return (0, Some ErrInvalidInput)
      else do {
        expired \<leftarrow> AccessKeys_ListExpiredGrace now limit;
        (case expired of
           Inl e \<Rightarrow> State_Monad.return (0, Some e)
         | Inr ks \<Rightarrow> expire_loop sv ks now stamps 0)
      })"

section \<open>Tokens read back\<close>

lemma parseToken_Some:
  "parseToken presented = Some (i, secret) \<longleftrightarrow>
     presented = tokenPrefix @ i @ [tokenSeparator] @ secret \<and> length presented \<le> maxTokenLen
     \<and> i \<noteq> [] \<and> secret \<noteq> [] \<and> tokenSeparator \<notin> set i \<and> tokenSeparator \<notin> set secret"
    (is "_ \<longleftrightarrow> ?shape")
proof
  show "parseToken presented = Some (i, secret) \<Longrightarrow> ?shape"
    by (auto simp: parseToken_def CutPrefix_Some Cut_Some split: option.splits if_splits prod.splits)
  show "?shape \<Longrightarrow> parseToken presented = Some (i, secret)"
    by (elim conjE) (simp add: parseToken_def not_less)
qed

lemma newToken_parses:
  assumes "length raw = secretBytes" and "i \<noteq> []" and "tokenSeparator \<notin> set i" and "length i \<le> 208"
  shows "parseToken (fst (newToken raw i)) = Some (i, RawURL_Encode raw)"
proof -
  have len: "length (RawURL_Encode raw) = 43" using assms(1) by (simp add: length_RawURL_Encode secretBytes_def)
  then have "RawURL_Encode raw \<noteq> []" by auto
  then show ?thesis
    using assms len RawURL_Encode_no_dot [of raw]
    by (simp add: parseToken_Some newToken_def Let_def tokenPrefix_def tokenSeparator_def maxTokenLen_def)
qed

section \<open>Verification as a function of the table\<close>

definition verified ::
  "AccessKeyService \<Rightarrow> OwnerID \<Rightarrow> KeySetID \<Rightarrow> string \<Rightarrow> time \<Rightarrow> AccessKey list \<Rightarrow> AccessKey result" where
  "verified sv ow sid presented now rows =
     (if ow = [] \<or> sid = [] then Inl ErrNotFound
      else
        (case parseToken presented of
           None \<Rightarrow> Inl ErrNotFound
         | Some (i, secret) \<Rightarrow>
             (case find (\<lambda>r. akID r = i \<and> akOwnerID r = ow) rows of
                None \<Rightarrow> Inl ErrNotFound
              | Some k \<Rightarrow>
                  if akKeySetID k = sid \<and> usable k now \<and> hasher_equal (asPepper sv) (akSecretHash k) i secret
                  then Inr k else Inl ErrNotFound)))"

lemma verified_Inr:
  assumes "verified sv ow sid presented now rows = Inr k"
  obtains secret where "ow \<noteq> []" and "sid \<noteq> []" and "parseToken presented = Some (akID k, secret)"
    and "find (\<lambda>r. akID r = akID k \<and> akOwnerID r = ow) rows = Some k" and "akKeySetID k = sid"
    and "usable k now" and "hasher_equal (asPepper sv) (akSecretHash k) (akID k) secret"
proof -
  obtain j secret where a: "ow \<noteq> []" "sid \<noteq> []" "parseToken presented = Some (j, secret)"
    and f: "find (\<lambda>r. akID r = j \<and> akOwnerID r = ow) rows = Some k"
    and b: "akKeySetID k = sid" "usable k now" "hasher_equal (asPepper sv) (akSecretHash k) j secret"
    using assms by (auto simp: verified_def split: if_splits option.splits prod.splits)
  have "akID k = j" using find_SomeD [OF f] by simp
  then show ?thesis using a f b by (intro that) simp_all
qed

lemma verified_Inl: "verified sv ow sid presented now rows = Inl e \<Longrightarrow> e = ErrNotFound"
  by (auto simp: verified_def split: if_splits option.splits prod.splits)

lemma Verify_ok:
  "faults s = [] \<Longrightarrow>
   run_state (Verify sv ow sid presented now) s = (verified sv ow sid presented now (access_keys (data s)), s)"
  by (auto simp: Verify_def verified_def AccessKeys_Get_def query_ok run_attempt found_def split: option.splits)

section \<open>What a rotation does to the table\<close>

definition replaced :: "AccessKeyID \<Rightarrow> time \<Rightarrow> AccessKey \<Rightarrow> AccessKey" where
  "replaced newID until r =
     r\<lparr>akStatus := AccessKeyStatusGrace, akReplacedByID := Some newID, akGraceUntil := Some until\<rparr>"

lemma Emit_Inr:
  assumes "run_state (Emit isPrint ev newID now) s = (Inr u, s')"
  shows "\<exists>rs. data s' = (data s)\<lparr>audit_records := rs\<rparr>"
  using assms unfolding Emit_def Audit_Append_def by (auto split: sum.splits if_splits dest!: exec_Inr) metis

lemma AccessKey_keySet_Inr:
  assumes "run_state (AccessKey_keySet ow sid) s = (Inr x, s')"
  shows "data s' = data s" and "ksID x = sid" and "x \<in> set (key_sets (data s))" and "sid \<noteq> []"
proof -
  have "sid \<noteq> []" and run: "run_state (attempt (KeySets_Get ow sid) (\<lambda>x. if ksState x \<noteq> NameStateActive then throw ErrNotFound else ret x)) s = (Inr x, s')"
    using assms by (auto simp: AccessKey_keySet_def split: if_splits)
  then have "run_state (attempt (KeySets_Get ow sid) live) s = (Inr x, s')" by (simp add: live_def [abs_def])
  from KeySets_Get_Inr [OF this] \<open>sid \<noteq> []\<close>
  show "data s' = data s" and "ksID x = sid" and "x \<in> set (key_sets (data s))" and "sid \<noteq> []" by simp_all
qed

lemma rotate_tx_effect:
  assumes run: "run_state (rotate_tx sv ow i requestID raw newID now) s = (Inr (new, token, c, e), s')"
  shows "\<exists>old. find (\<lambda>r. akID r = i \<and> akOwnerID r = ow) (access_keys (data s)) = Some old
    \<and> akStatus old = AccessKeyStatusActive
    \<and> (\<forall>r \<in> set (access_keys (data s)). akID r \<noteq> newID)
    \<and> akID new = newID \<and> akOwnerID new = ow \<and> akKeySetID new = akKeySetID old \<and> akStatus new = AccessKeyStatusActive
    \<and> akSecretHash new = hasher_hash (asPepper sv) newID (RawURL_Encode raw) \<and> token = fst (newToken raw newID)
    \<and> access_keys (data s') = update_where (\<lambda>r. akID r = i \<and> akOwnerID r = ow \<and> akStatus r \<noteq> AccessKeyStatusRevoked)
        (replaced newID (now + asGraceWindow sv)) (access_keys (data s) @ [new])"
proof -
  obtain old s1 where get: "run_state (AccessKeys_Get ow i) s = (Inr old, s1)"
    and r1: "run_state (if akStatus old \<noteq> AccessKeyStatusActive then throw ErrNotFound
       else
         attempt (AccessKey_keySet ow (akKeySetID old)) (\<lambda>x.
           let (plaintext, newKey) = newRotatedKey sv old x raw newID now in
           (case AccessKey_keyDetails (asIsPrint sv) (akName old) (ksName x) requestID of
              Inl _ \<Rightarrow> throw ErrInternal
            | Inr createdDetails \<Rightarrow>
                (case rotationDetails (asIsPrint sv) old (akID newKey) (ksName x) requestID of
                   Inl _ \<Rightarrow> throw ErrInternal
                 | Inr rotateDetails \<Rightarrow>
                     attempt (AccessKeys_Create newKey) (\<lambda>_.
                     attempt (AccessKeys_MarkRotated ow i (akID newKey) (now + asGraceWindow sv)) (\<lambda>_.
                     ret (newKey, plaintext, createdDetails, rotateDetails))))))) s1 = (Inr (new, token, c, e), s')"
    using run unfolding rotate_tx_def by (rule attempt_InrE)
  have old: "find (\<lambda>r. akID r = i \<and> akOwnerID r = ow) (access_keys (data s)) = Some old" "data s1 = data s"
    using query_Inr [OF get [unfolded AccessKeys_Get_def]] by simp_all
  have active: "akStatus old = AccessKeyStatusActive" using r1 by (auto split: if_splits)
  obtain x s2 where ks: "run_state (AccessKey_keySet ow (akKeySetID old)) s1 = (Inr x, s2)"
    and r2: "run_state (let (plaintext, newKey) = newRotatedKey sv old x raw newID now in
           (case AccessKey_keyDetails (asIsPrint sv) (akName old) (ksName x) requestID of
              Inl _ \<Rightarrow> throw ErrInternal
            | Inr createdDetails \<Rightarrow>
                (case rotationDetails (asIsPrint sv) old (akID newKey) (ksName x) requestID of
                   Inl _ \<Rightarrow> throw ErrInternal
                 | Inr rotateDetails \<Rightarrow>
                     attempt (AccessKeys_Create newKey) (\<lambda>_.
                     attempt (AccessKeys_MarkRotated ow i (akID newKey) (now + asGraceWindow sv)) (\<lambda>_.
                     ret (newKey, plaintext, createdDetails, rotateDetails)))))) s2 = (Inr (new, token, c, e), s')"
    using r1 active by (auto elim: attempt_InrE)
  note k = AccessKey_keySet_Inr [OF ks]
  obtain p key where rot: "newRotatedKey sv old x raw newID now = (p, key)" by (cases "newRotatedKey sv old x raw newID now")
  obtain u3 s3 u4 where create: "run_state (AccessKeys_Create key) s2 = (Inr u3, s3)"
    and mark: "run_state (AccessKeys_MarkRotated ow i (akID key) (now + asGraceWindow sv)) s3 = (Inr u4, s')"
    and new: "new = key" "token = p"
    using r2 unfolding rot by (auto simp: attempt_Inr split: sum.splits)
  have key: "akID new = newID" "akOwnerID new = akOwnerID old" "akKeySetID new = ksID x" "akStatus new = AccessKeyStatusActive"
    "akSecretHash new = hasher_hash (asPepper sv) newID (RawURL_Encode raw)" "token = fst (newToken raw newID)"
    using rot new by (auto simp: newRotatedKey_def newToken_def Let_def)
  have c2: "\<forall>r \<in> set (access_keys (data s2)). akID r \<noteq> akID key"
    "data s3 = (data s2)\<lparr>access_keys := access_keys (data s2) @ [key]\<rparr>"
    using exec_Inr [OF create [unfolded AccessKeys_Create_def]] by (auto simp: list_ex_iff split: if_splits)
  then have c3: "\<forall>r \<in> set (access_keys (data s2)). akID r \<noteq> akID key"
    "access_keys (data s3) = access_keys (data s2) @ [key]"
    by simp_all
  obtain m s4 where "run_state (update_access (\<lambda>r. akID r = i \<and> akOwnerID r = ow \<and> akStatus r \<noteq> AccessKeyStatusRevoked)
      (\<lambda>r. r\<lparr>akStatus := AccessKeyStatusGrace, akReplacedByID := Some (akID key),
         akGraceUntil := Some (now + asGraceWindow sv)\<rparr>)) s3 = (Inr m, s4)"
    and "run_state (requireAffected m) s4 = (Inr u4, s')"
    using mark unfolding AccessKeys_MarkRotated_def by (rule attempt_InrE)
  then have c4: "access_keys (data s') = update_where (\<lambda>r. akID r = i \<and> akOwnerID r = ow \<and> akStatus r \<noteq> AccessKeyStatusRevoked)
      (replaced (akID key) (now + asGraceWindow sv)) (access_keys (data s3))"
    by (auto simp: update_access_def replaced_def [abs_def] dest!: exec_Inr [THEN sym] requireAffected_Inr)
  have ow: "akOwnerID old = ow" using find_SomeD [OF old(1)] by simp
  show ?thesis
    using old active key c3(1) c4 ow by (intro exI [of _ old]) (simp add: c3(2) k new(1))
qed

lemma Rotate_effect:
  assumes "run_state (Rotate sv ow i requestID raw newID now stamp1 stamp2) s = (Inr (new, token), s')"
  shows "\<exists>old. find (\<lambda>r. akID r = i \<and> akOwnerID r = ow) (access_keys (data s)) = Some old
    \<and> akStatus old = AccessKeyStatusActive
    \<and> (\<forall>r \<in> set (access_keys (data s)). akID r \<noteq> newID)
    \<and> akID new = newID \<and> akOwnerID new = ow \<and> akKeySetID new = akKeySetID old \<and> akStatus new = AccessKeyStatusActive
    \<and> akSecretHash new = hasher_hash (asPepper sv) newID (RawURL_Encode raw) \<and> token = fst (newToken raw newID)
    \<and> access_keys (data s') = update_where (\<lambda>r. akID r = i \<and> akOwnerID r = ow \<and> akStatus r \<noteq> AccessKeyStatusRevoked)
        (replaced newID (now + asGraceWindow sv)) (access_keys (data s) @ [new])"
    and "ow \<noteq> []"
proof -
  have run: "ow \<noteq> []" "run_state (attempt (WithTx (rotate_tx sv ow i requestID raw newID now))
          (\<lambda>(created, token, createdDetails, rotateDetails).
        attempt (AccessKey_emit sv AuditActionAccessKeyCreated ow (akID created) (Inr createdDetails) stamp1) (\<lambda>_.
        attempt (AccessKey_emit sv AuditActionAccessKeyRotated ow i (Inr rotateDetails) stamp2) (\<lambda>_.
        ret (created, token))))) s = (Inr (new, token), s')"
    using assms by (auto simp: Rotate_def split: if_splits)
  obtain y s1 where tx: "run_state (WithTx (rotate_tx sv ow i requestID raw newID now)) s = (Inr y, s1)"
    and r1: "run_state (case y of (created, token, createdDetails, rotateDetails) \<Rightarrow>
        attempt (AccessKey_emit sv AuditActionAccessKeyCreated ow (akID created) (Inr createdDetails) stamp1) (\<lambda>_.
        attempt (AccessKey_emit sv AuditActionAccessKeyRotated ow i (Inr rotateDetails) stamp2) (\<lambda>_.
        ret (created, token)))) s1 = (Inr (new, token), s')"
    using run(2) by (rule attempt_InrE)
  obtain a b c e where y: "y = (a, b, c, e)" by (cases y) auto
  obtain u2 s2 u3 where e1: "run_state (AccessKey_emit sv AuditActionAccessKeyCreated ow (akID a) (Inr c) stamp1) s1 = (Inr u2, s2)"
    and e2: "run_state (AccessKey_emit sv AuditActionAccessKeyRotated ow i (Inr e) stamp2) s2 = (Inr u3, s')"
    and new: "new = a" "token = b"
    using r1 unfolding y by (auto simp: attempt_Inr)
  obtain s0 where tx2: "run_state (rotate_tx sv ow i requestID raw newID now) (tick s) = (Inr (new, token, c, e), s0)" "data s1 = data s0"
    using WithTx_Inr [OF tx] y new by blast
  have "access_keys (data s') = access_keys (data s0)"
    using Emit_Inr [OF e1 [unfolded AccessKey_emit_def]] Emit_Inr [OF e2 [unfolded AccessKey_emit_def]] tx2(2) by auto
  then show "\<exists>old. find (\<lambda>r. akID r = i \<and> akOwnerID r = ow) (access_keys (data s)) = Some old
    \<and> akStatus old = AccessKeyStatusActive
    \<and> (\<forall>r \<in> set (access_keys (data s)). akID r \<noteq> newID)
    \<and> akID new = newID \<and> akOwnerID new = ow \<and> akKeySetID new = akKeySetID old \<and> akStatus new = AccessKeyStatusActive
    \<and> akSecretHash new = hasher_hash (asPepper sv) newID (RawURL_Encode raw) \<and> token = fst (newToken raw newID)
    \<and> access_keys (data s') = update_where (\<lambda>r. akID r = i \<and> akOwnerID r = ow \<and> akStatus r \<noteq> AccessKeyStatusRevoked)
        (replaced newID (now + asGraceWindow sv)) (access_keys (data s) @ [new])"
    using rotate_tx_effect [OF tx2(1)] by simp
  show "ow \<noteq> []" by (rule run(1))
qed

lemma find_append: "find P (xs @ ys) = (case find P xs of None \<Rightarrow> find P ys | Some x \<Rightarrow> Some x)"
  by (induction xs) auto

lemma Emit_calm: "calm (Emit isPrint ev newID now)"
  unfolding Emit_def Audit_Append_def by (intro calm_rules)

lemma Rotate_calm: "calm (Rotate sv ow i requestID raw newID now stamp1 stamp2)"
  unfolding Rotate_def rotate_tx_def AccessKey_emit_def AccessKeys_Get_def AccessKey_keySet_def KeySets_Get_def
    AccessKeys_Create_def AccessKeys_MarkRotated_def update_access_def Let_def
  by (intro calm_rules Emit_calm)

section \<open>Properties\<close>

text \<open>
  C24: A rotation leaves the owner's deployments working: the new token opens the same set at any time, the
  token it replaces opens it exactly until the end of the grace window and then no more, and no other
  token is affected.
\<close>

theorem rotation_keeps_service:
  assumes rot: "run_state (Rotate sv ow i requestID raw newID now stamp1 stamp2) s = (Inr (new, token), s')"
    and draw: "length raw = secretBytes" "newID \<noteq> []" "tokenSeparator \<notin> set newID" "length newID \<le> 208"
    and holder: "fst (run_state (Verify sv ow sid presented t0) s) = Inr k" "akID k = i"
    and up: "faults s = []"
  shows "(\<forall>t. fst (run_state (Verify sv ow sid token t) s') = Inr new)
    \<and> (\<forall>t. isl (fst (run_state (Verify sv ow sid presented t) s')) \<longleftrightarrow> now + asGraceWindow sv < t)
    \<and> (\<forall>ow' sid' other t. (\<forall>secret. parseToken other \<noteq> Some (i, secret) \<and> parseToken other \<noteq> Some (newID, secret)) \<longrightarrow>
         fst (run_state (Verify sv ow' sid' other t) s') = fst (run_state (Verify sv ow' sid' other t) s))"
proof -
  let ?P = "\<lambda>j ow r. akID r = j \<and> akOwnerID r = ow"
  have up': "faults s' = []" by (rule calmD [OF Rotate_calm rot up])
  obtain old where old: "find (?P i ow) (access_keys (data s)) = Some old" "akStatus old = AccessKeyStatusActive"
    and fresh: "\<forall>r \<in> set (access_keys (data s)). akID r \<noteq> newID"
    and new: "akID new = newID" "akOwnerID new = ow" "akKeySetID new = akKeySetID old" "akStatus new = AccessKeyStatusActive"
      "akSecretHash new = hasher_hash (asPepper sv) newID (RawURL_Encode raw)" "token = fst (newToken raw newID)"
    and rows: "access_keys (data s') = update_where (\<lambda>r. ?P i ow r \<and> akStatus r \<noteq> AccessKeyStatusRevoked)
        (replaced newID (now + asGraceWindow sv)) (access_keys (data s) @ [new])"
    using Rotate_effect(1) [OF rot] by (elim exE conjE) (rule that; simp)
  have row: "find (?P j ow') (access_keys (data s')) =
      map_option (\<lambda>r. if ?P i ow r \<and> akStatus r \<noteq> AccessKeyStatusRevoked then replaced newID (now + asGraceWindow sv) r else r)
        (find (?P j ow') (access_keys (data s) @ [new]))" for j ow'
    unfolding rows by (rule find_update_where) (simp add: replaced_def)
  have i: "i \<noteq> newID" using find_SomeD [OF old(1)] fresh by auto
  obtain secret where p: "parseToken presented = Some (i, secret)" and ids: "sid \<noteq> []" "ow \<noteq> []"
    and k: "k = old" "akKeySetID old = sid" "hasher_equal (asPepper sv) (akSecretHash old) i secret"
    using holder old(1) unfolding Verify_ok [OF up] by (auto elim: verified_Inr)
  have "find (?P newID ow) (access_keys (data s')) = Some new"
    unfolding row using fresh new(1,2) i by (simp add: find_snoc)
  then have one: "fst (run_state (Verify sv ow sid token t) s') = Inr new" for t
    unfolding Verify_ok [OF up'] verified_def new(6) newToken_parses [OF draw]
    using ids new k(2) by (simp add: usable_def hasher_equal_def)
  have "find (?P i ow) (access_keys (data s')) = Some (replaced newID (now + asGraceWindow sv) old)"
    unfolding row using old find_SomeD [OF old(1)] by (simp add: find_append)
  then have two: "isl (fst (run_state (Verify sv ow sid presented t) s')) \<longleftrightarrow> now + asGraceWindow sv < t" for t
    unfolding Verify_ok [OF up'] verified_def p
    using ids k by (simp add: usable_def replaced_def not_le)
  have three: "fst (run_state (Verify sv ow' sid' other t) s') = fst (run_state (Verify sv ow' sid' other t) s)"
    if other: "\<forall>secret. parseToken other \<noteq> Some (i, secret) \<and> parseToken other \<noteq> Some (newID, secret)" for ow' sid' other t
  proof -
    have same: "find (?P j ow') (access_keys (data s')) = find (?P j ow') (access_keys (data s))" if "j \<noteq> i" "j \<noteq> newID" for j
      unfolding row using that new(1) by (cases "find (?P j ow') (access_keys (data s))") (auto simp: find_append dest: find_SomeD)
    show ?thesis
    proof (cases "parseToken other")
      case None
      then show ?thesis by (simp add: Verify_ok up up' verified_def)
    next
      case (Some p)
      then obtain j secret where j: "parseToken other = Some (j, secret)" by (cases p) auto
      then have "j \<noteq> i" "j \<noteq> newID" using other by auto
      then show ?thesis using j by (simp add: Verify_ok up up' verified_def same)
    qed
  qed
  show ?thesis using one two three by blast
qed

definition sample_service :: AccessKeyService where
  "sample_service = \<lparr>asIsPrint = (\<lambda>_. True), asPepper = replicate 32 CHR ''p'', asGraceWindow = 50\<rparr>"

definition sample_access_key :: AccessKey where
  "sample_access_key =
     \<lparr>akID = ''a1'', akOwnerID = ''alice'', akKeySetID = ''k2'', akName = ''ci'',
      akSecretHash = hasher_hash (asPepper sample_service) ''a1'' ''s3cret'', akStatus = AccessKeyStatusActive,
      akCreatedAt = 0, akRevokedAt = None, akGraceUntil = None, akReplacedByID = None\<rparr>"

definition sample_keyring :: session where
  "sample_keyring = sample_sets\<lparr>data := (data sample_sets)\<lparr>access_keys := [sample_access_key]\<rparr>\<rparr>"

lemma sample_details:
  "AccessKey_keyDetails (\<lambda>_. True) ''ci'' ''work'' [] = Inr [(''client_label'', ''ci''), (''key_set_name'', ''work'')]"
  "rotationDetails (\<lambda>_. True) sample_access_key ''a2'' ''work'' [] =
     Inr [(''client_label'', ''ci''), (''from'', ''a1''), (''to'', ''a2''), (''key_set_name'', ''work'')]"
  by (code_simp, simp add: sample_access_key_def rotationDetails_def, code_simp)

lemma sample_sel:
  "akID sample_access_key = ''a1''" "akOwnerID sample_access_key = ''alice''" "akKeySetID sample_access_key = ''k2''"
  "akName sample_access_key = ''ci''" "akStatus sample_access_key = AccessKeyStatusActive"
  "akSecretHash sample_access_key = hasher_hash (asPepper sample_service) ''a1'' ''s3cret''"
  "asGraceWindow sample_service = 50" "asIsPrint sample_service = (\<lambda>_. True)"
  by (simp_all add: sample_access_key_def sample_service_def)

lemma sample_screens: "screenValue (\<lambda>_. True) ''alice'' = Inr ()" "screenValue (\<lambda>_. True) ''a1'' = Inr ()"
  "screenValue (\<lambda>_. True) ''a2'' = Inr ()"
  by code_simp+

lemma sample_rotation:
  "\<exists>new token s'. run_state (Rotate sample_service ''alice'' ''a1'' [] (replicate 32 CHR ''x'') ''a2'' 100 (''r1'', 100) (''r2'', 100))
     sample_keyring = (Inr (new, token), s')"
  by (simp add: Rotate_def rotate_tx_def AccessKeys_Get_def AccessKey_keySet_def KeySets_Get_def newRotatedKey_def newToken_def
      AccessKeys_Create_def AccessKeys_MarkRotated_def update_access_def requireAffected_def AccessKey_emit_def Emit_def
      Emitter_record_def Event_validate_def Audit_Append_def audit_target_check_def
      run_attempt WithTx_def exec_def query_def tick_def found_def faulty_def Let_def owner_exists_def count_where_def
      sample_details sample_screens sample_sel maxIDLen_def
      sample_keyring_def sample_sets_def sample_set_def empty_db_def)

theorem rotation_keeps_service_witness:
  "\<exists>new token s'. run_state (Rotate sample_service ''alice'' ''a1'' [] (replicate 32 CHR ''x'') ''a2'' 100 (''r1'', 100) (''r2'', 100))
     sample_keyring = (Inr (new, token), s')
     \<and> fst (run_state (Verify sample_service ''alice'' ''k2'' token 1000) s') = Inr new
     \<and> \<not> isl (fst (run_state (Verify sample_service ''alice'' ''k2'' ''vak_a1.s3cret'' 150) s'))
     \<and> isl (fst (run_state (Verify sample_service ''alice'' ''k2'' ''vak_a1.s3cret'' 151) s'))"
proof -
  obtain new token s' where run: "run_state (Rotate sample_service ''alice'' ''a1'' [] (replicate 32 CHR ''x'') ''a2'' 100 (''r1'', 100) (''r2'', 100))
     sample_keyring = (Inr (new, token), s')"
    using sample_rotation by blast
  have up: "faults sample_keyring = []" by (simp add: sample_keyring_def sample_sets_def)
  have token: "parseToken ''vak_a1.s3cret'' = Some (''a1'', ''s3cret'')" by code_simp
  have holder: "fst (run_state (Verify sample_service ''alice'' ''k2'' ''vak_a1.s3cret'' 0) sample_keyring) = Inr sample_access_key"
    unfolding Verify_ok [OF up] verified_def token
    by (simp add: sample_keyring_def sample_sel usable_def hasher_equal_def)
  have "(\<forall>t. fst (run_state (Verify sample_service ''alice'' ''k2'' token t) s') = Inr new)
    \<and> (\<forall>t. isl (fst (run_state (Verify sample_service ''alice'' ''k2'' ''vak_a1.s3cret'' t) s')) \<longleftrightarrow> 100 + asGraceWindow sample_service < t)"
    using rotation_keeps_service [OF run _ _ _ _ holder _ up]
    by (simp add: secretBytes_def tokenSeparator_def sample_sel(1))
  then show ?thesis using run by (intro exI [of _ new] exI [of _ token] exI [of _ s']) (simp add: sample_sel)
qed

text \<open>A key bound to the second set, its digest of no interest.\<close>

definition sample_bound :: session where
  "sample_bound = sample_sets\<lparr>data := (data sample_sets)\<lparr>access_keys :=
     [\<lparr>akID = ''a1'', akOwnerID = ''alice'', akKeySetID = ''k2'', akName = ''ci'', akSecretHash = ''h'',
       akStatus = AccessKeyStatusActive, akCreatedAt = 0, akRevokedAt = None, akGraceUntil = None,
       akReplacedByID = None\<rparr>]\<rparr>\<rparr>"

lemma Rename_effect:
  assumes "run_state (KeySet_Rename kv ow i name requestID newID now stamp) s = (Inr x, s')"
  shows "ksID x = newID" and "access_keys (data s') = access_keys (data s)"
    and "\<forall>r \<in> set (key_sets (data s)). ksID r \<noteq> newID"
    and "\<exists>old \<in> set (key_sets (data s)). ksID old = i \<and> ksVisibility x = ksVisibility old"
proof -
  have run: "run_state (attempt (lift (guard_check (svEnv kv) KindKeySetName OpRename name)) (\<lambda>_.
        attempt (WithTx (KeySet_rename_tx kv ow i name requestID newID now)) (\<lambda>(renamed, details).
        attempt (emit_owner (svEnv kv) AuditActionKeySetRenamed ow TargetTypeKeySet newID (Inr details) stamp) (\<lambda>_.
        ret renamed)))) s = (Inr x, s')"
    using assms by (auto simp: KeySet_Rename_def split: if_splits)
  obtain y s1 where tx: "run_state (WithTx (KeySet_rename_tx kv ow i name requestID newID now)) s = (Inr y, s1)"
    and r1: "run_state (case y of (renamed, details) \<Rightarrow>
        attempt (emit_owner (svEnv kv) AuditActionKeySetRenamed ow TargetTypeKeySet newID (Inr details) stamp) (\<lambda>_.
        ret renamed)) s1 = (Inr x, s')"
    using run by (elim lift_InrE attempt_InrE) (rule that)
  obtain z details where y: "y = (z, details)" by (cases y)
  obtain u where em: "run_state (emit_owner (svEnv kv) AuditActionKeySetRenamed ow TargetTypeKeySet newID (Inr details) stamp) s1 = (Inr u, s')"
    and z: "x = z"
    using r1 unfolding y by (auto simp: attempt_Inr)
  obtain s0 where tx2: "run_state (KeySet_rename_tx kv ow i name requestID newID now) (tick s) = (Inr (x, details), s0)" "data s1 = data s0"
    using WithTx_Inr [OF tx] y z by blast
  obtain rs where d: "data s' = (data s0)\<lparr>audit_records := rs\<rparr>" using emit_owner_Inr [OF em] tx2(2) by auto
  have "ksID x = newID \<and> access_keys (data s') = access_keys (data s)
    \<and> (\<forall>r \<in> set (key_sets (data s)). ksID r \<noteq> newID)
    \<and> (\<exists>old \<in> set (key_sets (data s)). ksID old = i \<and> ksVisibility x = ksVisibility old)"
    using rename_tx_effect [OF tx2(1)] by (elim exE conjE) (simp add: d, blast)
  then show "ksID x = newID" and "access_keys (data s') = access_keys (data s)"
    and "\<forall>r \<in> set (key_sets (data s)). ksID r \<noteq> newID"
    and "\<exists>old \<in> set (key_sets (data s)). ksID old = i \<and> ksVisibility x = ksVisibility old"
    by simp_all
qed

text \<open>
  C26: A renamed set answers to no access key: the rename gives the set a new identifier and keeps its
  visibility but leaves every access key bound to the old row, so each token that opened the set before
  is refused afterwards.
\<close>

theorem rename_strands_access_keys:
  assumes "run_state (KeySet_Rename kv ow i name requestID newID now stamp) s = (Inr x, s')"
    and "\<forall>a \<in> set (access_keys (data s)). \<exists>r \<in> set (key_sets (data s)). ksID r = akKeySetID a"
    and "faults t = []" and "data t = data s'"
  shows "(\<exists>old \<in> set (key_sets (data s)). ksID old = i \<and> ksVisibility x = ksVisibility old)
    \<and> fst (run_state (Verify sv ow' (ksID x) presented clock) t) = Inl ErrNotFound"
proof -
  note e = Rename_effect [OF assms(1)]
  have "verified sv ow' (ksID x) presented clock (access_keys (data t)) \<noteq> Inr k" for k
  proof
    assume "verified sv ow' (ksID x) presented clock (access_keys (data t)) = Inr k"
    then have "k \<in> set (access_keys (data s))" "akKeySetID k = newID"
      by (auto simp: assms(4) e(1,2) elim!: verified_Inr dest!: find_SomeD)
    then show False using assms(2) e(3) by fastforce
  qed
  then have "verified sv ow' (ksID x) presented clock (access_keys (data t)) = Inl ErrNotFound"
    by (cases "verified sv ow' (ksID x) presented clock (access_keys (data t))") (auto dest: verified_Inl)
  then show ?thesis using e(4) by (simp add: Verify_ok [OF assms(3)])
qed

theorem rename_strands_access_keys_witness:
  "\<exists>x s'. run_state (KeySet_Rename (KeySet_New sample_env []) ''alice'' ''k2'' ''prod'' [] ''k3'' 5 (''r1'', 5)) sample_bound = (Inr x, s')
     \<and> fst (run_state (Verify sample_service ''alice'' (ksID x) ''vak_a1.s3cret'' 6) \<lparr>data = data s', faults = []\<rparr>) = Inl ErrNotFound"
proof -
  let ?rename = "KeySet_Rename (KeySet_New sample_env []) ''alice'' ''k2'' ''prod'' [] ''k3'' 5 (''r1'', 5)"
  have "\<not> isl (fst (run_state ?rename sample_bound))" by code_simp
  then obtain x s' where run: "run_state ?rename sample_bound = (Inr x, s')"
    by (metis isl_def prod.collapse sum.exhaust_sel)
  have "\<forall>a \<in> set (access_keys (data sample_bound)). \<exists>r \<in> set (key_sets (data sample_bound)). ksID r = akKeySetID a"
    by (simp add: sample_bound_def sample_sets_def sample_set_def)
  then show ?thesis
    using rename_strands_access_keys [OF run, of "\<lparr>data = data s', faults = []\<rparr>" sample_service "''alice''" "''vak_a1.s3cret''" 6] run
    by auto
qed

end
