(* ===== verification/Publish.thy ===== *)
theory Publish
  imports Access_Keys Auth_Repos
begin

text \<open>
  The published body of a handle (\<^verbatim>\<open>internal/service/publish\<close>): from a handle, a set name and a presented
  token to the authorized-keys lines. The token verifier is optional in the code and an option here. An
  error that wraps no sentinel is \<open>ErrInternal\<close>, one of the key library wraps \<open>ErrInvalidInput\<close>.
\<close>

section \<open>Resolution\<close>

record PublishResult =
  prBody :: string
  prProtected :: bool

definition publish_owner :: "string \<Rightarrow> OwnerID conn" where
  "publish_owner handle =
     attempt (Handles_GetByName handle) (\<lambda>h.
       if hState h \<noteq> NameStateActive then throw ErrNotFound
       else
         attempt (Owners_Get (hOwnerID h)) (\<lambda>ow.
           if oStatus ow \<noteq> OwnerStatusActive \<or> oDeletedAt ow \<noteq> None then throw ErrNotFound else ret (oID ow)))"

definition publish_set :: "OwnerID \<Rightarrow> string \<Rightarrow> KeySet conn" where
  "publish_set ow name =
     attempt (if name = [] then KeySets_GetDefault ow else KeySets_GetByName ow name) (\<lambda>x.
       if ksState x \<noteq> NameStateActive then throw ErrNotFound else ret x)"

definition publish_access :: "AccessKeyService option \<Rightarrow> OwnerID \<Rightarrow> KeySet \<Rightarrow> string \<Rightarrow> time \<Rightarrow> bool conn" where
  "publish_access verifier ow x presented now =
     (case ksVisibility x of
        VisibilityPublic \<Rightarrow> ret False
      | VisibilityProtected \<Rightarrow>
          (case verifier of
             None \<Rightarrow> throw ErrNotFound
           | Some sv \<Rightarrow> attempt (Verify sv ow (ksID x) presented now) (\<lambda>_. ret True)))"

fun render_lines :: "'p ssh_lib \<Rightarrow> OwnerID \<Rightarrow> PublicKey list \<Rightarrow> string \<Rightarrow> string result" where
  "render_lines ssh ow [] buf = Inr buf"
| "render_lines ssh ow (k # ks) buf =
     (if pkOwnerID k \<noteq> ow then Inl ErrInternal
      else if pkStatus k \<noteq> KeyStatusActive then Inl ErrInternal
      else
        (case AuthorizedKeyLineFrom ssh (pkAlgorithm k) (pkBlob k) (pkComment k) of
           Inl _ \<Rightarrow> Inl ErrInvalidInput
         | Inr line \<Rightarrow> render_lines ssh ow ks (buf @ line)))"

definition render :: "'p ssh_lib \<Rightarrow> OwnerID \<Rightarrow> PublicKey list \<Rightarrow> string result" where
  "render ssh ow active = render_lines ssh ow (sort_key pkID active) []"

definition Resolve ::
  "'p ssh_lib \<Rightarrow> AccessKeyService option \<Rightarrow> string \<Rightarrow> string \<Rightarrow> string \<Rightarrow> time \<Rightarrow> PublishResult conn" where
  "Resolve ssh verifier handle setName presented now =
     (if ValidateHandle handle \<noteq> Inr () then throw ErrNotFound
      else if setName \<noteq> [] \<and> ValidateSetName setName \<noteq> Inr () then throw ErrNotFound
      else
        attempt (publish_owner handle) (\<lambda>ow.
        attempt (publish_set ow setName) (\<lambda>x.
        attempt (publish_access verifier ow x presented now) (\<lambda>protected.
        attempt (PublicKeys_ListActiveByKeySet ow (ksID x)) (\<lambda>active.
        attempt (lift (render ssh ow active)) (\<lambda>body.
        ret \<lparr>prBody = body, prProtected = protected\<rparr>))))))"

section \<open>What a request may see\<close>

text \<open>The owner and the set a handle and a set name lead to.\<close>

definition leads_to :: "db \<Rightarrow> string \<Rightarrow> string \<Rightarrow> OwnerID \<Rightarrow> KeySet \<Rightarrow> bool" where
  "leads_to d handle setName ow x \<longleftrightarrow>
     (\<exists>h \<in> set (handles d). hName h = handle \<and> hState h = NameStateActive \<and> hOwnerID h = ow)
     \<and> (\<exists>r \<in> set (owners d). oID r = ow \<and> oStatus r = OwnerStatusActive \<and> oDeletedAt r = None)
     \<and> x \<in> set (key_sets d) \<and> ksOwnerID x = ow \<and> ksState x = NameStateActive
     \<and> (if setName = [] then ksIsDefault x else ksName x = setName)"

text \<open>The token of a key of the set that is still good.\<close>

definition holds_key :: "AccessKeyService \<Rightarrow> db \<Rightarrow> OwnerID \<Rightarrow> KeySet \<Rightarrow> string \<Rightarrow> time \<Rightarrow> bool" where
  "holds_key sv d ow x presented now \<longleftrightarrow>
     ow \<noteq> [] \<and> ksID x \<noteq> []
     \<and> (\<exists>k \<in> set (access_keys d). \<exists>secret. akOwnerID k = ow \<and> akKeySetID k = ksID x \<and> usable k now
          \<and> parseToken presented = Some (akID k, secret)
          \<and> akSecretHash k = hasher_hash (asPepper sv) (akID k) secret)"

definition may_see :: "AccessKeyService option \<Rightarrow> db \<Rightarrow> OwnerID \<Rightarrow> KeySet \<Rightarrow> string \<Rightarrow> time \<Rightarrow> bool" where
  "may_see verifier d ow x presented now \<longleftrightarrow>
     ksVisibility x = VisibilityPublic \<or> (\<exists>sv. verifier = Some sv \<and> holds_key sv d ow x presented now)"

definition listed_keys :: "db \<Rightarrow> OwnerID \<Rightarrow> KeySet \<Rightarrow> PublicKey list" where
  "listed_keys d ow x =
     sort_key pkID (filter (\<lambda>k. pkOwnerID k = ow \<and> is_member d (ksID x) (pkID k) \<and> pkStatus k = KeyStatusActive) (public_keys d))"

abbreviation key_line :: "'p ssh_lib \<Rightarrow> PublicKey \<Rightarrow> keys_err + string" where
  "key_line ssh k \<equiv> AuthorizedKeyLineFrom ssh (pkAlgorithm k) (pkBlob k) (pkComment k)"

definition body_of :: "'p ssh_lib \<Rightarrow> PublicKey list \<Rightarrow> string result" where
  "body_of ssh ks =
     (if list_ex (\<lambda>k. isl (key_line ssh k)) ks then Inl ErrInvalidInput
      else Inr (concat (map (\<lambda>k. projr (key_line ssh k)) ks)))"

definition publish_wf :: "db \<Rightarrow> bool" where
  "publish_wf d \<longleftrightarrow>
     distinct (map hName (handles d)) \<and> distinct (map oID (owners d)) \<and> distinct (map akID (access_keys d))
     \<and> distinct (map (\<lambda>r. (ksOwnerID r, ksName r)) (key_sets d))
     \<and> distinct (map ksOwnerID (filter ksIsDefault (key_sets d)))"

section \<open>The resolution as a function of the tables\<close>

definition found_owner :: "db \<Rightarrow> string \<Rightarrow> OwnerID option" where
  "found_owner d handle =
     (case find (\<lambda>r. hName r = handle) (handles d) of
        None \<Rightarrow> None
      | Some h \<Rightarrow>
          if hState h \<noteq> NameStateActive then None
          else
            (case find (\<lambda>r. oID r = hOwnerID h) (owners d) of
               None \<Rightarrow> None
             | Some ow \<Rightarrow> if oStatus ow \<noteq> OwnerStatusActive \<or> oDeletedAt ow \<noteq> None then None else Some (oID ow)))"

definition found_set :: "db \<Rightarrow> OwnerID \<Rightarrow> string \<Rightarrow> KeySet option" where
  "found_set d ow setName =
     (case find (\<lambda>r. ksOwnerID r = ow \<and> (if setName = [] then ksIsDefault r else ksName r = setName)) (key_sets d) of
        None \<Rightarrow> None
      | Some x \<Rightarrow> if ksState x \<noteq> NameStateActive then None else Some x)"

definition admitted :: "AccessKeyService option \<Rightarrow> db \<Rightarrow> OwnerID \<Rightarrow> KeySet \<Rightarrow> string \<Rightarrow> time \<Rightarrow> bool" where
  "admitted verifier d ow x presented now \<longleftrightarrow>
     ksVisibility x = VisibilityPublic
     \<or> (case verifier of None \<Rightarrow> False | Some sv \<Rightarrow> \<not> isl (verified sv ow (ksID x) presented now (access_keys d)))"

definition resolved ::
  "'p ssh_lib \<Rightarrow> AccessKeyService option \<Rightarrow> string \<Rightarrow> string \<Rightarrow> string \<Rightarrow> time \<Rightarrow> db \<Rightarrow> PublishResult result" where
  "resolved ssh verifier handle setName presented now d =
     (if ValidateHandle handle \<noteq> Inr () \<or> (setName \<noteq> [] \<and> ValidateSetName setName \<noteq> Inr ()) then Inl ErrNotFound
      else
        (case Option.bind (found_owner d handle) (\<lambda>ow. map_option (Pair ow) (found_set d ow setName)) of
           None \<Rightarrow> Inl ErrNotFound
         | Some (ow, x) \<Rightarrow>
             if admitted verifier d ow x presented now
             then map_sum id (\<lambda>b. \<lparr>prBody = b, prProtected = (ksVisibility x = VisibilityProtected)\<rparr>) (body_of ssh (listed_keys d ow x))
             else Inl ErrNotFound))"

lemma render_lines_body:
  "\<forall>k \<in> set ks. pkOwnerID k = ow \<and> pkStatus k = KeyStatusActive \<Longrightarrow>
   render_lines ssh ow ks buf = map_sum id (\<lambda>b. buf @ b) (body_of ssh ks)"
  by (induction ks arbitrary: buf) (auto simp: body_of_def split: sum.splits)

lemma render_listed: "render ssh ow (listed_keys d ow x) = body_of ssh (listed_keys d ow x)"
proof -
  have "sort_key pkID (listed_keys d ow x) = listed_keys d ow x"
    unfolding listed_keys_def by (rule sort_key_id_if_sorted) simp
  moreover have "\<forall>k \<in> set (listed_keys d ow x). pkOwnerID k = ow \<and> pkStatus k = KeyStatusActive"
    by (simp add: listed_keys_def)
  ultimately show ?thesis using render_lines_body [of "listed_keys d ow x" ow ssh "[]"]
    by (cases "body_of ssh (listed_keys d ow x)") (simp_all add: render_def)
qed

lemma publish_owner_ok:
  "faults s = [] \<Longrightarrow> run_state (publish_owner handle) s = (found (found_owner (data s) handle), s)"
  by (auto simp: publish_owner_def found_owner_def Handles_GetByName_def handle_of_def Handle.defs Owners_Get_def
      query_ok run_attempt found_def split: option.splits)

lemma publish_set_ok:
  "faults s = [] \<Longrightarrow> run_state (publish_set ow setName) s = (found (found_set (data s) ow setName), s)"
  by (cases "setName = []")
    (auto simp: publish_set_def found_set_def KeySets_GetDefault_def KeySets_GetByName_def query_ok run_attempt found_def
      split: option.splits)

lemma publish_access_ok:
  assumes "faults s = []"
  shows "run_state (publish_access verifier ow x presented now) s =
    (if admitted verifier (data s) ow x presented now
     then Inr (ksVisibility x = VisibilityProtected) else Inl ErrNotFound, s)"
  using assms
  by (cases "ksVisibility x"; cases verifier)
    (auto simp: publish_access_def admitted_def Verify_ok run_attempt dest: verified_Inl split: sum.splits)

lemma Resolve_ok:
  assumes "faults s = []"
  shows "run_state (Resolve ssh verifier handle setName presented now) s =
    (resolved ssh verifier handle setName presented now (data s), s)"
proof -
  have "run_state (attempt (publish_access verifier ow x presented now) (\<lambda>protected.
        attempt (PublicKeys_ListActiveByKeySet ow (ksID x)) (\<lambda>active.
        attempt (lift (render ssh ow active)) (\<lambda>body.
        ret \<lparr>prBody = body, prProtected = protected\<rparr>)))) s =
      (if admitted verifier (data s) ow x presented now
       then map_sum id (\<lambda>b. \<lparr>prBody = b, prProtected = (ksVisibility x = VisibilityProtected)\<rparr>) (body_of ssh (listed_keys (data s) ow x))
       else Inl ErrNotFound, s)" for ow x
    using assms
    by (simp add: run_attempt [of "publish_access verifier ow x presented now"] publish_access_ok)
      (auto simp: run_attempt PublicKeys_ListActiveByKeySet_def query_ok lift_def listed_keys_def [symmetric] render_listed split: sum.splits)
  note rest = this
  show ?thesis
  proof (cases "found_owner (data s) handle")
    case None
    then show ?thesis using assms
      by (simp add: Resolve_def resolved_def run_attempt [of "publish_owner handle"] publish_owner_ok found_def)
  next
    case (Some ow)
    then show ?thesis using assms
      by (cases "found_set (data s) ow setName")
        (simp_all add: Resolve_def resolved_def run_attempt [of "publish_owner handle"] run_attempt [of "publish_set _ setName"]
          publish_owner_ok publish_set_ok found_def rest)
  qed
qed

lemma find_key_iff: "distinct (map g rows) \<Longrightarrow> find (\<lambda>r. g r = k) rows = Some x \<longleftrightarrow> x \<in> set rows \<and> g x = k"
  by (auto dest: find_SomeD intro: find_key)

lemma find_only:
  assumes "x \<in> set rows" and "P x" and "\<And>y. y \<in> set rows \<Longrightarrow> P y \<Longrightarrow> y = x"
  shows "find P rows = Some x"
proof -
  obtain y where y: "find P rows = Some y" using assms(1,2) by (metis find_None_iff not_None_eq)
  then have "y = x" using find_SomeD [OF y] assms(3) by blast
  with y show ?thesis by simp
qed

lemma found_owner_iff:
  assumes "publish_wf d"
  shows "found_owner d handle = Some ow \<longleftrightarrow>
    (\<exists>h \<in> set (handles d). hName h = handle \<and> hState h = NameStateActive \<and> hOwnerID h = ow)
    \<and> (\<exists>r \<in> set (owners d). oID r = ow \<and> oStatus r = OwnerStatusActive \<and> oDeletedAt r = None)"
proof -
  have hn: "distinct (map hName (handles d))" and on: "distinct (map oID (owners d))"
    using assms by (simp_all add: publish_wf_def)
  have h: "find (\<lambda>r. hName r = handle) (handles d) = Some h \<longleftrightarrow> h \<in> set (handles d) \<and> hName h = handle" for h
    by (rule find_key_iff [OF hn])
  have o: "find (\<lambda>r. oID r = i) (owners d) = Some r \<longleftrightarrow> r \<in> set (owners d) \<and> oID r = i" for r i
    by (rule find_key_iff [OF on])
  have "found_owner d handle = Some ow \<longleftrightarrow> (\<exists>h r. find (\<lambda>r. hName r = handle) (handles d) = Some h \<and> hState h = NameStateActive
      \<and> find (\<lambda>r. oID r = hOwnerID h) (owners d) = Some r \<and> oStatus r = OwnerStatusActive \<and> oDeletedAt r = None \<and> oID r = ow)"
    by (auto simp: found_owner_def split: option.splits if_splits)
  also have "\<dots> \<longleftrightarrow> (\<exists>h r. (h \<in> set (handles d) \<and> hName h = handle) \<and> hState h = NameStateActive
      \<and> (r \<in> set (owners d) \<and> oID r = hOwnerID h) \<and> oStatus r = OwnerStatusActive \<and> oDeletedAt r = None \<and> oID r = ow)"
    by (simp only: h o)
  also have "\<dots> \<longleftrightarrow> (\<exists>h \<in> set (handles d). hName h = handle \<and> hState h = NameStateActive \<and> hOwnerID h = ow)
    \<and> (\<exists>r \<in> set (owners d). oID r = ow \<and> oStatus r = OwnerStatusActive \<and> oDeletedAt r = None)"
    (is "_ \<longleftrightarrow> ?rhs")
  proof
    assume ?rhs
    then obtain h r where "h \<in> set (handles d)" "hName h = handle" "hState h = NameStateActive" "hOwnerID h = ow"
      "r \<in> set (owners d)" "oID r = ow" "oStatus r = OwnerStatusActive" "oDeletedAt r = None"
      by blast
    then show "\<exists>h r. (h \<in> set (handles d) \<and> hName h = handle) \<and> hState h = NameStateActive
      \<and> (r \<in> set (owners d) \<and> oID r = hOwnerID h) \<and> oStatus r = OwnerStatusActive \<and> oDeletedAt r = None \<and> oID r = ow"
      by - (rule exI [of _ h], rule exI [of _ r], simp)
  qed auto
  finally show ?thesis .
qed

lemma found_set_iff:
  assumes "publish_wf d"
  shows "found_set d ow setName = Some x \<longleftrightarrow>
    x \<in> set (key_sets d) \<and> ksOwnerID x = ow \<and> ksState x = NameStateActive
    \<and> (if setName = [] then ksIsDefault x else ksName x = setName)"
proof -
  let ?P = "\<lambda>r. ksOwnerID r = ow \<and> (if setName = [] then ksIsDefault r else ksName r = setName)"
  have names: "distinct (map (\<lambda>r. (ksOwnerID r, ksName r)) (key_sets d))"
    and defs: "distinct (map ksOwnerID (filter ksIsDefault (key_sets d)))"
    using assms by (simp_all add: publish_wf_def)
  have only: "y = z" if "y \<in> set (key_sets d)" "?P y" "z \<in> set (key_sets d)" "?P z" for y z
    using that key_unique [OF names that(1,3)] key_unique [OF defs, of y z] by (auto split: if_splits)
  have "find ?P (key_sets d) = Some y \<longleftrightarrow> y \<in> set (key_sets d) \<and> ?P y" for y
  proof
    show "find ?P (key_sets d) = Some y \<Longrightarrow> y \<in> set (key_sets d) \<and> ?P y" by (rule find_SomeD)
    show "y \<in> set (key_sets d) \<and> ?P y \<Longrightarrow> find ?P (key_sets d) = Some y"
      by (erule conjE) (rule find_only [OF _ _ only])
  qed
  moreover have "found_set d ow setName = Some x \<longleftrightarrow> find ?P (key_sets d) = Some x \<and> ksState x = NameStateActive"
    by (auto simp: found_set_def split: option.splits if_splits)
  ultimately show ?thesis by auto
qed

lemma admitted_iff:
  assumes "publish_wf d"
  shows "admitted verifier d ow x presented now \<longleftrightarrow> may_see verifier d ow x presented now"
proof -
  have ids: "distinct (map akID (access_keys d))" using assms by (simp add: publish_wf_def)
  have "\<not> isl (verified sv ow (ksID x) presented now (access_keys d)) \<longleftrightarrow> holds_key sv d ow x presented now" for sv
  proof
    assume "\<not> isl (verified sv ow (ksID x) presented now (access_keys d))"
    then obtain k where "verified sv ow (ksID x) presented now (access_keys d) = Inr k" by (metis isl_def sum.exhaust_sel)
    then show "holds_key sv d ow x presented now"
      by (elim verified_Inr) (auto simp: holds_key_def hasher_equal_def dest!: find_SomeD)
  next
    assume "holds_key sv d ow x presented now"
    then obtain k secret where k: "ow \<noteq> []" "ksID x \<noteq> []" "k \<in> set (access_keys d)" "akOwnerID k = ow" "akKeySetID k = ksID x"
      "usable k now" "parseToken presented = Some (akID k, secret)" "akSecretHash k = hasher_hash (asPepper sv) (akID k) secret"
      unfolding holds_key_def by blast
    have "find (\<lambda>r. akID r = akID k \<and> akOwnerID r = ow) (access_keys d) = Some k"
      by (rule find_only) (use k(3,4) key_unique [OF ids _ k(3)] in auto)
    then show "\<not> isl (verified sv ow (ksID x) presented now (access_keys d))"
      using k by (simp add: verified_def hasher_equal_def)
  qed
  then show ?thesis by (auto simp: admitted_def may_see_def split: option.splits)
qed

section \<open>Properties\<close>

text \<open>
  C22: A request is answered with exactly what it may see. When the handle and the set name are well formed and
  lead through an active handle and an active owner to an active set that is public, or protected with a
  token of one of its own usable keys presented, the body is the lines of exactly the owner's active keys
  listed in that set, in the order of their identifiers (or an error when a stored key no longer renders),
  marked protected exactly when the set is. Every other request gets the one answer not found.
\<close>

theorem publish_exactly:
  assumes up: "faults s = []" and wf: "publish_wf (data s)"
  shows "fst (run_state (Resolve ssh verifier handle setName presented now) s) = Inl ErrNotFound
      \<and> \<not> (\<exists>ow x. ValidateHandle handle = Inr () \<and> (setName = [] \<or> ValidateSetName setName = Inr ())
             \<and> leads_to (data s) handle setName ow x \<and> may_see verifier (data s) ow x presented now)
    \<or> (\<exists>ow x. ValidateHandle handle = Inr () \<and> (setName = [] \<or> ValidateSetName setName = Inr ())
         \<and> leads_to (data s) handle setName ow x \<and> may_see verifier (data s) ow x presented now
         \<and> fst (run_state (Resolve ssh verifier handle setName presented now) s) =
             (if list_ex (\<lambda>k. isl (key_line ssh k)) (listed_keys (data s) ow x) then Inl ErrInvalidInput
              else Inr \<lparr>prBody = concat (map (\<lambda>k. projr (key_line ssh k)) (listed_keys (data s) ow x)),
                        prProtected = (ksVisibility x = VisibilityProtected)\<rparr>))"
proof -
  let ?valid = "ValidateHandle handle = Inr () \<and> (setName = [] \<or> ValidateSetName setName = Inr ())"
  define f where "f = Option.bind (found_owner (data s) handle) (\<lambda>ow. map_option (Pair ow) (found_set (data s) ow setName))"
  have "f = Some (ow, x) \<longleftrightarrow> found_owner (data s) handle = Some ow \<and> found_set (data s) ow setName = Some x" for ow x
    by (auto simp: f_def Option.bind_eq_Some_conv)
  then have found: "f = Some (ow, x) \<longleftrightarrow> leads_to (data s) handle setName ow x" for ow x
    unfolding leads_to_def found_owner_iff [OF wf] found_set_iff [OF wf] by auto
  note eval = Resolve_ok [OF up, of ssh verifier handle setName presented now, unfolded resolved_def f_def [symmetric]]
  have seen: "admitted verifier (data s) ow x presented now \<longleftrightarrow> may_see verifier (data s) ow x presented now" for ow x
    by (rule admitted_iff [OF wf])
  show ?thesis
  proof (cases "?valid \<and> f \<noteq> None")
    case False
    then have "\<not> (?valid \<and> leads_to (data s) handle setName ow x)" for ow x using found by auto
    moreover have "fst (run_state (Resolve ssh verifier handle setName presented now) s) = Inl ErrNotFound"
      using False unfolding eval by (cases f) auto
    ultimately show ?thesis by (intro disjI1 conjI) auto
  next
    case True
    then obtain ow x where f: "f = Some (ow, x)" by (cases f) auto
    then have l: "leads_to (data s) handle setName ow x"
      and only: "leads_to (data s) handle setName ow' x' \<Longrightarrow> ow' = ow \<and> x' = x" for ow' x'
      using found [of ow x] found [of ow' x'] by simp_all
    show ?thesis
    proof (cases "may_see verifier (data s) ow x presented now")
      case False
      then have "fst (run_state (Resolve ssh verifier handle setName presented now) s) = Inl ErrNotFound"
        unfolding eval f by (simp add: seen)
      moreover have "\<not> (leads_to (data s) handle setName ow' x' \<and> may_see verifier (data s) ow' x' presented now)" for ow' x'
        using False only by auto
      ultimately show ?thesis by (intro disjI1 conjI) auto
    next
      case see: True
      then have "fst (run_state (Resolve ssh verifier handle setName presented now) s) =
        map_sum id (\<lambda>b. \<lparr>prBody = b, prProtected = (ksVisibility x = VisibilityProtected)\<rparr>) (body_of ssh (listed_keys (data s) ow x))"
        using True unfolding eval f by (auto simp: seen)
      then show ?thesis using True l see by (intro disjI2 exI [of _ ow] exI [of _ x]) (simp add: body_of_def)
    qed
  qed
qed

definition sample_world :: session where
  "sample_world = \<lparr>data = empty_db\<lparr>
     owners := [\<lparr>oID = ''alice'', oStatus = OwnerStatusActive, oCreatedAt = 0, oUpdatedAt = 0, oDeletedAt = None\<rparr>],
     handles := [\<lparr>hID = ''h1'', hOwnerID = ''alice'', hName = ''alice'', hState = NameStateActive, hQuarantineUntil = None,
       hFlaggedForReview = False, hQuarantineOnRelease = False, hCreatedAt = 0, hUpdatedAt = 0, hNameFold = ''alice'',
       hFoldVersion = 6\<rparr>],
     devices := [\<lparr>dID = ''d1'', dOwnerID = ''alice'', dName = ''laptop'', dStatus = DeviceStatusActive, dCreatedAt = 0,
       dUpdatedAt = 0, dRevokedAt = None\<rparr>],
     public_keys := [\<lparr>pkID = ''p1'', pkOwnerID = ''alice'', pkDeviceID = ''d1'', pkAlgorithm = AlgEd25519, pkBlob = ''K'',
       pkComment = ''me@host'', pkFingerprint = ''SHA256:x'', pkBitLen = 256, pkStatus = KeyStatusActive, pkCreatedAt = 0,
       pkUpdatedAt = 0, pkRevokedAt = None\<rparr>],
     key_sets := [(sample_set ''k1'' ''main'' True)\<lparr>ksVisibility := VisibilityPublic\<rparr>],
     key_set_members := [\<lparr>mKeySetID = ''k1'', mPublicKeyID = ''p1'', mAddedAt = 0\<rparr>]\<rparr>, faults = []\<rparr>"

theorem publish_exactly_witness:
  "\<exists>ow x. leads_to (data sample_world) ''alice'' [] ow x
     \<and> fst (run_state (Resolve one_key_ssh None ''alice'' [] [] 5) sample_world) =
         Inr \<lparr>prBody = concat (map (\<lambda>k. projr (key_line one_key_ssh k)) (listed_keys (data sample_world) ow x)),
              prProtected = (ksVisibility x = VisibilityProtected)\<rparr>"
proof -
  have up: "faults sample_world = []" by (simp add: sample_world_def)
  have wf: "publish_wf (data sample_world)" by code_simp
  have "fst (run_state (Resolve one_key_ssh None ''alice'' [] [] 5) sample_world) =
      Inr \<lparr>prBody = ''ssh-ed25519 Sw== me@host'' @ [nl], prProtected = False\<rparr>"
    by code_simp
  then show ?thesis
    using publish_exactly [OF up wf, of one_key_ssh None "''alice''" "[]" "[]" 5] by (auto split: if_splits)
qed

lemma Device_Revoke_effect:
  assumes "run_state (Device_Revoke e ow i requestID now stamp) s = (Inr u, s')"
  shows "\<exists>rs. data s' = (data s)\<lparr>devices := update_where (\<lambda>r. dID r = i \<and> dOwnerID r = ow)
     (\<lambda>r. r\<lparr>dStatus := DeviceStatusRevoked, dRevokedAt := Some now, dUpdatedAt := now\<rparr>) (devices (data s)), audit_records := rs\<rparr>"
proof -
  obtain d s1 details s2 where get: "run_state (Devices_Get ow i) s = (Inr d, s1)"
    and rev: "run_state (Devices_Revoke ow i now) s1 = (Inr (), s2)"
    and em: "run_state (emit_owner e AuditActionDeviceRevoked ow TargetTypeDevice (dID d) (Inr details) stamp) s2 = (Inr u, s')"
    using assms by (auto simp: Device_Revoke_def attempt_Inr split: if_splits sum.splits)
  obtain n s3 where upd: "run_state (update_devices (\<lambda>r. dID r = i \<and> dOwnerID r = ow)
      (\<lambda>r. r\<lparr>dStatus := DeviceStatusRevoked, dRevokedAt := Some now, dUpdatedAt := now\<rparr>)) s1 = (Inr n, s3)"
    and req: "run_state (requireAffected n) s3 = (Inr (), s2)"
    using rev unfolding Devices_Revoke_def by (rule attempt_InrE)
  have "data s1 = data s" using query_Inr [OF get [unfolded Devices_Get_def]] by simp
  then have "data s2 = (data s)\<lparr>devices := update_where (\<lambda>r. dID r = i \<and> dOwnerID r = ow)
     (\<lambda>r. r\<lparr>dStatus := DeviceStatusRevoked, dRevokedAt := Some now, dUpdatedAt := now\<rparr>) (devices (data s))\<rparr>"
    using exec_Inr [OF upd [unfolded update_devices_def]] requireAffected_Inr [OF req] by simp
  then show ?thesis using emit_owner_Inr [OF em] by auto
qed

lemma Device_Revoke_calm: "calm (Device_Revoke e ow i requestID now stamp)"
  unfolding Device_Revoke_def Devices_Get_def Devices_Revoke_def update_devices_def emit_owner_def
  by (intro calm_rules Emit_calm)

lemma resolved_devices:
  "resolved ssh verifier handle setName presented t (d\<lparr>devices := ds, audit_records := rs\<rparr>) =
   resolved ssh verifier handle setName presented t d"
    (is "resolved _ _ _ _ _ _ ?d = _")
proof -
  have "found_owner ?d handle = found_owner d handle" by (simp add: found_owner_def cong: option.case_cong if_cong)
  moreover have "found_set ?d ow setName = found_set d ow setName" for ow by (simp add: found_set_def)
  moreover have "admitted verifier ?d ow x presented t = admitted verifier d ow x presented t" for ow x
    by (simp add: admitted_def cong: option.case_cong)
  moreover have "listed_keys ?d ow x = listed_keys d ow x" for ow x by (simp add: listed_keys_def is_member_def)
  ultimately show ?thesis unfolding resolved_def by (simp only:)
qed

text \<open>
  C27: Revoking a device changes nothing of what is published: whatever the handle, the set, the token and the
  time, a request gets the same answer after the revocation as before it, the keys enrolled from the revoked
  device included.
\<close>

theorem device_revocation_keeps_publishing:
  assumes revoke: "run_state (Device_Revoke e ow i requestID now stamp) s = (Inr (), s')"
    and up: "faults s = []"
  shows "fst (run_state (Resolve ssh verifier handle setName presented t) s') =
      fst (run_state (Resolve ssh verifier handle setName presented t) s)
    \<and> (\<forall>d \<in> set (devices (data s')). dID d = i \<and> dOwnerID d = ow \<longrightarrow> dStatus d = DeviceStatusRevoked)"
proof -
  obtain rs where d: "data s' = (data s)\<lparr>devices := update_where (\<lambda>r. dID r = i \<and> dOwnerID r = ow)
     (\<lambda>r. r\<lparr>dStatus := DeviceStatusRevoked, dRevokedAt := Some now, dUpdatedAt := now\<rparr>) (devices (data s)), audit_records := rs\<rparr>"
    using Device_Revoke_effect [OF revoke] by blast
  show ?thesis
    unfolding Resolve_ok [OF up] Resolve_ok [OF calmD [OF Device_Revoke_calm revoke up]] unfolding d
    by (auto simp: resolved_devices)
qed

theorem device_revocation_keeps_publishing_witness:
  "\<exists>s'. run_state (Device_Revoke sample_env ''alice'' ''d1'' [] 7 (''r1'', 7)) sample_world = (Inr (), s')
     \<and> fst (run_state (Resolve one_key_ssh None ''alice'' [] [] 9) s') =
         Inr \<lparr>prBody = ''ssh-ed25519 Sw== me@host'' @ [nl], prProtected = False\<rparr>"
proof -
  have "fst (run_state (Device_Revoke sample_env ''alice'' ''d1'' [] 7 (''r1'', 7)) sample_world) = Inr ()" by code_simp
  then obtain s' where run: "run_state (Device_Revoke sample_env ''alice'' ''d1'' [] 7 (''r1'', 7)) sample_world = (Inr (), s')"
    by (metis prod.collapse)
  have "fst (run_state (Resolve one_key_ssh None ''alice'' [] [] 9) sample_world) =
      Inr \<lparr>prBody = ''ssh-ed25519 Sw== me@host'' @ [nl], prProtected = False\<rparr>"
    by code_simp
  moreover have "faults sample_world = []" by (simp add: sample_world_def)
  ultimately show ?thesis
    using run device_revocation_keeps_publishing [OF run, of one_key_ssh None "''alice''" "[]" "[]" 9] by auto
qed

end
