(* ===== verification/Handle_Service.thy ===== *)
theory Handle_Service
  imports Key_Services
begin

text \<open>
  The lifecycle of handles (\<^verbatim>\<open>internal/service/handle\<close>): rename with a quarantined tombstone and reclaim,
  the release of expired holds, and the startup pass that recomputes stored skeletons and quarantines
  look-alikes. The service's \<^verbatim>\<open>mapErr\<close> replaces an error by one that wraps the same sentinel and is the
  identity here.
\<close>

section \<open>The service\<close>

definition Handle_DefaultQuarantineWindow :: duration where "Handle_DefaultQuarantineWindow = 30 * 24 * hour"
definition DefaultMaxHeldNames :: int where "DefaultMaxHeldNames = 5"

record HandleService = env +
  hvMaxNames :: int
  hvQuarantine :: duration

definition Handle_WithQuarantineWindow :: "duration \<Rightarrow> HandleService \<Rightarrow> HandleService" where
  "Handle_WithQuarantineWindow d s = (if 0 < d then s\<lparr>hvQuarantine := d\<rparr> else s)"

definition WithMaxHeldNames :: "int \<Rightarrow> HandleService \<Rightarrow> HandleService" where
  "WithMaxHeldNames n s = (if 0 < n then s\<lparr>hvMaxNames := n\<rparr> else s)"

definition Handle_New :: "env \<Rightarrow> (HandleService \<Rightarrow> HandleService) list \<Rightarrow> HandleService" where
  "Handle_New e opts =
     foldl (\<lambda>s opt. opt s)
       (env.extend e \<lparr>hvMaxNames = DefaultMaxHeldNames, hvQuarantine = Handle_DefaultQuarantineWindow\<rparr>) opts"

abbreviation (input) hvEnv :: "HandleService \<Rightarrow> env" where "hvEnv s \<equiv> env.truncate s"

definition handleDetails :: "env \<Rightarrow> string \<Rightarrow> string \<Rightarrow> Details" where
  "handleDetails e name requestID =
     recordable (with_request e requestID (Details_Set (eIsPrint e) DetailHandle name no_details))"

definition Handle_renameDetails :: "env \<Rightarrow> string \<Rightarrow> string \<Rightarrow> string \<Rightarrow> Details" where
  "Handle_renameDetails e from to requestID =
     (case handleDetails e to requestID of
        Inl x \<Rightarrow> Inl x
      | Inr d \<Rightarrow> recordable (Details_Set (eIsPrint e) DetailTo to (Details_Set (eIsPrint e) DetailFrom from (Inr d))))"

text \<open>\<^verbatim>\<open>emitTx\<close> appends the record through the transaction's own repository.\<close>

definition emitTx :: "env \<Rightarrow> AuditAction \<Rightarrow> OwnerID \<Rightarrow> HandleID \<Rightarrow> Details \<Rightarrow> stamp \<Rightarrow> unit conn" where
  "emitTx e action ow i details stamp = emit_owner e action ow TargetTypeHandle i details stamp"

definition reclaims :: "Handle list \<Rightarrow> string \<Rightarrow> bool" where
  "reclaims held name \<longleftrightarrow> list_ex (\<lambda>h. hName h = name \<and> hState h = NameStateQuarantined) held"

definition claim :: "HandleService \<Rightarrow> OwnerID \<Rightarrow> string \<Rightarrow> HandleID \<Rightarrow> time \<Rightarrow> (Handle \<times> bool) conn" where
  "claim sv ow name newID now = do {
     existing \<leftarrow> Handles_GetByName name;
     (case existing of
        Inr h \<Rightarrow>
          if hOwnerID h \<noteq> ow \<or> hState h \<noteq> NameStateQuarantined then throw ErrConflict
          else
            let h' = h\<lparr>hState := NameStateActive, hQuarantineUntil := None, hUpdatedAt := now\<rparr> in
            attempt (Handles_Update True h') (\<lambda>_. ret (h', True))
      | Inl e \<Rightarrow>
          if e = ErrNotFound then
            let fresh = \<lparr>hID = newID, hOwnerID = ow, hName = name, hState = NameStateActive, hQuarantineUntil = None,
                 hFlaggedForReview = False, hQuarantineOnRelease = False, hCreatedAt = now, hUpdatedAt = now\<rparr> in
            attempt (Handles_Register (eUnicode sv) fresh) (\<lambda>_. ret (fresh, False))
          else throw e)
   }"

text \<open>The service reads the clock twice: for the rows and for the end of the hold.\<close>

definition Handle_rename_tx ::
  "HandleService \<Rightarrow> OwnerID \<Rightarrow> string \<Rightarrow> string \<Rightarrow> HandleID \<Rightarrow> time \<Rightarrow> time \<Rightarrow> stamp \<Rightarrow> Handle conn" where
  "Handle_rename_tx sv ow name requestID newID now now2 stamp =
     attempt (Handles_GetActiveByOwner ow) (\<lambda>old.
       if hName old = name then throw ErrConflict
       else
         attempt (Handles_ListByOwner ow) (\<lambda>held.
           if \<not> reclaims held name \<and> hvMaxNames sv \<le> int (length held) then throw ErrLimitExceeded
           else
             attempt (lift (Handle_renameDetails (hvEnv sv) (hName old) name requestID)) (\<lambda>details.
             attempt (Handles_Update True (old\<lparr>hState := NameStateQuarantined,
                 hQuarantineUntil := Some (now2 + hvQuarantine sv), hUpdatedAt := now\<rparr>)) (\<lambda>_.
             attempt (claim sv ow name newID now) (\<lambda>(claimed, reclaim).
             attempt (emitTx (hvEnv sv) (if reclaim then AuditActionHandleReclaimed else AuditActionHandleRenamed) ow
                 (hID claimed) (Inr details) stamp) (\<lambda>_.
             ret claimed))))))"

definition Handle_Rename ::
  "HandleService \<Rightarrow> OwnerID \<Rightarrow> string \<Rightarrow> string \<Rightarrow> HandleID \<Rightarrow> time \<Rightarrow> time \<Rightarrow> stamp \<Rightarrow> Handle conn" where
  "Handle_Rename sv ow name requestID newID now now2 stamp =
     (if ow = [] then throw ErrInvalidInput
      else
        attempt (lift (guard_check (hvEnv sv) KindHandle OpRename name)) (\<lambda>_.
        WithTx (Handle_rename_tx sv ow name requestID newID now now2 stamp)))"

section \<open>Release of expired holds\<close>

fun release_loop ::
  "HandleService \<Rightarrow> Handle list \<Rightarrow> time \<Rightarrow> (nat \<Rightarrow> stamp) \<Rightarrow> nat \<Rightarrow> (session, nat \<times> err option) state" where
  "release_loop sv [] now stamps n = State_Monad.return (n, None)"
| "release_loop sv (h # hs) now stamps n =
     (case handleDetails (hvEnv sv) (hName h) [] of
        Inl e \<Rightarrow> State_Monad.return (n, Some e)
      | Inr details \<Rightarrow> do {
          released \<leftarrow> WithTx (attempt (Handles_Release (hID h) now) (\<lambda>_.
            emitTx (hvEnv sv) AuditActionHandleReleased (hOwnerID h) (hID h) (Inr details) (stamps n)));
          (case released of
             Inl e \<Rightarrow>
               if e = ErrNotFound then release_loop sv hs now stamps n
               else State_Monad.return (n, Some e)
           | Inr _ \<Rightarrow> release_loop sv hs now stamps (n + 1))
        })"

definition ReleaseExpired ::
  "HandleService \<Rightarrow> int \<Rightarrow> time \<Rightarrow> (nat \<Rightarrow> stamp) \<Rightarrow> (session, nat \<times> err option) state" where
  "ReleaseExpired sv limit now stamps = do {
     expired \<leftarrow> Handles_ListExpiredQuarantine now limit;
     (case expired of
        Inl e \<Rightarrow> State_Monad.return (0, Some e)
      | Inr hs \<Rightarrow> release_loop sv hs now stamps 0)
   }"

section \<open>Recomputation of skeletons\<close>

record FoldRecomputeResult =
  Recomputed :: nat
  Quarantined :: nat

definition foldPlaceholder :: "HandleID \<Rightarrow> string" where
  "foldPlaceholder i = CHR ''!'' # i"

text \<open>The groups of rows of one skeleton, in the order their first rows come.\<close>

fun add_group :: "string \<Rightarrow> 'a \<Rightarrow> (string \<times> 'a list) list \<Rightarrow> (string \<times> 'a list) list" where
  "add_group sk h [] = [(sk, [h])]"
| "add_group sk h ((k, hs) # gs) = (if k = sk then (k, hs @ [h]) # gs else (k, hs) # add_group sk h gs)"

definition fold_groups :: "unicode \<Rightarrow> Handle list \<Rightarrow> (string \<times> Handle list) list" where
  "fold_groups u stale = foldl (\<lambda>gs h. add_group (Skeleton u (hName h)) h gs) [] stale"

definition emitQuarantine :: "env \<Rightarrow> Handle \<Rightarrow> string \<Rightarrow> stamp \<Rightarrow> unit conn" where
  "emitQuarantine e loser survivorName stamp =
     (case recordable (Details_Set (eIsPrint e) DetailReason ''quarantined as a look-alike of an existing handle''
             (Details_Set (eIsPrint e) DetailTo survivorName (Details_Set (eIsPrint e) DetailHandle (hName loser) no_details))) of
        Inl x \<Rightarrow> throw x
      | Inr d \<Rightarrow>
          Emit (eIsPrint e)
            \<lparr>evActorType = ActorTypeSystem, evActorID = [], evAction = AuditActionHandleQuarantined,
             evTargetType = TargetTypeHandle, evTargetID = hID loser, evDetails = Inr d\<rparr> (fst stamp) (snd stamp))"

fun clear_folds :: "Handle list \<Rightarrow> time \<Rightarrow> unit conn" where
  "clear_folds [] now = ret ()"
| "clear_folds (h # hs) now =
     attempt (Handles_SetFold (hID h) (foldPlaceholder (hID h)) TableVersion now) (\<lambda>_. clear_folds hs now)"

fun quarantine_losers :: "env \<Rightarrow> Handle list \<Rightarrow> string \<Rightarrow> time \<Rightarrow> (nat \<Rightarrow> stamp) \<Rightarrow> nat \<Rightarrow> nat conn" where
  "quarantine_losers e [] survivorName now stamps n = ret n"
| "quarantine_losers e (h # hs) survivorName now stamps n =
     attempt (Handles_QuarantineLookalike (hID h) now) (\<lambda>_.
     attempt (emitQuarantine e h survivorName (stamps n)) (\<lambda>_.
     quarantine_losers e hs survivorName now stamps (n + 1)))"

fun resolve_groups ::
  "env \<Rightarrow> (string \<times> Handle list) list \<Rightarrow> time \<Rightarrow> (nat \<Rightarrow> stamp) \<Rightarrow> FoldRecomputeResult \<Rightarrow> FoldRecomputeResult conn" where
  "resolve_groups e [] now stamps res = ret res"
| "resolve_groups e ((sk, hs) # gs) now stamps res =
     attempt (Handles_SetFold (hID (hd hs)) sk TableVersion now) (\<lambda>_.
     attempt (quarantine_losers e (tl hs) (hName (hd hs)) now stamps (Quarantined res)) (\<lambda>n.
     resolve_groups e gs now stamps \<lparr>Recomputed = Recomputed res + 1, Quarantined = n\<rparr>))"

definition recompute_tx :: "env \<Rightarrow> time \<Rightarrow> (nat \<Rightarrow> stamp) \<Rightarrow> FoldRecomputeResult conn" where
  "recompute_tx e now stamps =
     attempt (Handles_ListStaleFolds TableVersion) (\<lambda>stale.
       if stale = [] then ret \<lparr>Recomputed = 0, Quarantined = 0\<rparr>
       else
         attempt (clear_folds stale now) (\<lambda>_.
         resolve_groups e (fold_groups (eUnicode e) stale) now stamps \<lparr>Recomputed = 0, Quarantined = 0\<rparr>))"

definition Recomputer_Run :: "env \<Rightarrow> time \<Rightarrow> (nat \<Rightarrow> stamp) \<Rightarrow> FoldRecomputeResult conn" where
  "Recomputer_Run e now stamps =
     attempt (Handles_ListStaleFolds TableVersion) (\<lambda>precheck.
       if precheck = [] then ret \<lparr>Recomputed = 0, Quarantined = 0\<rparr>
       else WithTx (recompute_tx e now stamps))"

section \<open>The groups\<close>

lemma add_group_new: "sk \<notin> fst ` set gs \<Longrightarrow> add_group sk h gs = gs @ [(sk, [h])]"
  by (induction sk h gs rule: add_group.induct) auto

lemma add_group_old:
  "distinct (map fst gs) \<Longrightarrow> sk \<in> fst ` set gs \<Longrightarrow>
   add_group sk h gs = map (\<lambda>(k, hs). (k, if k = sk then hs @ [h] else hs)) gs"
proof (induction sk h gs rule: add_group.induct)
  case (2 sk h k hs gs)
  show ?case
  proof (cases "k = sk")
    case True
    then have "map (\<lambda>(k, hs). (k, if k = sk then hs @ [h] else hs)) gs = gs"
      using 2 by (intro map_idI) (force simp: image_iff)
    then show ?thesis using True by simp
  next
    case False
    then show ?thesis using 2 by auto
  qed
qed simp

definition groups_by :: "('a \<Rightarrow> string) \<Rightarrow> 'a list \<Rightarrow> (string \<times> 'a list) list" where
  "groups_by f hs = foldl (\<lambda>gs h. add_group (f h) h gs) [] hs"

lemma groups_by_snoc: "groups_by f (hs @ [h]) = add_group (f h) h (groups_by f hs)"
  by (simp add: groups_by_def)

text \<open>One group for each key met, holding the elements of that key in order.\<close>

lemma groups_by_char:
  "distinct (map fst (groups_by f hs)) \<and> fst ` set (groups_by f hs) = f ` set hs
   \<and> (\<forall>k g. (k, g) \<in> set (groups_by f hs) \<longrightarrow> g = filter (\<lambda>h. f h = k) hs)"
proof (induction hs rule: rev_induct)
  case Nil
  then show ?case by (simp add: groups_by_def)
next
  case (snoc h hs)
  let ?gs = "groups_by f hs"
  have d: "distinct (map fst ?gs)" and keys: "fst ` set ?gs = f ` set hs"
    and g: "\<And>k g. (k, g) \<in> set ?gs \<Longrightarrow> g = filter (\<lambda>h. f h = k) hs"
    using snoc by auto
  show ?case
  proof (cases "f h \<in> fst ` set ?gs")
    case True
    then have k: "insert (f h) (f ` set hs) = f ` set hs" unfolding keys by (rule insert_absorb)
    let ?gs' = "map (\<lambda>(k, g). (k, if k = f h then g @ [h] else g)) ?gs"
    have m: "map fst ?gs' = map fst ?gs" by (simp add: case_prod_unfold comp_def)
    then have "fst ` set ?gs' = fst ` set ?gs" by (metis set_map)
    moreover have "g' = filter (\<lambda>h. f h = k) (hs @ [h])" if "(k, g') \<in> set ?gs'" for k g'
      using that g by (auto split: if_splits)
    ultimately show ?thesis
      unfolding groups_by_snoc add_group_old [OF d True] m using d keys k by auto
  next
    case False
    then have none: "filter (\<lambda>h'. f h' = f h) hs = []" unfolding keys filter_empty_conv image_iff by fastforce
    have "g' = filter (\<lambda>h. f h = k) (hs @ [h])" if mem: "(k, g') \<in> set (?gs @ [(f h, [h])])" for k g'
    proof (cases "(k, g') \<in> set ?gs")
      case True
      then have "k \<noteq> f h" using False by force
      then show ?thesis using g [OF True] by simp
    next
      case new: False
      then show ?thesis using mem none by simp
    qed
    then show ?thesis
      unfolding groups_by_snoc add_group_new [OF False] using d keys False by auto
  qed
qed

lemmas groups_by_distinct = groups_by_char [THEN conjunct1]
lemmas groups_by_keys = groups_by_char [THEN conjunct2, THEN conjunct1]
lemmas groups_by_mem = groups_by_char [THEN conjunct2, THEN conjunct2, rule_format]

lemma groups_by_nonempty: "(k, g) \<in> set (groups_by f hs) \<Longrightarrow> g \<noteq> []"
proof -
  assume mem: "(k, g) \<in> set (groups_by f hs)"
  then have "k \<in> f ` set hs" using groups_by_keys [of f hs] by force
  then show ?thesis using groups_by_mem [OF mem] by (auto simp: filter_empty_conv)
qed

lemma fold_groups_by: "fold_groups u hs = groups_by (\<lambda>h. Skeleton u (hName h)) hs"
  by (simp add: fold_groups_def groups_by_def)

section \<open>The effect of the pass\<close>

definition fold_set :: "string \<Rightarrow> time \<Rightarrow> HandleRow \<Rightarrow> HandleRow" where
  "fold_set sk now r = r\<lparr>hNameFold := sk, hFoldVersion := TableVersion, hUpdatedAt := now\<rparr>"

definition lookalike :: "time \<Rightarrow> HandleRow \<Rightarrow> HandleRow" where
  "lookalike now r = r\<lparr>hState := NameStateQuarantined, hQuarantineUntil := None, hFlaggedForReview := True, hUpdatedAt := now\<rparr>"

lemma update_handles_Inr:
  assumes "run_state (attempt (update_handles P f) requireAffected) s = (Inr u, s')"
  shows "data s' = (data s)\<lparr>handles := update_where P f (handles (data s))\<rparr>"
    and "handles_unique (handles (data s'))"
proof -
  obtain n s1 where upd: "run_state (update_handles P f) s = (Inr n, s1)"
    and req: "run_state (requireAffected n) s1 = (Inr u, s')"
    using assms by (rule attempt_InrE)
  have rows: "handles_unique (update_where P f (handles (data s)))"
    and d: "data s1 = (data s)\<lparr>handles := update_where P f (handles (data s))\<rparr>"
    using exec_Inr [OF upd [unfolded update_handles_def]] by (auto simp: Let_def split: if_splits)
  have "s' = s1" using requireAffected_Inr [OF req] by simp
  then show "data s' = (data s)\<lparr>handles := update_where P f (handles (data s))\<rparr>"
    and "handles_unique (handles (data s'))"
    using rows d by simp_all
qed

lemma clear_folds_effect:
  "run_state (clear_folds hs now) s = (Inr u, s') \<Longrightarrow>
   handles (data s') = update_where (\<lambda>r. hID r \<in> hID ` set hs) (\<lambda>r. fold_set (foldPlaceholder (hID r)) now r) (handles (data s))
   \<and> (handles_unique (handles (data s)) \<longrightarrow> handles_unique (handles (data s')))"
proof (induction hs arbitrary: s)
  case Nil
  then show ?case by (simp add: update_where_none)
next
  case (Cons h hs)
  obtain v s1 where one: "run_state (Handles_SetFold (hID h) (foldPlaceholder (hID h)) TableVersion now) s = (Inr v, s1)"
    and rest: "run_state (clear_folds hs now) s1 = (Inr u, s')"
    using Cons.prems unfolding clear_folds.simps by (rule attempt_InrE)
  note e = update_handles_Inr [OF one [unfolded Handles_SetFold_def]]
  have "update_where (\<lambda>r. hID r \<in> hID ` set hs) (\<lambda>r. fold_set (foldPlaceholder (hID r)) now r)
        (update_where (\<lambda>r. hID r = hID h) (\<lambda>r. r\<lparr>hNameFold := foldPlaceholder (hID h), hFoldVersion := TableVersion, hUpdatedAt := now\<rparr>) rows)
      = update_where (\<lambda>r. hID r \<in> hID ` set (h # hs)) (\<lambda>r. fold_set (foldPlaceholder (hID r)) now r) rows" for rows
    by (induction rows) (auto simp: fold_set_def)
  then have "handles (data s') = update_where (\<lambda>r. hID r \<in> hID ` set (h # hs)) (\<lambda>r. fold_set (foldPlaceholder (hID r)) now r)
      (handles (data s))"
    using Cons.IH [OF rest, THEN conjunct1] unfolding e(1) by simp
  then show ?case using Cons.IH [OF rest, THEN conjunct2] e(2) by blast
qed

lemma quarantine_losers_effect:
  "run_state (quarantine_losers e hs name now stamps n) s = (Inr m, s') \<Longrightarrow>
   handles (data s') = update_where (\<lambda>r. hID r \<in> hID ` set hs) (lookalike now) (handles (data s))
   \<and> (handles_unique (handles (data s)) \<longrightarrow> handles_unique (handles (data s')))"
proof (induction hs arbitrary: s n)
  case Nil
  then show ?case by (simp add: update_where_none)
next
  case (Cons h hs)
  obtain v s1 w s2 where one: "run_state (Handles_QuarantineLookalike (hID h) now) s = (Inr v, s1)"
    and em: "run_state (emitQuarantine e h name (stamps n)) s1 = (Inr w, s2)"
    and rest: "run_state (quarantine_losers e hs name now stamps (n + 1)) s2 = (Inr m, s')"
    using Cons.prems unfolding quarantine_losers.simps by (elim attempt_InrE) (rule that)
  note u = update_handles_Inr [OF one [unfolded Handles_QuarantineLookalike_def]]
  have h2: "handles (data s2) = handles (data s1)"
    using em unfolding emitQuarantine_def Emit_def Audit_Append_def
    by (auto split: sum.splits if_splits dest!: exec_Inr [THEN sym])
  have "update_where (\<lambda>r. hID r \<in> hID ` set hs) (lookalike now) (update_where (\<lambda>r. hID r = hID h)
      (\<lambda>r. r\<lparr>hState := NameStateQuarantined, hQuarantineUntil := None, hFlaggedForReview := True, hUpdatedAt := now\<rparr>) rows)
      = update_where (\<lambda>r. hID r \<in> hID ` set (h # hs)) (lookalike now) rows" for rows
    by (induction rows) (auto simp: lookalike_def)
  then have "handles (data s') = update_where (\<lambda>r. hID r \<in> hID ` set (h # hs)) (lookalike now) (handles (data s))"
    using Cons.IH [OF rest, THEN conjunct1] unfolding h2 u(1) by simp
  then show ?case using Cons.IH [OF rest, THEN conjunct2] u(2) unfolding h2 by blast
qed

text \<open>What the groups make of one row.\<close>

fun group_row :: "time \<Rightarrow> (string \<times> Handle list) list \<Rightarrow> HandleRow \<Rightarrow> HandleRow" where
  "group_row now [] r = r"
| "group_row now ((sk, hs) # gs) r =
     group_row now gs
       (if hID r \<in> hID ` set (tl hs) then lookalike now (if hID r = hID (hd hs) then fold_set sk now r else r)
        else if hID r = hID (hd hs) then fold_set sk now r else r)"

lemma resolve_groups_effect:
  "run_state (resolve_groups e gs now stamps res) s = (Inr res', s') \<Longrightarrow>
   handles (data s') = map (group_row now gs) (handles (data s))
   \<and> (handles_unique (handles (data s)) \<longrightarrow> handles_unique (handles (data s')))"
proof (induction e gs now stamps res arbitrary: s rule: resolve_groups.induct)
  case (1 e now stamps res)
  then show ?case by (simp add: list.map_ident)
next
  case (2 e sk hs gs now stamps res)
  obtain v s1 n s2 where one: "run_state (Handles_SetFold (hID (hd hs)) sk TableVersion now) s = (Inr v, s1)"
    and los: "run_state (quarantine_losers e (tl hs) (hName (hd hs)) now stamps (Quarantined res)) s1 = (Inr n, s2)"
    and rest: "run_state (resolve_groups e gs now stamps \<lparr>Recomputed = Recomputed res + 1, Quarantined = n\<rparr>) s2 = (Inr res', s')"
    using 2(2) unfolding resolve_groups.simps by (elim attempt_InrE) (rule that)
  note u = update_handles_Inr [OF one [unfolded Handles_SetFold_def]]
  note q = quarantine_losers_effect [OF los]
  have "handles (data s') = map (group_row now gs) (handles (data s2))"
    and un: "handles_unique (handles (data s2)) \<longrightarrow> handles_unique (handles (data s'))"
    using 2(1) [OF rest] by blast+
  moreover have "handles (data s2) = update_where (\<lambda>r. hID r \<in> hID ` set (tl hs)) (lookalike now)
      (update_where (\<lambda>r. hID r = hID (hd hs)) (fold_set sk now) (handles (data s)))"
    using q u(1) by (simp add: fold_set_def [abs_def])
  moreover have "map (group_row now gs) (update_where (\<lambda>r. hID r \<in> hID ` set (tl hs)) (lookalike now)
      (update_where (\<lambda>r. hID r = hID (hd hs)) (fold_set sk now) rows)) = map (group_row now ((sk, hs) # gs)) rows" for rows
    by (induction rows) (auto simp: fold_set_def)
  ultimately have "handles (data s') = map (group_row now ((sk, hs) # gs)) (handles (data s))" by simp
  moreover have "handles_unique (handles (data s'))" using q u(2) un by blast
  ultimately show ?case by blast
qed

lemma sel_fold_set [simp]:
  "hID (fold_set sk now r) = hID r" "hName (fold_set sk now r) = hName r" "hState (fold_set sk now r) = hState r"
  "hNameFold (fold_set sk now r) = sk" "hFoldVersion (fold_set sk now r) = TableVersion" "hOwnerID (fold_set sk now r) = hOwnerID r"
  by (simp_all add: fold_set_def)

lemma sel_lookalike [simp]:
  "hID (lookalike now r) = hID r" "hName (lookalike now r) = hName r" "hState (lookalike now r) = NameStateQuarantined"
  "hFoldVersion (lookalike now r) = hFoldVersion r"
  by (simp_all add: lookalike_def)

lemma fold_set_twice [simp]: "fold_set sk now (fold_set sk' now r) = fold_set sk now r"
  by (simp add: fold_set_def)

lemma group_row_other:
  "\<forall>(k, g) \<in> set gs. g \<noteq> [] \<and> hID r \<notin> hID ` set g \<Longrightarrow> group_row now gs r = r"
proof (induction now gs r rule: group_row.induct)
  case (2 now sk hs gs r)
  then have "hID r \<notin> hID ` set hs" "hs \<noteq> []" by auto
  then have "hID r \<noteq> hID (hd hs)" "hID r \<notin> hID ` set (tl hs)" by (cases hs; simp)+
  then show ?case using 2 by simp
qed simp

lemma group_row_in:
  "distinct (map fst gs) \<Longrightarrow> (sk, g) \<in> set gs \<Longrightarrow>
   \<forall>(k, g') \<in> set gs. g' \<noteq> [] \<and> (k \<noteq> sk \<longrightarrow> hID r \<notin> hID ` set g') \<Longrightarrow>
   distinct (map hID g) \<Longrightarrow> hID r \<in> hID ` set g \<Longrightarrow>
   group_row now gs r = (if hID r = hID (hd g) then fold_set sk now r else lookalike now r)"
proof (induction gs)
  case Nil
  then show ?case by simp
next
  case (Cons p gs)
  obtain k hs where p: "p = (k, hs)" by (cases p)
  have ne: "hs \<noteq> []" using Cons.prems(3) p by auto
  show ?case
  proof (cases "k = sk")
    case True
    have k: "k \<notin> fst ` set gs" using Cons.prems(1) p by simp
    then have "(sk, g) \<notin> set gs" using True by force
    then have g: "g = hs" using Cons.prems(2) p by simp
    have rest: "\<forall>(k', g') \<in> set gs. g' \<noteq> [] \<and> hID r \<notin> hID ` set g'"
      using Cons.prems(3) True k p by force
    have cases: "hID r = hID (hd hs) \<and> hID r \<notin> hID ` set (tl hs) \<or> hID r \<noteq> hID (hd hs) \<and> hID r \<in> hID ` set (tl hs)"
      using Cons.prems(4,5) ne unfolding g by (cases hs) (simp_all, metis)
    then show ?thesis
      using group_row_other [of gs "fold_set sk now r" now] group_row_other [of gs "lookalike now r" now] rest True g p by auto
  next
    case False
    then have out: "hID r \<notin> hID ` set hs" "(sk, g) \<in> set gs" using Cons.prems p by auto
    then have "hID r \<noteq> hID (hd hs)" "hID r \<notin> hID ` set (tl hs)" using ne by (cases hs; simp)+
    then have "group_row now (p # gs) r = group_row now gs r" by (simp add: p)
    then show ?thesis using Cons.IH Cons.prems out(2) by simp
  qed
qed

section \<open>The order of the rows\<close>

lemma insort_sorted_wrt:
  fixes a :: "'r \<Rightarrow> 'a::linorder" and b :: "'r \<Rightarrow> 'b::linorder"
  assumes "sorted_wrt (\<lambda>x y. a x < a y \<or> a x = a y \<and> b x \<le> b y) ys" and "\<forall>y \<in> set ys. b x \<le> b y"
  shows "sorted_wrt (\<lambda>x y. a x < a y \<or> a x = a y \<and> b x \<le> b y) (insort_key a x ys)"
  using assms by (induction ys) (auto simp: set_insort_key)

lemma order_by_sorted_wrt:
  fixes a :: "'r \<Rightarrow> 'a::linorder" and b :: "'r \<Rightarrow> 'b::linorder"
  shows "sorted_wrt (\<lambda>x y. a x < a y \<or> a x = a y \<and> b x \<le> b y) (order_by a b xs)"
proof -
  have "sorted (map b ys) \<Longrightarrow> sorted_wrt (\<lambda>x y. a x < a y \<or> a x = a y \<and> b x \<le> b y) (sort_key a ys)" for ys :: "'r list"
    by (induction ys) (simp_all add: insort_sorted_wrt)
  then show ?thesis by (simp add: order_by_def)
qed

definition older :: "HandleRow \<Rightarrow> HandleRow \<Rightarrow> bool" where
  "older r r' \<longleftrightarrow> hCreatedAt r < hCreatedAt r' \<or> hCreatedAt r = hCreatedAt r' \<and> hID r < hID r'"

definition stale_row :: "HandleRow \<Rightarrow> bool" where
  "stale_row r \<longleftrightarrow> hFoldVersion r \<noteq> TableVersion"

text \<open>A row the pass leaves: unchanged, or with its skeleton when no older stale row shares it, or held as a look-alike.\<close>

definition recomputed :: "unicode \<Rightarrow> time \<Rightarrow> HandleRow list \<Rightarrow> HandleRow \<Rightarrow> HandleRow" where
  "recomputed u now rows r =
     (if \<not> stale_row r then r
      else if \<exists>r' \<in> set rows. stale_row r' \<and> Skeleton u (hName r') = Skeleton u (hName r) \<and> older r' r
      then lookalike now (fold_set (foldPlaceholder (hID r)) now r)
      else fold_set (Skeleton u (hName r)) now r)"

lemma sel_handle_of [simp]: "hID (handle_of r) = hID r" "hName (handle_of r) = hName r"
  by (simp_all add: handle_of_def Handle.defs)

lemma hd_oldest:
  assumes sorted: "sorted_wrt (\<lambda>x y. hCreatedAt x < hCreatedAt y \<or> hCreatedAt x = hCreatedAt y \<and> hID x \<le> hID y) rows"
    and ids: "distinct (map hID rows)" and r: "r \<in> set rows"
  shows "r = hd rows \<longleftrightarrow> \<not> (\<exists>r' \<in> set rows. older r' r)"
proof -
  obtain x xs where rows: "rows = x # xs" using r by (cases rows) auto
  have x: "older x y" if y: "y \<in> set xs" for y
  proof -
    have "hCreatedAt x < hCreatedAt y \<or> hCreatedAt x = hCreatedAt y \<and> hID x \<le> hID y" using sorted y unfolding rows by simp
    moreover have "hID x \<noteq> hID y" using ids y unfolding rows by force
    ultimately show ?thesis by (auto simp: older_def)
  qed
  have irrefl: "\<not> (older y z \<and> older z y)" for y z by (auto simp: older_def)
  show ?thesis
  proof
    assume "r = hd rows"
    then have "r = x" using rows by simp
    then show "\<not> (\<exists>r' \<in> set rows. older r' r)" using x irrefl unfolding rows by (metis set_ConsD)
  next
    assume "\<not> (\<exists>r' \<in> set rows. older r' r)"
    then show "r = hd rows" using x [of r] r unfolding rows by auto
  qed
qed

definition stale_rows :: "HandleRow list \<Rightarrow> HandleRow list" where
  "stale_rows rows = order_by hCreatedAt hID (filter stale_row rows)"

lemma pass_row:
  assumes ids: "distinct (map hID rows)" and r: "r \<in> set rows"
  defines "hs \<equiv> map handle_of (stale_rows rows)"
  shows "group_row now (fold_groups u hs) (if hID r \<in> hID ` set hs then fold_set (foldPlaceholder (hID r)) now r else r) =
    recomputed u now rows r"
proof -
  let ?f = "\<lambda>h :: Handle. Skeleton u (hName h)"
  let ?gs = "groups_by ?f hs"
  have mem: "x \<in> set (stale_rows rows) \<longleftrightarrow> x \<in> set rows \<and> stale_row x" for x by (auto simp: stale_rows_def)
  have dist: "distinct (map hID (stale_rows rows))"
    using ids unfolding stale_rows_def by (intro distinct_order_by) (rule distinct_map_filter)
  have hid: "h = handle_of x \<and> stale_row x" if h: "hID h = hID x" "h \<in> set hs" and x: "x \<in> set rows" for h x
  proof -
    obtain y where y: "y \<in> set rows" "stale_row y" "h = handle_of y" using h(2) by (auto simp: hs_def mem)
    then have "y = x" using key_unique [OF ids y(1) x] h(1) by simp
    then show ?thesis using y by simp
  qed
  have groups: "g \<noteq> []" "g = filter (\<lambda>h. ?f h = k) hs" if "(k, g) \<in> set ?gs" for k g
    using groups_by_nonempty [OF that] groups_by_mem [OF that] by simp_all
  show ?thesis
  proof (cases "stale_row r")
    case False
    then have out: "hID r \<notin> hID ` set hs" using hid r by force
    have "\<forall>(k, g) \<in> set ?gs. g \<noteq> [] \<and> hID r \<notin> hID ` set g"
    proof (clarify, rule conjI)
      fix k g
      assume "(k, g) \<in> set ?gs"
      from groups [OF this] out show "g \<noteq> []" "hID r \<notin> hID ` set g" by auto
    qed
    then show ?thesis using False out by (simp add: fold_groups_by group_row_other recomputed_def)
  next
    case True
    let ?sk = "Skeleton u (hName r)"
    let ?R = "filter (\<lambda>x. Skeleton u (hName x) = ?sk) (stale_rows rows)"
    have rm: "r \<in> set (stale_rows rows)" using True r by (simp add: mem)
    then have inn: "hID r \<in> hID ` set hs" unfolding hs_def by force
    have "?sk \<in> ?f ` set hs" using rm unfolding hs_def by force
    then obtain g where g: "(?sk, g) \<in> set ?gs" using groups_by_keys [of ?f hs] by force
    have gR: "g = map handle_of ?R" using groups(2) [OF g] by (simp add: hs_def filter_map comp_def)
    have R: "r \<in> set ?R" "distinct (map hID ?R)" using rm dist by (simp_all add: distinct_map_filter)
    let ?r = "fold_set (foldPlaceholder (hID r)) now r"
    have only: "\<forall>(k, g') \<in> set ?gs. g' \<noteq> [] \<and> (k \<noteq> ?sk \<longrightarrow> hID ?r \<notin> hID ` set g')"
    proof (clarify, intro conjI impI notI)
      fix k g'
      assume kg: "(k, g') \<in> set ?gs"
      show "g' = [] \<Longrightarrow> False" using groups(1) [OF kg] by simp
      assume k: "k \<noteq> ?sk" and "hID ?r \<in> hID ` set g'"
      then obtain h where h: "h \<in> set g'" "hID h = hID r" by auto
      then have "h \<in> set hs" "?f h = k" using groups(2) [OF kg] by auto
      then show False using hid [OF h(2) _ r] k by simp
    qed
    have e1: "group_row now ?gs ?r = (if hID ?r = hID (hd g) then fold_set ?sk now ?r else lookalike now ?r)"
    proof (rule group_row_in [OF groups_by_distinct g only])
      show "distinct (map hID g)" using R(2) by (simp add: gR comp_def)
      show "hID ?r \<in> hID ` set g" using R(1) unfolding gR by force
    qed
    have e2: "hID ?r = hID (hd g) \<longleftrightarrow> r = hd ?R"
    proof -
      have ne: "?R \<noteq> []" using R(1) by force
      then have "hd ?R \<in> set ?R" by (rule hd_in_set)
      then show ?thesis using key_unique [OF R(2) R(1)] ne by (auto simp: gR hd_map)
    qed
    have e3: "r = hd ?R \<longleftrightarrow> \<not> (\<exists>r' \<in> set ?R. older r' r)"
    proof (rule hd_oldest [OF _ R(2) R(1)])
      show "sorted_wrt (\<lambda>x y. hCreatedAt x < hCreatedAt y \<or> hCreatedAt x = hCreatedAt y \<and> hID x \<le> hID y) ?R"
        unfolding stale_rows_def by (intro sorted_wrt_filter order_by_sorted_wrt)
    qed
    have e4: "(\<exists>r' \<in> set ?R. older r' r) \<longleftrightarrow>
        (\<exists>r' \<in> set rows. stale_row r' \<and> Skeleton u (hName r') = ?sk \<and> older r' r)"
      by (auto simp: mem)
    show ?thesis
      unfolding fold_groups_by recomputed_def if_P [OF inn] e1 e2 e3 e4 using True by simp blast
  qed
qed

lemma ListStaleFolds_Inr:
  assumes "run_state (Handles_ListStaleFolds TableVersion) s = (Inr hs, s')"
  shows "hs = map handle_of (stale_rows (handles (data s)))" and "data s' = data s"
  using query_Inr [OF assms [unfolded Handles_ListStaleFolds_def]]
  by (simp_all add: stale_rows_def stale_row_def [abs_def])

lemma stale_rows_Nil: "stale_rows rows = [] \<longleftrightarrow> (\<forall>r \<in> set rows. \<not> stale_row r)"
  by (metis (no_types, lifting) empty_filter_conv set_empty set_order_by stale_rows_def)

lemma no_stale_recomputed: "\<forall>r \<in> set rows. \<not> stale_row r \<Longrightarrow> map (recomputed u now rows) rows = rows"
  by (rule map_idI) (simp add: recomputed_def)

lemma recompute_tx_effect:
  assumes run: "run_state (recompute_tx e now stamps) s = (Inr res, s')" and wf: "handles_unique (handles (data s))"
  shows "handles (data s') = map (recomputed (eUnicode e) now (handles (data s))) (handles (data s))"
    and "handles_unique (handles (data s'))"
proof -
  let ?rows = "handles (data s)"
  obtain hs s1 where list: "run_state (Handles_ListStaleFolds TableVersion) s = (Inr hs, s1)"
    and r1: "run_state (if hs = [] then ret \<lparr>Recomputed = 0, Quarantined = 0\<rparr>
       else
         attempt (clear_folds hs now) (\<lambda>_.
         resolve_groups e (fold_groups (eUnicode e) hs) now stamps \<lparr>Recomputed = 0, Quarantined = 0\<rparr>)) s1 = (Inr res, s')"
    using run unfolding recompute_tx_def by (rule attempt_InrE)
  note l = ListStaleFolds_Inr [OF list]
  have ids: "distinct (map hID ?rows)" using wf by (simp add: handles_unique_def)
  have "handles (data s') = map (recomputed (eUnicode e) now ?rows) ?rows \<and> handles_unique (handles (data s'))"
  proof (cases "hs = []")
    case True
    then have "stale_rows ?rows = []" "data s' = data s" using r1 l by auto
    then show ?thesis using wf by (simp add: no_stale_recomputed stale_rows_Nil)
  next
    case False
    then obtain u s2 where clear: "run_state (clear_folds hs now) s1 = (Inr u, s2)"
      and resolve: "run_state (resolve_groups e (fold_groups (eUnicode e) hs) now stamps \<lparr>Recomputed = 0, Quarantined = 0\<rparr>) s2 = (Inr res, s')"
      using r1 by (auto elim: attempt_InrE)
    note c = clear_folds_effect [OF clear] and g = resolve_groups_effect [OF resolve]
    have "handles (data s') = map (group_row now (fold_groups (eUnicode e) hs))
        (map (\<lambda>r. if hID r \<in> hID ` set hs then fold_set (foldPlaceholder (hID r)) now r else r) ?rows)"
      using c g by (simp add: update_where_def l(2))
    also have "\<dots> = map (recomputed (eUnicode e) now ?rows) ?rows"
      using pass_row [OF ids] by (simp add: l(1) comp_def)
    finally have "handles (data s') = map (recomputed (eUnicode e) now ?rows) ?rows" .
    moreover have "handles_unique (handles (data s'))" using c g wf unfolding l(2) by blast
    ultimately show ?thesis ..
  qed
  then show "handles (data s') = map (recomputed (eUnicode e) now ?rows) ?rows" and "handles_unique (handles (data s'))"
    by blast+
qed

lemma Recomputer_Run_effect:
  assumes run: "run_state (Recomputer_Run e now stamps) s = (Inr res, s')" and wf: "handles_unique (handles (data s))"
  shows "handles (data s') = map (recomputed (eUnicode e) now (handles (data s))) (handles (data s))"
    and "handles_unique (handles (data s'))"
proof -
  obtain hs s1 where list: "run_state (Handles_ListStaleFolds TableVersion) s = (Inr hs, s1)"
    and r1: "run_state (if hs = [] then ret \<lparr>Recomputed = 0, Quarantined = 0\<rparr> else WithTx (recompute_tx e now stamps)) s1 = (Inr res, s')"
    using run unfolding Recomputer_Run_def by (rule attempt_InrE)
  note l = ListStaleFolds_Inr [OF list]
  have "handles (data s') = map (recomputed (eUnicode e) now (handles (data s))) (handles (data s))
      \<and> handles_unique (handles (data s'))"
  proof (cases "hs = []")
    case True
    then have "stale_rows (handles (data s)) = []" "data s' = data s" using r1 l by auto
    then show ?thesis using wf by (simp add: no_stale_recomputed stale_rows_Nil)
  next
    case False
    then obtain s2 where tx: "run_state (recompute_tx e now stamps) (tick s1) = (Inr res, s2)" "data s' = data s2"
      using r1 WithTx_Inr [of "recompute_tx e now stamps" s1 res s'] by auto
    then show ?thesis using recompute_tx_effect [OF tx(1)] wf by (simp add: l(2))
  qed
  then show "handles (data s') = map (recomputed (eUnicode e) now (handles (data s))) (handles (data s))"
    and "handles_unique (handles (data s'))"
    by blast+
qed

section \<open>Properties\<close>

text \<open>
  C25: the startup pass settles the look-alikes among the stale rows. When it succeeds, no stored skeleton is
  stale; rows that were current are as before, and of the stale rows of one skeleton the oldest keeps its
  state and gets the skeleton while every younger one is held, flagged and without an end, under a
  placeholder. Two active handles then share a skeleton only if one of them was current before the pass
  with a stored skeleton that is not its own, as the row of a reclaimed look-alike is.
\<close>

theorem recompute_settles_lookalikes:
  assumes run: "run_state (Recomputer_Run e now stamps) s = (Inr res, s')"
    and wf: "handles_unique (handles (data s))"
  shows "(\<forall>r \<in> set (handles (data s')). hFoldVersion r = TableVersion)
    \<and> handles (data s') = map (\<lambda>r.
        if hFoldVersion r = TableVersion then r
        else if \<exists>r' \<in> set (handles (data s)). hFoldVersion r' \<noteq> TableVersion
          \<and> Skeleton (eUnicode e) (hName r') = Skeleton (eUnicode e) (hName r)
          \<and> (hCreatedAt r' < hCreatedAt r \<or> hCreatedAt r' = hCreatedAt r \<and> hID r' < hID r)
        then r\<lparr>hState := NameStateQuarantined, hQuarantineUntil := None, hFlaggedForReview := True,
               hNameFold := CHR ''!'' # hID r, hFoldVersion := TableVersion, hUpdatedAt := now\<rparr>
        else r\<lparr>hNameFold := Skeleton (eUnicode e) (hName r), hFoldVersion := TableVersion, hUpdatedAt := now\<rparr>)
      (handles (data s))
    \<and> (\<forall>r \<in> set (handles (data s')). \<forall>r' \<in> set (handles (data s')).
         hState r = NameStateActive \<and> hState r' = NameStateActive \<and> r \<noteq> r'
         \<and> Skeleton (eUnicode e) (hName r) = Skeleton (eUnicode e) (hName r') \<longrightarrow>
         (\<exists>x \<in> {r, r'}. x \<in> set (handles (data s)) \<and> hFoldVersion x = TableVersion
            \<and> hNameFold x \<noteq> Skeleton (eUnicode e) (hName x)))"
proof -
  note eff = Recomputer_Run_effect [OF run wf]
  let ?u = "eUnicode e" and ?rows = "handles (data s)"
  have version: "hFoldVersion (recomputed ?u now ?rows r) = TableVersion" for r
    by (simp add: recomputed_def stale_row_def)
  have own: "hNameFold r = Skeleton ?u (hName r) \<or> r \<in> set ?rows \<and> hFoldVersion r = TableVersion"
    if r: "r \<in> set (handles (data s'))" "hState r = NameStateActive" for r
  proof -
    obtain r0 where r0: "r0 \<in> set ?rows" "r = recomputed ?u now ?rows r0" using r(1) unfolding eff(1) by auto
    then show ?thesis using r(2) by (auto simp: recomputed_def stale_row_def split: if_splits)
  qed
  have folds: "distinct (map hNameFold (handles (data s')))" using eff(2) by (simp add: handles_unique_def)
  have shared: "\<exists>x \<in> {r, r'}. x \<in> set ?rows \<and> hFoldVersion x = TableVersion \<and> hNameFold x \<noteq> Skeleton ?u (hName x)"
    if "r \<in> set (handles (data s'))" "r' \<in> set (handles (data s'))" "hState r = NameStateActive"
      "hState r' = NameStateActive" "r \<noteq> r'" "Skeleton ?u (hName r) = Skeleton ?u (hName r')" for r r'
    using key_unique [OF folds that(1,2)] own [of r] own [of r'] that by auto
  have rows: "recomputed ?u now ?rows = (\<lambda>r.
        if hFoldVersion r = TableVersion then r
        else if \<exists>r' \<in> set ?rows. hFoldVersion r' \<noteq> TableVersion \<and> Skeleton ?u (hName r') = Skeleton ?u (hName r)
          \<and> (hCreatedAt r' < hCreatedAt r \<or> hCreatedAt r' = hCreatedAt r \<and> hID r' < hID r)
        then r\<lparr>hState := NameStateQuarantined, hQuarantineUntil := None, hFlaggedForReview := True,
               hNameFold := CHR ''!'' # hID r, hFoldVersion := TableVersion, hUpdatedAt := now\<rparr>
        else r\<lparr>hNameFold := Skeleton ?u (hName r), hFoldVersion := TableVersion, hUpdatedAt := now\<rparr>)"
    by (rule ext) (auto simp: recomputed_def stale_row_def older_def fold_set_def lookalike_def foldPlaceholder_def)
  have "\<forall>r \<in> set (handles (data s')). hFoldVersion r = TableVersion" using version unfolding eff(1) by simp
  moreover note eff(1) [unfolded rows]
  ultimately show ?thesis using shared by blast
qed

definition sample_handle :: "HandleID \<Rightarrow> OwnerID \<Rightarrow> string \<Rightarrow> NameState \<Rightarrow> time \<Rightarrow> HandleRow" where
  "sample_handle i ow name st created =
     \<lparr>hID = i, hOwnerID = ow, hName = name, hState = st,
      hQuarantineUntil = (if st = NameStateQuarantined then Some 1000 else None), hFlaggedForReview = False,
      hQuarantineOnRelease = False, hCreatedAt = created, hUpdatedAt = created, hNameFold = name, hFoldVersion = 0\<rparr>"

text \<open>Before the skeletons were stored, one owner took a name and another owner held, then left, its look-alike.\<close>

definition sample_stale :: session where
  "sample_stale = \<lparr>data = empty_db\<lparr>
     owners := map (\<lambda>i. \<lparr>oID = i, oStatus = OwnerStatusActive, oCreatedAt = 0, oUpdatedAt = 0, oDeletedAt = None\<rparr>) [''u1'', ''u2''],
     handles := [sample_handle ''h1'' ''u1'' ''bob'' NameStateActive 1,
       sample_handle ''h2'' ''u2'' ''b0b'' NameStateQuarantined 2, sample_handle ''h3'' ''u2'' ''ann'' NameStateActive 3]\<rparr>, faults = []\<rparr>"

theorem recompute_settles_lookalikes_witness:
  "\<exists>s'. run_state (Recomputer_Run sample_env 10 (\<lambda>n. (''q'', 10))) sample_stale = (Inr \<lparr>Recomputed = 2, Quarantined = 1\<rparr>, s')
     \<and> list_all (\<lambda>r. hFoldVersion r = TableVersion) (handles (data s'))
     \<and> map (\<lambda>r. (hName r, hState r, hNameFold r)) (handles (data s')) =
         [(''bob'', NameStateActive, Skeleton plain ''bob''), (''b0b'', NameStateQuarantined, ''!h2''),
          (''ann'', NameStateActive, Skeleton plain ''ann'')]"
proof -
  let ?run = "run_state (Recomputer_Run sample_env 10 (\<lambda>n. (''q'', 10))) sample_stale"
  have "fst ?run = Inr \<lparr>Recomputed = 2, Quarantined = 1\<rparr>" by code_simp
  then obtain s' where run: "?run = (Inr \<lparr>Recomputed = 2, Quarantined = 1\<rparr>, s')" by (metis prod.collapse)
  have wf: "handles_unique (handles (data sample_stale))"
    by (simp add: sample_stale_def handles_unique_def sample_handle_def)
  note settled = recompute_settles_lookalikes [OF run wf]
  have version: "list_all (\<lambda>r. hFoldVersion r = TableVersion) (handles (data s'))"
    using settled [THEN conjunct1] by (simp add: list_all_iff)
  have skel: "Skeleton plain ''b0b'' = Skeleton plain ''bob''" "Skeleton plain ''ann'' \<noteq> Skeleton plain ''bob''"
    by code_simp+
  have states: "map (\<lambda>r. (hName r, hState r, hNameFold r)) (handles (data s')) =
      [(''bob'', NameStateActive, Skeleton plain ''bob''), (''b0b'', NameStateQuarantined, ''!h2''),
       (''ann'', NameStateActive, Skeleton plain ''ann'')]"
    unfolding settled [THEN conjunct2, THEN conjunct1]
    using skel by (simp add: sample_stale_def sample_handle_def TableVersion_def sample_env_def)
  show ?thesis by (intro exI [of _ s'] conjI run version states)
qed

text \<open>
  A handle the pass holds as a look-alike is still its owner's own hold, and the owner can take it back: here the
  pass holds \<^verbatim>\<open>b0b\<close> beside the active \<^verbatim>\<open>bob\<close> of another owner, and a rename makes it active again, so that
  two active handles share a skeleton.
\<close>

definition sample_settled :: session where
  "sample_settled = snd (run_state (Recomputer_Run sample_env 10 (\<lambda>n. (''q'', 10))) sample_stale)"

definition sample_reclaim :: "Handle conn" where
  "sample_reclaim = Handle_Rename (Handle_New sample_env []) ''u2'' ''b0b'' [] ''h4'' 20 20 (''r'', 20)"

lemma lookalike_reclaimed:
  "\<not> isl (fst (run_state sample_reclaim sample_settled))"
  "map (\<lambda>h. (hName h, hState h)) (handles (data (snd (run_state sample_reclaim sample_settled)))) =
     [(''bob'', NameStateActive), (''b0b'', NameStateActive), (''ann'', NameStateQuarantined)]"
  "Skeleton plain ''bob'' = Skeleton plain ''b0b''"
  by code_simp+

end
