(* ===== verification/Spec2Isabelle.thy ===== *)
theory Spec2Isabelle
  imports Failover Block_Apply Enrollment Erasure Publish Handle_Service
begin

text \<open>
  A verification development for the key vault service \<^verbatim>\<open>sshpilot-vallete\<close>, a server that keeps
  SSH public keys of owners, publishes them under handles and key sets, and a helper that installs
  a published set into an \<^verbatim>\<open>authorized_keys\<close> file.

  \<^bold>\<open>Conventions.\<close> A Go string or byte slice is a \<^typ>\<open>string\<close>; an instant or a duration is an
  \<^typ>\<open>int\<close> of nanoseconds, wrapped to 64 bits where the code can overflow; \<^verbatim>\<open>(T, error)\<close> is a sum
  with the error on the left. Random bytes, the clock and the cancellation of a context are
  arguments. State is passed explicitly.

  \<^bold>\<open>Theories.\<close>
  \<^item> \<open>Prelude\<close>: types, error values, shared facts. \<open>Go_Strings\<close>, \<open>Utf8\<close>, \<open>Base64\<close>, \<open>Crypto\<close>: the parts
    of the Go standard library the code uses (\<^verbatim>\<open>strings\<close>, \<^verbatim>\<open>unicode/utf8\<close>, \<^verbatim>\<open>encoding/base64\<close>,
    \<^verbatim>\<open>crypto/sha256\<close>, \<^verbatim>\<open>crypto/hmac\<close>), as executable functions.
  \<^item> \<open>Domain\<close>: the records, statuses, scopes and validators of \<^verbatim>\<open>internal/domain\<close>.
  \<^item> \<open>Counter\<close>, \<open>Rate_Limit\<close>, \<open>Failover\<close>: \<^verbatim>\<open>internal/counter\<close> and \<^verbatim>\<open>internal/ratelimit\<close>. The port of
    a counter store is the locale \<open>counter_port\<close>, interpreted on the in-process store; the limiter lemmas
    are proved once over it. The failover store's requests and its reprobe loop are a step relation.
    Shown: how many requests are admitted, that the failure limiter implements the standing of every key
    over any history, the lockout curve with its 64-bit shift and when it holds, that a degraded
    store always has a probe under way, and that an outage is enforced by the fallback.
  \<^item> \<open>Keys\<close>: \<^verbatim>\<open>internal/keys\<close>, parsing and reconstruction of public keys. The SSH library is a
    parameter with its laws as a named hypothesis. Shown: one line out, what the line of an accepted
    key parses to, and the batch as the single-key parser line by line.
  \<^item> \<open>Managed_Block\<close>, \<open>Block_Apply\<close>: \<^verbatim>\<open>internal/managedblock\<close>, the merge of the managed block and the
    atomic write over a directory in which every call may fail. The result of an apply carries every
    state of the directory on the way, so a crash is any prefix of it.
  \<^item> \<open>Tokens\<close>: the token formats of \<^verbatim>\<open>internal/auth\<close>. The formats that carry an identifier and a secret
    share the locale \<open>id_secret_codec\<close>, interpreted on refresh tokens and device codes.
    \<^verbatim>\<open>encoding/json\<close> on the claims is a parameter.
  \<^item> \<open>Database\<close>: what the SQLite adapter is built on (\<^verbatim>\<open>internal/storage/sqlite\<close>). The tables are lists of
    rows in a record; a statement is a function on it and may fail, as the list of faults of the session
    says; a transaction restores the tables on failure. Contracts of statements (\<open>hoare\<close>, \<open>preserves\<close>)
    come with rules that compute preconditions. The locale \<open>single_use\<close> is the contract of a conditional
    update that consumes a row.
  \<^item> \<open>Auth_Repos\<close>: the repositories of owners, refresh credentials, linked identities and device pairings.
  \<^item> \<open>Token_Service\<close>: issuing, exchanging and verifying tokens and the denylist (\<^verbatim>\<open>tokenservice.go\<close>,
    \<^verbatim>\<open>denylist.go\<close>). Shown over every history of calls: single use of a refresh credential, one active
    credential per lineage, reuse detection; and what an exchange of a valid token does.
  \<^item> \<open>Authorization\<close>: the guard and its scope rules (\<^verbatim>\<open>authorization.go\<close>).
  \<^item> \<open>Enrollment\<close>: identities, providers, authentication and the enrollment service. Shown: an enrollment
    completes, a pairing only moves forward, is redeemed at most once, and what revoking it does not do.

  \<^item> \<open>Key_Repos\<close>: the repositories of devices, public keys, key sets with their members, and access keys.
  \<^item> \<open>Audit_Log\<close>: \<^verbatim>\<open>internal/audit\<close>, the audit and salt repositories, and the retention purge of
    \<^verbatim>\<open>internal/erasure\<close>. The tables of printable runes and the rendering of a time are parameters. Shown: a purge
    ends and deletes exactly what it should; it is never recorded.
  \<^item> \<open>Blocklist\<close>: \<^verbatim>\<open>internal/blocklist\<close> and \<^verbatim>\<open>internal/nameguard\<close>. NFKD and the Unicode tables are one
    parameter, the word lists arguments. Shown: exactly which names the matcher allows.
  \<^item> \<open>Name_Repos\<close>: the repositories of handles, administrators and list overrides.
  \<^item> \<open>Erasure\<close>: erasure of an owner from the audit log. Shown: what a completed erasure leaves.
  \<^item> \<open>Key_Services\<close>: the services of devices, public keys and key sets (\<^verbatim>\<open>internal/service/device\<close>,
    \<^verbatim>\<open>publickey\<close>, \<^verbatim>\<open>keyset\<close>). An operation is a step of \<open>owner_step\<close>, whatever fails in it. Shown: the
    invariant of the key sets over every sequence of operations, and what a deletion leaves.
  \<^item> \<open>Access_Keys\<close>: \<^verbatim>\<open>internal/service/accesskey\<close>. Shown: what a rotation does to every token, and what a
    rename of the set does to its keys.
  \<^item> \<open>Publish\<close>: \<^verbatim>\<open>internal/service/publish\<close>. Shown: exactly what a request is answered, and that revoking
    a device does not change it.

  \<^item> \<open>Handle_Service\<close>: \<^verbatim>\<open>internal/service/handle\<close>, rename and release of handles and the startup pass that
    recomputes stored skeletons. Shown: what the pass makes of every row, and how a look-alike comes back.

  \<^bold>\<open>Bounds.\<close> No definition takes fuel: every loop of the modelled code is structural or has a
  termination proof.

  \<^bold>\<open>Not modelled.\<close> Process wiring, listeners, HTTP handlers, TLS and ACME, DNS provider clients, the Redis
  client, telemetry and the SQL text are input and output of other systems. The PostgreSQL adapter
  implements the ports of the SQLite one with locks and conflict clauses of its own. Onboarding, bootstrap,
  the administration of the word lists, the job runner of \<^verbatim>\<open>internal/sweep\<close>, the migration runner and the
  validation of the configuration have no definitions here.
\<close>

end
